(* ===== verification/LensPrelude.thy ===== *)
theory LensPrelude
  imports Main "HOL-Library.Code_Target_Numeral" "HOL-Library.Word" "HOL-Library.Char_ord" "HOL-Library.List_Lexorder"
begin

text \<open>
  Shared vocabulary of the development: the machine integers of the Rust code, the
  result type that carries errors as values, the string helpers of the Rust standard
  library that the crate calls, and the closed wire vocabularies (a Rust enum together
  with the strings it has on the wire), stated once as a locale and interpreted by every
  component that owns such an enum.

  Rust strings are modelled as \<^typ>\<open>string\<close>, read as the list of their UTF-8 bytes; the
  order on them is the bytewise lexicographic order, as \<open>Ord for str\<close> has it.
\<close>

named_theorems wf_intros \<open>introduction rules for well-formedness and invariants\<close>
named_theorems wire_facts \<open>wire strings of the closed vocabularies\<close>

subsection \<open>Machine integers\<close>

type_synonym u8 = "8 word"
type_synonym u32 = "32 word"
type_synonym u64 = "64 word"
type_synonym i32 = "32 word"
type_synonym i64 = "64 word"

text \<open>A byte buffer (\<open>Vec<u8>\<close>).\<close>

type_synonym bytes = "u8 list"

definition u32_max :: nat where
  "u32_max = 2 ^ 32 - 1"

definition saturating_mul_u64 :: "u64 \<Rightarrow> u64 \<Rightarrow> u64" where
  "saturating_mul_u64 a b =
     (if unat a * unat b < 2 ^ 64 then a * b else - 1)"

lemma unat_saturating_mul_u64:
  "unat (saturating_mul_u64 a b) = min (unat a * unat b) (2 ^ 64 - 1)"
proof (cases "unat a * unat b < 2 ^ 64")
  case True
  then have "unat (a * b) = unat a * unat b"
    by (simp add: unat_word_ariths)
  with True show ?thesis by (simp add: saturating_mul_u64_def)
next
  case False
  have "unat (- 1 :: u64) = 2 ^ 64 - 1" by (simp add: unsigned_minus_1_eq_mask mask_eq_exp_minus_1)
  with False show ?thesis by (simp add: saturating_mul_u64_def)
qed

text \<open>\<open>u32::try_from(n).unwrap_or(u32::MAX)\<close> on a \<open>u64\<close>.\<close>

definition u32_try_from_or_max :: "u64 \<Rightarrow> u32" where
  "u32_try_from_or_max n = (if unat n < 2 ^ 32 then ucast n else - 1)"

lemma unat_u32_try_from_or_max:
  "unat (u32_try_from_or_max n) = min (unat n) (2 ^ 32 - 1)"
proof (cases "unat n < 2 ^ 32")
  case True
  then have "unat (ucast n :: u32) = unat n"
    by (simp add: unsigned_ucast_eq take_bit_nat_eq_self)
  with True show ?thesis by (simp add: u32_try_from_or_max_def)
next
  case False
  have "unat (- 1 :: u32) = 2 ^ 32 - 1" by (simp add: unsigned_minus_1_eq_mask mask_eq_exp_minus_1)
  with False show ?thesis by (simp add: u32_try_from_or_max_def)
qed

lemma unat_ucast_u32_u64 [simp]: "unat (ucast (n :: u32) :: u64) = unat n"
proof -
  have "unat n < 2 ^ 32" using unsigned_less [where ?w = n, where ?'a = nat] by simp
  then have "unat n < 2 ^ 64" by simp
  then show ?thesis by (simp add: unsigned_ucast_eq take_bit_nat_eq_self)
qed

lemma ucast_u32_u64_inj [simp]: "(ucast (a :: u32) :: u64) = ucast b \<longleftrightarrow> a = b"
  by (metis unat_ucast_u32_u64 word_unat_eq_iff)

subsection \<open>Results\<close>

text \<open>\<open>Result<a, e>\<close> is \<open>e + 'a\<close> with \<open>Inl\<close> for \<open>Err\<close>; \<open>rbind\<close> is the \<open>?\<close> operator.\<close>

definition rbind :: "'e + 'a \<Rightarrow> ('a \<Rightarrow> 'e + 'b) \<Rightarrow> 'e + 'b" where
  "rbind r f = (case r of Inl e \<Rightarrow> Inl e | Inr a \<Rightarrow> f a)"

definition map_err :: "('e \<Rightarrow> 'f) \<Rightarrow> 'e + 'a \<Rightarrow> 'f + 'a" where
  "map_err g r = (case r of Inl e \<Rightarrow> Inl (g e) | Inr a \<Rightarrow> Inr a)"

lemma rbind_simps [simp]:
  "rbind (Inl e) f = Inl e" "rbind (Inr a) f = f a"
  by (simp_all add: rbind_def)

lemma map_err_simps [simp]:
  "map_err g (Inl e) = Inl (g e)" "map_err g (Inr a) = Inr a"
  by (simp_all add: map_err_def)

lemma rbind_eq_Inr_iff: "rbind r f = Inr b \<longleftrightarrow> (\<exists>a. r = Inr a \<and> f a = Inr b)"
  by (cases r) auto

lemma rbind_eq_Inl_iff: "rbind r f = Inl e \<longleftrightarrow> r = Inl e \<or> (\<exists>a. r = Inr a \<and> f a = Inl e)"
  by (cases r) auto

lemma map_err_eq_Inr_iff [simp]: "map_err g r = Inr a \<longleftrightarrow> r = Inr a"
  by (cases r) auto

lemma map_err_eq_Inl_iff: "map_err g r = Inl e \<longleftrightarrow> (\<exists>e'. r = Inl e' \<and> e = g e')"
  by (cases r) auto

subsection \<open>Strings\<close>

text \<open>\<open>str::strip_prefix\<close>.\<close>

definition strip_prefix :: "string \<Rightarrow> string \<Rightarrow> string option" where
  "strip_prefix p s = (if take (length p) s = p then Some (drop (length p) s) else None)"

lemma strip_prefix_append [simp]: "strip_prefix p (p @ s) = Some s"
  by (simp add: strip_prefix_def)

lemma strip_prefix_SomeD: "strip_prefix p s = Some t \<Longrightarrow> s = p @ t"
  by (auto simp: strip_prefix_def split: if_splits) (metis append_take_drop_id)

text \<open>Reading a byte as a character and back.\<close>

lemma byte_mod [simp]: "of_nat (unat x mod 256) = (x :: u8)"
  using unsigned_less [of x, where ?'a = nat] by simp

lemma byte_char: "of_nat (of_char (char_of (unat x) :: char)) = (x :: u8)"
  by (simp add: of_char_of)

lemma inj_byte_char: "char_of (unat x) = (char_of (unat y) :: char) \<Longrightarrow> x = (y :: u8)"
  by (metis byte_char)

text \<open>Decimal rendering of an unsigned integer.\<close>

fun show_nat :: "nat \<Rightarrow> string" where
  "show_nat n = (if n < 10 then [char_of (48 + n)] else show_nat (n div 10) @ [char_of (48 + n mod 10)])"

declare show_nat.simps [simp del]

fun read_nat :: "string \<Rightarrow> nat" where
  "read_nat s = foldl (\<lambda>a c. 10 * a + (of_char c - 48)) 0 s"

lemma of_char_digit: "d < 10 \<Longrightarrow> (of_char (char_of (48 + d) :: char) :: nat) = 48 + d"
  by (simp add: of_char_of take_bit_nat_eq_self)

lemma read_show_nat: "read_nat (show_nat n) = n"
proof (induction n rule: show_nat.induct)
  case (1 n)
  show ?case
  proof (cases "n < 10")
    case True
    then show ?thesis by (subst show_nat.simps) (simp add: of_char_digit)
  next
    case False
    with "1" have "read_nat (show_nat (n div 10)) = n div 10" by simp
    with False show ?thesis
      by (subst show_nat.simps) (simp add: of_char_digit)
  qed
qed

lemma inj_show_nat: "show_nat m = show_nat n \<Longrightarrow> m = n"
  by (metis read_show_nat)

text \<open>Decimal numerals: \<open>to_string\<close> and \<open>str::parse\<close> of the signed types of \<open>w\<close> bits.\<close>

definition is_digit :: "char \<Rightarrow> bool" where
  "is_digit c = (48 \<le> (of_char c :: nat) \<and> (of_char c :: nat) \<le> 57)"

definition show_int :: "int \<Rightarrow> string" where
  "show_int n = (if n < 0 then CHR ''-'' # show_nat (nat (- n)) else show_nat (nat n))"

definition parse_int :: "nat \<Rightarrow> string \<Rightarrow> int option" where
  "parse_int w s =
     (let neg = (s \<noteq> [] \<and> hd s = CHR ''-'');
          ds = (if s \<noteq> [] \<and> (hd s = CHR ''-'' \<or> hd s = CHR ''+'') then tl s else s);
          n = (if neg then - int (read_nat ds) else int (read_nat ds))
      in if ds \<noteq> [] \<and> list_all is_digit ds \<and> - (2 ^ (w - 1)) \<le> n \<and> n < 2 ^ (w - 1)
         then Some n else None)"

lemma is_digit_digit: "(d :: nat) < 10 \<Longrightarrow> is_digit (char_of (48 + d))"
  by (simp add: is_digit_def of_char_digit)

lemma show_nat_digits: "show_nat n \<noteq> [] \<and> list_all is_digit (show_nat n)"
proof (induction n rule: show_nat.induct)
  case (1 n)
  then show ?case
    by (subst (1 2) show_nat.simps) (auto simp: is_digit_digit)
qed

lemma show_nat_hd: "is_digit (hd (show_nat n))" "\<not> is_digit CHR ''-''" "\<not> is_digit CHR ''+''"
  using show_nat_digits [of n] by (cases "show_nat n"; simp add: is_digit_def)+

lemma parse_show_int:
  assumes "- (2 ^ (w - 1)) \<le> n" "n < 2 ^ (w - 1)"
  shows "parse_int w (show_int n) = Some n"
proof (cases "n < 0")
  case True
  then show ?thesis
    using assms show_nat_digits [of "nat (- n)"] read_show_nat [of "nat (- n)"]
    by (simp add: parse_int_def show_int_def Let_def del: read_nat.simps)
next
  case False
  then have "hd (show_nat (nat n)) \<noteq> CHR ''-''" "hd (show_nat (nat n)) \<noteq> CHR ''+''"
    using show_nat_hd by metis+
  then show ?thesis
    using assms False show_nat_digits [of "nat n"] read_show_nat [of "nat n"]
    by (simp add: parse_int_def show_int_def Let_def del: read_nat.simps)
qed

text \<open>\<open>str::to_ascii_lowercase\<close>.\<close>

definition ascii_lower :: "string \<Rightarrow> string" where
  "ascii_lower s = map (\<lambda>c. if 65 \<le> (of_char c :: nat) \<and> (of_char c :: nat) \<le> 90
     then char_of ((of_char c :: nat) + 32) else c) s"

subsection \<open>Instants\<close>

text \<open>
  A \<open>DateTime<Utc>\<close> is its distance from the epoch in nanoseconds, a \<open>chrono::Duration\<close> a
  difference of two; \<open>num_seconds\<close> truncates towards zero.
\<close>

type_synonym instant = int
type_synonym duration = int

definition num_seconds :: "duration \<Rightarrow> int" where
  "num_seconds d = (if 0 \<le> d then d div 10 ^ 9 else - ((- d) div 10 ^ 9))"

lemma num_seconds_mono: "d \<le> e \<Longrightarrow> num_seconds d \<le> num_seconds e"
proof -
  assume "d \<le> e"
  then have "d div 10 ^ 9 \<le> e div 10 ^ 9" "(- e) div 10 ^ 9 \<le> (- d) div 10 ^ 9"
    by (simp_all add: zdiv_mono1)
  moreover have "d < 0 \<Longrightarrow> 0 \<le> (- d) div 10 ^ 9" "0 \<le> e \<Longrightarrow> 0 \<le> e div 10 ^ 9"
    by (simp_all add: pos_imp_zdiv_nonneg_iff)
  ultimately show ?thesis by (auto simp: num_seconds_def)
qed

lemma num_seconds_gt_iff: "0 \<le> n \<Longrightarrow> n < num_seconds d \<longleftrightarrow> (n + 1) * 10 ^ 9 \<le> d"
proof (cases "0 \<le> d")
  case False
  then have "num_seconds d \<le> 0" by (simp add: num_seconds_def pos_imp_zdiv_nonneg_iff)
  then show "0 \<le> n \<Longrightarrow> ?thesis" using False by simp
next
  case True
  then show "0 \<le> n \<Longrightarrow> ?thesis" by (simp add: num_seconds_def) linarith
qed

subsection \<open>Closed wire vocabularies\<close>

text \<open>
  The crate's enums carry a wire string per variant and, for some, a constant listing all
  variants. \<open>parse_wire\<close> is the lookup \<open>ALL.into_iter().find(|v| v.wire() == s)\<close>.
\<close>

definition parse_wire :: "('a \<Rightarrow> string) \<Rightarrow> 'a list \<Rightarrow> string \<Rightarrow> 'a option" where
  "parse_wire w vs s = find (\<lambda>v. w v = s) vs"

locale wire_enum =
  fixes wire :: "'a \<Rightarrow> string" and variants :: "'a list"
  assumes listed: "v \<in> set variants"
    and distinct_variants: "distinct variants"
    and wire_inj: "wire u = wire v \<Longrightarrow> u = v"
begin

lemma wire_eq_iff: "wire u = wire v \<longleftrightarrow> u = v"
  using wire_inj by blast

lemma parse_eq_Some_iff: "parse_wire wire variants s = Some v \<longleftrightarrow> s = wire v"
proof
  assume "parse_wire wire variants s = Some v"
  then show "s = wire v" by (auto simp: parse_wire_def find_Some_iff)
next
  assume s: "s = wire v"
  have "find (\<lambda>x. wire x = wire v) variants = Some v"
  proof (cases "find (\<lambda>x. wire x = wire v) variants")
    case None
    with listed [of v] show ?thesis by (auto simp: find_None_iff)
  next
    case (Some u)
    then have "wire u = wire v" by (auto simp: find_Some_iff)
    with Some show ?thesis by (simp add: wire_eq_iff)
  qed
  with s show "parse_wire wire variants s = Some v" by (simp add: parse_wire_def)
qed

lemma parse_wire_wire [simp]: "parse_wire wire variants (wire v) = Some v"
  by (simp add: parse_eq_Some_iff)

lemma parse_eq_None_iff: "parse_wire wire variants s = None \<longleftrightarrow> s \<notin> range wire"
  by (metis not_None_eq parse_eq_Some_iff image_iff rangeI)

lemma card_variants: "card (UNIV :: 'a set) = length variants"
  using listed distinct_variants by (metis UNIV_eq_I distinct_card)

end

end
