(* ===== verification/F64.thy ===== *)
theory F64
  imports Complex_Main LensPrelude
begin

text \<open>
  IEEE-754 binary64, as Rust's \<open>f64\<close>: not-a-number, signed infinities, and signed exact
  rationals. Every operation computes the exact rational result and rounds it once, to
  nearest with ties to even, on the 53-bit grid (2 ^ -1074 at the bottom, infinity from
  2 ^ 1024 on). The lemmas give what the component proofs need: rounding is monotone,
  idempotent and exact on the grid, so that bounds of exact results carry over.
\<close>

datatype f64 = NaN | Inf bool | Fin bool rat

section \<open>Binary logarithm and powers of two\<close>

abbreviation pow2 :: "int \<Rightarrow> rat" where
  "pow2 e \<equiv> 2 powi e"

fun ilog2_nat :: "nat \<Rightarrow> nat" where
  "ilog2_nat n = (if n \<le> 1 then 0 else Suc (ilog2_nat (n div 2)))"

declare ilog2_nat.simps [simp del]

definition ilog2 :: "rat \<Rightarrow> int" where
  "ilog2 q = (case quotient_of q of (a, b) \<Rightarrow>
     let e = int (ilog2_nat (nat a)) - int (ilog2_nat (nat b)) in
     if 2 powi e \<le> q then e else e - 1)"

lemma ilog2_nat_bounds: "0 < n \<Longrightarrow> 2 ^ ilog2_nat n \<le> n \<and> n < 2 ^ Suc (ilog2_nat n)"
proof (induction n rule: ilog2_nat.induct)
  case (1 n)
  show ?case
  proof (cases "n \<le> 1")
    case True
    with "1.prems" show ?thesis by (subst (1 2) ilog2_nat.simps) simp
  next
    case False
    then have "2 ^ ilog2_nat (n div 2) \<le> n div 2" "n div 2 < 2 ^ Suc (ilog2_nat (n div 2))"
      using "1.IH" by auto
    moreover have "ilog2_nat n = Suc (ilog2_nat (n div 2))"
      using False by (subst ilog2_nat.simps) simp
    ultimately show ?thesis by simp linarith
  qed
qed

lemma pow2_pos [simp]: "0 < pow2 e"
  by (simp add: zero_less_power_int)

lemma pow2_less_iff [simp]: "pow2 a < pow2 b \<longleftrightarrow> a < b"
  by (metis linorder_not_less one_less_numeral_iff power_int_strict_increasing
      power_int_increasing semiring_norm(76) less_imp_le)

lemma pow2_le_iff [simp]: "pow2 a \<le> pow2 b \<longleftrightarrow> a \<le> b"
  by (simp flip: linorder_not_less)

lemma pow2_add: "pow2 (a + b) = pow2 a * pow2 b"
  by (simp add: power_int_add)

lemma pow2_int: "0 \<le> e \<Longrightarrow> pow2 e = of_int (2 ^ nat e)"
  by (simp add: power_int_def)

lemma pow2_shift: "pow2 a = pow2 (a - b) * pow2 b"
  by (simp flip: pow2_add)

lemma ilog2_bounds:
  assumes "0 < q"
  shows "pow2 (ilog2 q) \<le> q" and "q < pow2 (ilog2 q + 1)"
proof -
  obtain a b where ab: "quotient_of q = (a, b)" by fastforce
  then have b: "0 < b" and q: "q = of_int a / of_int b"
    using quotient_of_denom_pos quotient_of_div by blast+
  have a: "0 < a" using assms b by (simp add: q zero_less_divide_iff)
  define x where "x = ilog2_nat (nat a)"
  define y where "y = ilog2_nat (nat b)"
  have "2 ^ x \<le> nat a" "nat a < 2 ^ Suc x" "2 ^ y \<le> nat b" "nat b < 2 ^ Suc y"
    using ilog2_nat_bounds [of "nat a"] ilog2_nat_bounds [of "nat b"] a b
    by (auto simp: x_def y_def)
  then have "2 ^ x \<le> a" "a < 2 ^ Suc x" "2 ^ y \<le> b" "b < 2 ^ Suc y"
    using a b by (auto simp: nat_less_iff le_nat_iff)
  then have bnds: "(2::rat) ^ x \<le> of_int a" "of_int a < (2::rat) ^ Suc x"
      "(2::rat) ^ y \<le> of_int b" "of_int b < (2::rat) ^ Suc y"
    by (metis of_int_le_iff of_int_less_iff of_int_numeral of_int_power)+
  have lo: "pow2 (int x - int y - 1) < q"
  proof -
    have "pow2 (int x - int y - 1) = 2 ^ x / 2 ^ Suc y"
      by (simp add: power_int_diff)
    also have "\<dots> < of_int a / of_int b"
      using bnds a b by (intro frac_less2) auto
    finally show ?thesis by (simp add: q)
  qed
  have hi: "q < pow2 (int x - int y + 1)"
  proof -
    have "of_int a / of_int b < (2::rat) ^ Suc x / 2 ^ y"
      using bnds a b by (intro frac_less) auto
    also have "\<dots> = pow2 (int x - int y + 1)"
      by (simp add: power_int_diff power_int_add)
    finally show ?thesis by (simp add: q)
  qed
  have e: "ilog2 q = (if pow2 (int x - int y) \<le> q then int x - int y else int x - int y - 1)"
    by (simp add: ilog2_def ab x_def y_def)
  show "pow2 (ilog2 q) \<le> q" using lo by (auto simp: e)
  show "q < pow2 (ilog2 q + 1)" using hi by (auto simp: e)
qed

lemma ilog2_unique: "pow2 e \<le> q \<Longrightarrow> q < pow2 (e + 1) \<Longrightarrow> ilog2 q = e"
proof -
  assume a: "pow2 e \<le> q" "q < pow2 (e + 1)"
  then have "0 < q" using pow2_pos [of e] by linarith
  from ilog2_bounds [OF this] a
  have "pow2 e < pow2 (ilog2 q + 1)" "pow2 (ilog2 q) < pow2 (e + 1)" by linarith+
  then show ?thesis by simp
qed

lemma ilog2_pow2 [simp]: "ilog2 (pow2 e) = e"
  by (rule ilog2_unique) auto

lemma ilog2_mono: "0 < p \<Longrightarrow> p \<le> q \<Longrightarrow> ilog2 p \<le> ilog2 q"
proof -
  assume a: "0 < p" "p \<le> q"
  then have "0 < q" by simp
  with a ilog2_bounds [of p] ilog2_bounds [of q]
  have "pow2 (ilog2 p) < pow2 (ilog2 q + 1)" by linarith
  then show ?thesis by simp
qed

lemma ilog2_less: "0 < q \<Longrightarrow> q < pow2 e \<Longrightarrow> ilog2 q < e"
  using ilog2_bounds(1) [of q] by (meson order_le_less_trans pow2_less_iff)

section \<open>Rounding to nearest, ties to even\<close>

definition rne :: "rat \<Rightarrow> int" where
  "rne q = (let n = \<lfloor>q\<rfloor>; r = q - of_int n in
     if r < 1/2 then n else if 1/2 < r then n + 1 else if even n then n else n + 1)"

definition grid_exp :: "rat \<Rightarrow> int" where
  "grid_exp q = max (ilog2 q - 52) (- 1074)"

definition round_mag :: "rat \<Rightarrow> rat" where
  "round_mag q =
     (if q \<le> 0 then 0 else of_int (rne (q / 2 powi grid_exp q)) * 2 powi grid_exp q)"

lemma rne_of_int [simp]: "rne (of_int n) = n"
  by (simp add: rne_def)

lemma rne_bounds: "\<lfloor>q\<rfloor> \<le> rne q" "rne q \<le> \<lfloor>q\<rfloor> + 1"
  by (auto simp: rne_def Let_def)

lemma rne_mono: "p \<le> q \<Longrightarrow> rne p \<le> rne q"
proof -
  assume pq: "p \<le> q"
  show "rne p \<le> rne q"
  proof (cases "\<lfloor>p\<rfloor> = \<lfloor>q\<rfloor>")
    case True
    with pq show ?thesis by (auto simp: rne_def Let_def)
  next
    case False
    with pq have "\<lfloor>p\<rfloor> + 1 \<le> \<lfloor>q\<rfloor>"
      by (meson floor_mono order_le_less zless_imp_add1_zle)
    with rne_bounds show ?thesis by (meson order_trans)
  qed
qed

lemma rne_ge: "of_int k \<le> q \<Longrightarrow> k \<le> rne q"
  using rne_mono [of "of_int k" q] by simp

lemma rne_le: "q \<le> of_int k \<Longrightarrow> rne q \<le> k"
  using rne_mono [of q "of_int k"] by simp

lemma rne_err: "\<bar>of_int (rne q) - q\<bar> \<le> 1/2"
proof -
  have "of_int \<lfloor>q\<rfloor> \<le> q" "q < of_int \<lfloor>q\<rfloor> + 1" by linarith+
  then show ?thesis unfolding rne_def Let_def abs_if
    by (simp split: if_splits) linarith
qed

lemma round_mag_nonneg [simp]: "0 \<le> round_mag q"
proof (cases "q \<le> 0")
  case False
  then have "0 \<le> rne (q / pow2 (grid_exp q))"
    by (intro rne_ge) (simp add: less_imp_le)
  then show ?thesis by (simp add: round_mag_def)
qed (simp add: round_mag_def)

lemma round_mag_zero [simp]: "round_mag 0 = 0"
  by (simp add: round_mag_def)

text \<open>A multiple of a power of two that is no finer than the grid is a point of the grid.\<close>

lemma round_mag_exact:
  assumes "q = of_int k * pow2 g" "0 < q" "grid_exp q \<le> g"
  shows "round_mag q = q"
proof -
  have "q / pow2 (grid_exp q) = of_int k * pow2 (g - grid_exp q)"
    by (simp add: assms(1) power_int_diff)
  also have "\<dots> = of_int (k * 2 ^ nat (g - grid_exp q))"
    using assms(3) pow2_int [of "g - grid_exp q"] by simp
  finally have "round_mag q = q / pow2 (grid_exp q) * pow2 (grid_exp q)"
    using assms(2) by (simp add: round_mag_def del: of_int_mult of_int_power)
  then show ?thesis by simp
qed

lemma round_mag_pow2: "- 1074 \<le> e \<Longrightarrow> round_mag (pow2 e) = pow2 e"
  by (rule round_mag_exact [of _ 1 e]) (auto simp: grid_exp_def)

lemma round_mag_grid:
  assumes "0 \<le> k" "k \<le> 2 ^ 53" "- 1074 \<le> g"
  shows "round_mag (of_int k * pow2 g) = of_int k * pow2 g"
proof (cases "k = 0")
  case False
  with assms have pos: "0 < of_int k * pow2 g" by simp
  show ?thesis
  proof (cases "k = 2 ^ 53")
    case True
    have "of_int k * pow2 g = pow2 (53 + g)" by (simp add: True pow2_add)
    with assms(3) show ?thesis by (simp add: round_mag_pow2)
  next
    case False
    with assms have "k < 2 ^ 53" by simp
    then have "of_int k < (2::rat) ^ 53" by (metis of_int_less_iff of_int_numeral of_int_power)
    then have "of_int k * pow2 g < pow2 (53 + g)"
      by (simp add: pow2_add)
    with pos have "ilog2 (of_int k * pow2 g) < 53 + g" by (rule ilog2_less)
    with pos assms(3) show ?thesis
      by (intro round_mag_exact [of _ k g]) (auto simp: grid_exp_def)
  qed
qed simp

lemma round_mag_of_int: "0 \<le> k \<Longrightarrow> k \<le> 2 ^ 53 \<Longrightarrow> round_mag (of_int k) = of_int k"
  using round_mag_grid [of k 0] by simp

lemma round_mag_of_nat: "n \<le> 2 ^ 53 \<Longrightarrow> round_mag (of_nat n) = of_nat n"
  using round_mag_of_int [of "int n"] by simp

lemma round_mag_1 [simp]: "round_mag 1 = 1"
  using round_mag_of_nat [of 1] by simp

lemma round_mag_le_pow2:
  assumes "0 < p" "p \<le> pow2 k" "grid_exp p \<le> k"
  shows "round_mag p \<le> pow2 k"
proof -
  have "rne (p / pow2 (grid_exp p)) \<le> 2 ^ nat (k - grid_exp p)"
  proof (rule rne_le)
    have "p / pow2 (grid_exp p) \<le> pow2 k / pow2 (grid_exp p)"
      using assms(2) by (simp add: divide_right_mono less_imp_le)
    also have "\<dots> = of_int (2 ^ nat (k - grid_exp p))"
      using assms(3) pow2_int [of "k - grid_exp p"] by (simp add: power_int_diff)
    finally show "p / pow2 (grid_exp p) \<le> of_int (2 ^ nat (k - grid_exp p))" .
  qed
  then have "of_int (rne (p / pow2 (grid_exp p))) \<le> pow2 (k - grid_exp p)"
    using assms(3) pow2_int [of "k - grid_exp p"] by (metis diff_ge_0_iff_ge of_int_le_iff)
  then have "round_mag p \<le> pow2 (k - grid_exp p) * pow2 (grid_exp p)"
    using assms(1) by (simp add: round_mag_def mult_right_mono)
  then show ?thesis by (simp flip: pow2_add)
qed

lemma round_mag_ge_pow2:
  assumes "pow2 k \<le> q" "grid_exp q \<le> k"
  shows "pow2 k \<le> round_mag q"
proof -
  have q: "0 < q" using assms(1) pow2_pos [of k] by linarith
  have "2 ^ nat (k - grid_exp q) \<le> rne (q / pow2 (grid_exp q))"
  proof (rule rne_ge)
    have "of_int (2 ^ nat (k - grid_exp q)) = pow2 k / pow2 (grid_exp q)"
      using assms(2) pow2_int [of "k - grid_exp q"] by (simp add: power_int_diff)
    also have "\<dots> \<le> q / pow2 (grid_exp q)"
      using assms(1) by (simp add: divide_right_mono less_imp_le)
    finally show "of_int (2 ^ nat (k - grid_exp q)) \<le> q / pow2 (grid_exp q)" .
  qed
  then have "pow2 (k - grid_exp q) \<le> of_int (rne (q / pow2 (grid_exp q)))"
    using assms(2) pow2_int [of "k - grid_exp q"] by (metis diff_ge_0_iff_ge of_int_le_iff)
  then have "pow2 (k - grid_exp q) * pow2 (grid_exp q) \<le> round_mag q"
    using q by (simp add: round_mag_def mult_right_mono)
  then show ?thesis by (simp flip: pow2_add)
qed

theorem round_mag_mono: "p \<le> q \<Longrightarrow> round_mag p \<le> round_mag q"
proof -
  assume pq: "p \<le> q"
  show ?thesis
  proof (cases "p \<le> 0")
    case True
    then show ?thesis by (simp add: round_mag_def [of p])
  next
    case False
    with pq have pos: "0 < p" "0 < q" by auto
    then have g: "grid_exp p \<le> grid_exp q"
      using ilog2_mono [of p q] pq by (auto simp: grid_exp_def)
    show ?thesis
    proof (cases "grid_exp p = grid_exp q")
      case True
      have "rne (p / pow2 (grid_exp q)) \<le> rne (q / pow2 (grid_exp q))"
        using pq by (intro rne_mono divide_right_mono) (auto simp: less_imp_le)
      with True pos show ?thesis by (simp add: round_mag_def mult_right_mono)
    next
      case False
      with g have lt: "grid_exp p < grid_exp q" by simp
      then have "ilog2 p < ilog2 q" "grid_exp q = ilog2 q - 52"
        by (auto simp: grid_exp_def)
      moreover from this have "pow2 (ilog2 p + 1) \<le> pow2 (ilog2 q)" by simp
      ultimately have "round_mag p \<le> pow2 (ilog2 q)"
        using ilog2_bounds(2) [OF pos(1)] lt pos by (intro round_mag_le_pow2) linarith+
      also have "\<dots> \<le> round_mag q"
        using \<open>grid_exp q = ilog2 q - 52\<close> ilog2_bounds(1) [OF pos(2)]
        by (intro round_mag_ge_pow2) auto
      finally show ?thesis .
    qed
  qed
qed

lemma rne_grid_le: "0 < q \<Longrightarrow> rne (q / pow2 (grid_exp q)) \<le> 2 ^ 53"
proof (rule rne_le)
  assume q: "0 < q"
  have "ilog2 q + 1 \<le> 53 + grid_exp q" by (auto simp: grid_exp_def)
  then have "q < pow2 (53 + grid_exp q)"
    using ilog2_bounds(2) [OF q] by (meson order_less_le_trans pow2_le_iff)
  then show "q / pow2 (grid_exp q) \<le> of_int (2 ^ 53)"
    by (simp add: pow2_add divide_le_eq)
qed

theorem round_mag_idem [simp]: "round_mag (round_mag q) = round_mag q"
proof (cases "q \<le> 0")
  case False
  then have "0 \<le> rne (q / pow2 (grid_exp q))"
    by (intro rne_ge) (simp add: less_imp_le)
  with False rne_grid_le [of q] show ?thesis
    by (simp add: round_mag_def [of q])
      (rule round_mag_grid, auto simp: grid_exp_def)
qed (simp add: round_mag_def)

lemma round_mag_err: "0 < q \<Longrightarrow> \<bar>round_mag q - q\<bar> \<le> pow2 (grid_exp q) / 2"
proof -
  assume q: "0 < q"
  define g where "g = pow2 (grid_exp q)"
  have g: "0 < g" by (simp add: g_def)
  have "round_mag q - q = (of_int (rne (q / g)) - q / g) * g"
    using q g by (simp add: round_mag_def field_simps flip: g_def)
  then have "\<bar>round_mag q - q\<bar> = \<bar>of_int (rne (q / g)) - q / g\<bar> * g"
    using g by (simp add: abs_mult)
  also have "\<dots> \<le> 1 / 2 * g"
    using g rne_err [of "q / g"] by (intro mult_right_mono) auto
  finally show ?thesis by (simp add: g_def)
qed


section \<open>Values\<close>

text \<open>The largest finite magnitude is below 2 ^ 1024; \<open>Fin s m\<close> carries sign and magnitude.\<close>

definition f64_limit :: rat where
  "f64_limit = 2 ^ 1024"

lemma f64_limit_code [code]:
  "f64_limit = 179769313486231590772930519078902473361797697894230657273430081157732675805500963132708477322407536021120113879871393357658789768814416622492847430639474124377767893424865485276302219601246094119453082952085005768838150682342462881473913110540827237163350510684586298239947245938479716304835356329624224137216"
  by (simp add: f64_limit_def)

fun wf_f64 :: "f64 \<Rightarrow> bool" where
  "wf_f64 (Fin s m) = (0 \<le> m \<and> m < f64_limit \<and> round_mag m = m)"
| "wf_f64 _ = True"

fun fval :: "f64 \<Rightarrow> rat" where
  "fval (Fin s m) = (if s then - m else m)"
| "fval _ = 0"

fun is_nan :: "f64 \<Rightarrow> bool" where
  "is_nan x = (x = NaN)"

fun is_finite :: "f64 \<Rightarrow> bool" where
  "is_finite (Fin s m) = True"
| "is_finite _ = False"

text \<open>
  Rounding an exact result; \<open>zs\<close> is the sign of an exact zero. A non-zero result that
  underflows keeps its own sign.
\<close>

definition fround :: "bool \<Rightarrow> rat \<Rightarrow> f64" where
  "fround zs q =
     (if q = 0 then Fin zs 0
      else let m = round_mag \<bar>q\<bar> in if f64_limit \<le> m then Inf (q < 0) else Fin (q < 0) m)"

abbreviation fzero :: f64 where "fzero \<equiv> Fin False 0"
abbreviation fone :: f64 where "fone \<equiv> Fin False 1"

text \<open>A decimal literal of the source is the correctly rounded rational.\<close>

definition flit :: "rat \<Rightarrow> f64" where
  "flit q = fround False q"

text \<open>\<open>n as f64\<close> for an unsigned integer.\<close>

definition f_of_nat :: "nat \<Rightarrow> f64" where
  "f_of_nat n = fround False (of_nat n)"

fun fneg :: "f64 \<Rightarrow> f64" where
  "fneg NaN = NaN"
| "fneg (Inf s) = Inf (\<not> s)"
| "fneg (Fin s m) = Fin (\<not> s) m"

fun f_abs :: "f64 \<Rightarrow> f64" where
  "f_abs NaN = NaN"
| "f_abs (Inf s) = Inf False"
| "f_abs (Fin s m) = Fin False m"

fun fadd :: "f64 \<Rightarrow> f64 \<Rightarrow> f64" where
  "fadd (Fin s m) (Fin t n) = fround (s \<and> t) (fval (Fin s m) + fval (Fin t n))"
| "fadd (Inf s) (Fin t n) = Inf s"
| "fadd (Fin s m) (Inf t) = Inf t"
| "fadd (Inf s) (Inf t) = (if s = t then Inf s else NaN)"
| "fadd NaN y = NaN"
| "fadd x NaN = NaN"

definition fsub :: "f64 \<Rightarrow> f64 \<Rightarrow> f64" where
  "fsub x y = fadd x (fneg y)"

fun fmul :: "f64 \<Rightarrow> f64 \<Rightarrow> f64" where
  "fmul (Fin s m) (Fin t n) = fround (s \<noteq> t) (fval (Fin s m) * fval (Fin t n))"
| "fmul (Inf s) (Fin t n) = (if n = 0 then NaN else Inf (s \<noteq> t))"
| "fmul (Fin s m) (Inf t) = (if m = 0 then NaN else Inf (s \<noteq> t))"
| "fmul (Inf s) (Inf t) = Inf (s \<noteq> t)"
| "fmul NaN y = NaN"
| "fmul x NaN = NaN"

fun fdiv :: "f64 \<Rightarrow> f64 \<Rightarrow> f64" where
  "fdiv (Fin s m) (Fin t n) =
     (if n = 0 then if m = 0 then NaN else Inf (s \<noteq> t)
      else fround (s \<noteq> t) (fval (Fin s m) / fval (Fin t n)))"
| "fdiv (Inf s) (Fin t n) = Inf (s \<noteq> t)"
| "fdiv (Fin s m) (Inf t) = Fin (s \<noteq> t) 0"
| "fdiv (Inf s) (Inf t) = NaN"
| "fdiv NaN y = NaN"
| "fdiv x NaN = NaN"

text \<open>Comparisons: every comparison with NaN is false.\<close>

fun flt :: "f64 \<Rightarrow> f64 \<Rightarrow> bool" where
  "flt (Fin s m) (Fin t n) = (fval (Fin s m) < fval (Fin t n))"
| "flt (Inf s) (Fin t n) = s"
| "flt (Fin s m) (Inf t) = (\<not> t)"
| "flt (Inf s) (Inf t) = (s \<and> \<not> t)"
| "flt NaN y = False"
| "flt x NaN = False"

fun feq :: "f64 \<Rightarrow> f64 \<Rightarrow> bool" where
  "feq (Fin s m) (Fin t n) = (fval (Fin s m) = fval (Fin t n))"
| "feq (Inf s) (Inf t) = (s = t)"
| "feq x y = False"

definition fle :: "f64 \<Rightarrow> f64 \<Rightarrow> bool" where
  "fle x y = (flt x y \<or> feq x y)"

text \<open>\<open>f64::clamp\<close> (whose bounds are never NaN in the source); a NaN input stays NaN.\<close>

definition fclamp :: "f64 \<Rightarrow> f64 \<Rightarrow> f64 \<Rightarrow> f64" where
  "fclamp lo hi x = (if flt x lo then lo else if flt hi x then hi else x)"

text \<open>\<open>Iterator::sum\<close> on \<open>f64\<close> folds from \<open>-0.0\<close>; \<open>powi(2)\<close> is the square.\<close>

definition fsum :: "f64 list \<Rightarrow> f64" where
  "fsum xs = foldl fadd (Fin True 0) xs"

definition fsquare :: "f64 \<Rightarrow> f64" where
  "fsquare x = fmul x x"

text \<open>
  The square root: the integer square root of the magnitude scaled by an even power of two
  so that it has 54 bits; the last bit and exactness decide the rounding.
\<close>

function isqrt :: "nat \<Rightarrow> nat" where
  "isqrt n = (if n = 0 then 0
     else let r = 2 * isqrt (n div 4) in if (r + 1) * (r + 1) \<le> n then r + 1 else r)"
  by auto
termination by (relation "measure id") auto

declare isqrt.simps [simp del]

definition sqrt_mag :: "rat \<Rightarrow> rat" where
  "sqrt_mag m =
     (let e = ilog2 m div 2 - 53;
          s = m / 2 powi (2 * e);
          n = isqrt (nat \<lfloor>s\<rfloor>);
          k = n div 2
      in of_nat (if even n then k
                 else if of_nat (n * n) = s \<and> even k then k else k + 1) * 2 powi (e + 1))"

fun fsqrt :: "f64 \<Rightarrow> f64" where
  "fsqrt NaN = NaN"
| "fsqrt (Inf s) = (if s then NaN else Inf False)"
| "fsqrt (Fin s m) = (if m = 0 then Fin s 0 else if s then NaN else Fin False (sqrt_mag m))"

section \<open>Bounds that survive rounding\<close>

text \<open>\<open>fin_in lo hi x\<close>: a finite value between two rationals.\<close>

definition fin_in :: "rat \<Rightarrow> rat \<Rightarrow> f64 \<Rightarrow> bool" where
  "fin_in lo hi x = (is_finite x \<and> lo \<le> fval x \<and> fval x \<le> hi)"

abbreviation in_unit :: "f64 \<Rightarrow> bool" where
  "in_unit \<equiv> fin_in 0 1"

definition exact :: "rat \<Rightarrow> bool" where
  "exact q = (round_mag \<bar>q\<bar> = \<bar>q\<bar> \<and> \<bar>q\<bar> < f64_limit)"

lemma f64_limit_pos [simp]: "0 < f64_limit" "0 \<le> f64_limit"
  by (simp_all add: f64_limit_def)

lemma fround_fin_in:
  assumes "exact lo" "exact hi" "lo \<le> q" "q \<le> hi"
  shows "fin_in lo hi (fround zs q)"
proof (cases "q = 0")
  case True
  with assms show ?thesis by (simp add: fin_in_def fround_def)
next
  case False
  show ?thesis
  proof (cases "q < 0")
    case True
    then have "\<bar>q\<bar> \<le> \<bar>lo\<bar>" using assms(3) by simp
    then have m: "round_mag \<bar>q\<bar> \<le> \<bar>lo\<bar>" using assms(1) by (metis exact_def round_mag_mono)
    moreover have "\<bar>lo\<bar> < f64_limit" using assms(1) by (simp add: exact_def)
    moreover have "- round_mag (- q) \<le> hi"
    proof (cases "hi < 0")
      case True
      then have "\<bar>hi\<bar> \<le> - q" using assms(4) \<open>q < 0\<close> by simp
      then have "\<bar>hi\<bar> \<le> round_mag (- q)"
        using round_mag_mono assms(2) by (metis exact_def)
      with True show ?thesis by simp
    qed (use round_mag_nonneg [of "- q"] in linarith)
    ultimately show ?thesis using True False assms(3)
      by (auto simp: fin_in_def fround_def Let_def)
  next
    case nonneg: False
    with False have q: "0 < q" by simp
    have m: "round_mag q \<le> hi"
      using assms(2,4) q round_mag_mono [of q hi] by (simp add: exact_def)
    have "lo \<le> round_mag q"
    proof (cases "0 \<le> lo")
      case True
      then show ?thesis using assms(1,3) round_mag_mono [of lo q] by (simp add: exact_def)
    qed (use round_mag_nonneg [of q] in linarith)
    with m q assms show ?thesis
      by (auto simp: fin_in_def fround_def Let_def exact_def)
  qed
qed

lemma exact_of_nat: "n \<le> 2 ^ 53 \<Longrightarrow> exact (of_nat n)"
proof -
  assume n: "n \<le> 2 ^ 53"
  then have "of_nat n \<le> (2::rat) ^ 53" by (metis of_nat_le_iff of_nat_numeral of_nat_power)
  also have "\<dots> < 2 ^ 1024" by (rule power_strict_increasing) auto
  finally show ?thesis using n by (simp add: exact_def round_mag_of_nat f64_limit_def)
qed

lemma exact_0 [simp]: "exact 0" and exact_1 [simp]: "exact 1"
  using exact_of_nat [of 0] exact_of_nat [of 1] by simp_all

lemma exact_minus [simp]: "exact (- q) = exact q"
  by (simp add: exact_def)

lemma fround_exact: "exact q \<Longrightarrow> fround zs q = Fin (if q = 0 then zs else q < 0) \<bar>q\<bar>"
  by (auto simp: fround_def exact_def Let_def)

lemma f_of_nat_exact: "n \<le> 2 ^ 53 \<Longrightarrow> f_of_nat n = Fin False (of_nat n)"
  using exact_of_nat [of n] by (simp add: f_of_nat_def fround_exact)

lemma wf_fround [simp]: "wf_f64 (fround zs q)"
  by (simp add: fround_def Let_def)

lemma fin_inD: "fin_in lo hi x \<Longrightarrow> lo \<le> fval x \<and> fval x \<le> hi"
  by (simp add: fin_in_def)

lemma fin_in_finite: "fin_in lo hi x \<Longrightarrow> is_finite x"
  by (simp add: fin_in_def)

lemma fin_in_cases:
  assumes "fin_in lo hi x"
  obtains s m where "x = Fin s m" "lo \<le> fval (Fin s m)" "fval (Fin s m) \<le> hi"
  using assms by (cases x) (auto simp: fin_in_def)

lemma fmul_in_unit: "in_unit x \<Longrightarrow> in_unit y \<Longrightarrow> in_unit (fmul x y)"
  by (elim fin_in_cases, simp only: fmul.simps)
    (rule fround_fin_in, auto simp del: fval.simps intro: mult_le_one)

lemma fclamp_fin_in:
  assumes "is_finite lo" "is_finite hi" "fval lo \<le> fval hi" "x \<noteq> NaN"
  shows "fin_in (fval lo) (fval hi) (fclamp lo hi x)"
  using assms
  by (cases x; cases lo; cases hi) (simp_all add: fclamp_def fin_in_def del: fval.simps)

lemma fle_fin: "fle (Fin s m) (Fin t n) \<longleftrightarrow> fval (Fin s m) \<le> fval (Fin t n)"
  by (auto simp: fle_def simp del: fval.simps)

lemma flt_fin: "is_finite x \<Longrightarrow> is_finite y \<Longrightarrow> flt x y \<longleftrightarrow> fval x < fval y"
  by (cases x; cases y) auto

lemma flt_irrefl [simp]: "\<not> flt x x"
  by (cases x) auto

lemma flt_nan [simp]: "\<not> flt x NaN" "\<not> flt NaN x" "\<not> feq x NaN" "\<not> feq NaN x"
  by (cases x; simp)+

lemma fclamp_nan [simp]: "fclamp lo hi NaN = NaN"
  by (simp add: fclamp_def)

lemma fle_nan [simp]: "\<not> fle x NaN" "\<not> fle NaN x"
  by (simp_all add: fle_def)

lemma isqrt_bounds: "isqrt n * isqrt n \<le> n \<and> n < (isqrt n + 1) * (isqrt n + 1)"
proof (induction n rule: isqrt.induct)
  case (1 n)
  show ?case
  proof (cases "n = 0")
    case True
    then show ?thesis by (simp add: isqrt.simps)
  next
    case False
    define i where "i = isqrt (n div 4)"
    from "1.IH" False have "i * i \<le> n div 4" "n div 4 < (i + 1) * (i + 1)"
      by (auto simp: i_def)
    then have "4 * (i * i) \<le> n" "n < 4 * ((i + 1) * (i + 1))" by linarith+
    moreover have "isqrt n = (if (2 * i + 1) * (2 * i + 1) \<le> n then 2 * i + 1 else 2 * i)"
      using False by (subst isqrt.simps) (simp add: i_def Let_def)
    ultimately show ?thesis by (auto simp: algebra_simps)
  qed
qed


section \<open>Monotonicity\<close>

lemma fle_simps [simp]:
  "fle (Fin s m) (Fin t n) \<longleftrightarrow> fval (Fin s m) \<le> fval (Fin t n)"
  "fle (Inf a) (Fin t n) \<longleftrightarrow> a"
  "fle (Fin s m) (Inf b) \<longleftrightarrow> \<not> b"
  "fle (Inf a) (Inf b) \<longleftrightarrow> a \<or> \<not> b"
  by (auto simp: fle_def simp del: fval.simps)

lemma fle_refl: "x \<noteq> NaN \<Longrightarrow> fle x x"
  by (cases x) auto

lemma fle_trans: "fle x y \<Longrightarrow> fle y z \<Longrightarrow> fle x z"
  by (cases x; cases y; cases z) (auto simp del: fval.simps)

lemma fle_Inf [simp]: "fle x (Inf False) \<longleftrightarrow> x \<noteq> NaN" "fle (Inf True) x \<longleftrightarrow> x \<noteq> NaN"
  by (cases x; simp)+

lemma fle_iff_not_flt: "x \<noteq> NaN \<Longrightarrow> y \<noteq> NaN \<Longrightarrow> fle x y \<longleftrightarrow> \<not> flt y x"
  by (cases x; cases y) (auto simp del: fval.simps)

lemma fround_not_nan [simp]: "fround z q \<noteq> NaN"
  by (simp add: fround_def Let_def)

theorem fround_mono: "p \<le> q \<Longrightarrow> fle (fround y p) (fround z q)"
proof -
  assume pq: "p \<le> q"
  have pos: "round_mag p \<le> round_mag q" using pq by (rule round_mag_mono)
  have neg: "round_mag (- q) \<le> round_mag (- p)" using pq by (intro round_mag_mono) simp
  note nn = round_mag_nonneg [of p] round_mag_nonneg [of q] round_mag_nonneg [of "- p"]
    round_mag_nonneg [of "- q"]
  have mid: "- round_mag (- p) \<le> round_mag q" using nn by linarith
  consider "p < 0" "q < 0" | "p < 0" "q = 0" | "p < 0" "0 < q" | "p = 0" "q = 0"
    | "p = 0" "0 < q" | "0 < p" "0 < q" using pq by linarith
  then show ?thesis
    by cases (use pos neg nn mid in \<open>auto simp: fround_def Let_def\<close>)
qed

lemma fsub_mono: "is_finite z \<Longrightarrow> fle x y \<Longrightarrow> fle (fsub x z) (fsub y z)"
  by (cases x; cases y; cases z) (auto simp: fsub_def intro!: fround_mono)

lemma fdiv_mono:
  assumes "is_finite z" "0 < fval z" "wf_f64 z" "fle x y"
  shows "fle (fdiv x z) (fdiv y z)"
proof -
  obtain n where z: "z = Fin False n" "0 < n"
    using assms(1-3) by (cases z) (auto split: if_splits)
  with assms(4) show ?thesis
    by (cases x; cases y) (auto intro!: fround_mono simp: divide_le_cancel minus_divide_left
        simp del: divide_minus_left)
qed

lemma fclamp_mono:
  assumes "is_finite lo" "is_finite hi" "fval lo \<le> fval hi" "fle x y"
  shows "fle (fclamp lo hi x) (fclamp lo hi y)"
proof -
  obtain a b c d where "lo = Fin a b" "hi = Fin c d" using assms(1,2) by (cases lo; cases hi) auto
  with assms(3,4) show ?thesis
    by (cases x; cases y) (auto simp: fclamp_def simp del: fval.simps)
qed

section \<open>Naturals and quotients\<close>

text \<open>Every 64-bit count becomes a finite value, at least one when the count is.\<close>

lemma f_of_nat_fin:
  assumes "n \<le> 2 ^ 64"
  shows "\<exists>q. f_of_nat n = Fin False q \<and> exact q \<and> 0 \<le> q \<and> (n \<noteq> 0 \<longrightarrow> 1 \<le> q)"
proof -
  have "(of_nat n :: rat) \<le> of_nat (2 ^ 64)" using assms by (simp only: of_nat_le_iff)
  then have "round_mag (of_nat n) \<le> round_mag (2 ^ 64)" by (intro round_mag_mono) simp
  moreover have "round_mag (2 ^ 64) < f64_limit" by code_simp
  ultimately have lim: "round_mag (of_nat n) < f64_limit" by simp
  have "1 \<le> round_mag (of_nat n)" if "n \<noteq> 0"
  proof -
    have "(1 :: rat) \<le> of_nat n" using that by simp
    then have "round_mag 1 \<le> round_mag (of_nat n)" by (rule round_mag_mono)
    then show ?thesis by simp
  qed
  moreover have "f_of_nat n = Fin False (round_mag (of_nat n))" "exact (round_mag (of_nat n))"
    using lim by (auto simp: f_of_nat_def fround_def exact_def Let_def)
  ultimately show ?thesis by simp
qed

lemma f_of_nat_mono: "m \<le> n \<Longrightarrow> fle (f_of_nat m) (f_of_nat n)"
  by (simp add: f_of_nat_def fround_mono)

text \<open>A share of a count is in the unit interval.\<close>

lemma share_in_unit:
  assumes "a \<le> b" "b \<noteq> 0" "b \<le> 2 ^ 64"
  shows "in_unit (fdiv (f_of_nat a) (f_of_nat b))"
proof -
  obtain q where q: "f_of_nat b = Fin False q" "1 \<le> q" using f_of_nat_fin [OF assms(3)] assms(2) by blast
  obtain p where p: "f_of_nat a = Fin False p" "0 \<le> p" using f_of_nat_fin [of a] assms(1,3) by fastforce
  have "p \<le> q" using f_of_nat_mono [OF assms(1)] p q by simp
  with p q have "0 \<le> p / q" "p / q \<le> 1" by simp_all
  then have "in_unit (fround False (p / q))" by (intro fround_fin_in) simp_all
  with p q show ?thesis by simp
qed

lemma fadd_mono: "is_finite z \<Longrightarrow> fle x y \<Longrightarrow> fle (fadd z x) (fadd z y)"
  by (cases x; cases y; cases z) (auto intro!: fround_mono)

text \<open>A non-positive finite factor reverses the order.\<close>

lemma fmul_antimono:
  assumes "is_finite z" "fval z \<le> 0" "is_finite x" "is_finite y" "fle x y"
  shows "fle (fmul z y) (fmul z x)"
proof -
  obtain s m t n u k where "z = Fin s m" "x = Fin t n" "y = Fin u k"
    using assms(1,3,4) by (cases z; cases x; cases y) auto
  with assms(2,5) show ?thesis
    by (auto intro!: fround_mono mult_left_mono_neg simp del: fval.simps)
qed

end
