(* ===== verification/KeyMaps.thy ===== *)
theory KeyMaps
  imports LensPrelude "HOL-Library.AList" "HOL-Library.Multiset"
begin

text \<open>
  The two map types of the Rust code. A \<open>HashMap\<close> is an association list with distinct
  keys whose order carries no meaning; a \<open>BTreeMap\<close> (and a \<open>serde_json::Map\<close>) is an
  association list strictly sorted by key. The locale \<open>key_map\<close> is the contract the
  components use, \<open>canonical_map\<close> adds that equal contents are equal maps; both are
  interpreted on the two representations below.
\<close>

lemma map_of_rev_distinct: "distinct (map fst kvs) \<Longrightarrow> map_of (rev kvs) = map_of kvs"
  by (subst map_of_inject_set) (simp_all add: rev_map [symmetric])

lemma map_of_mset:
  assumes "distinct (map fst xs)" "mset xs = mset ys"
  shows "distinct (map fst ys)" "map_of xs = map_of ys"
proof -
  have "mset (map fst xs) = mset (map fst ys)" using assms(2) by simp
  with assms(1) show "distinct (map fst ys)" using mset_eq_imp_distinct_iff by blast
  with assms show "map_of xs = map_of ys"
    by (subst map_of_inject_set) (auto dest: mset_eq_setD)
qed

lemma map_of_rebuild: "distinct (map fst m) \<Longrightarrow> map (\<lambda>k. (k, the (map_of m k))) (map fst m) = m"
  by (auto intro!: map_idI simp: comp_def map_of_is_SomeI)

section \<open>The contract\<close>

locale key_map =
  fixes inv :: "'m \<Rightarrow> bool"
    and empty :: 'm
    and get :: "'m \<Rightarrow> 'k \<Rightarrow> 'v option"
    and put :: "'k \<Rightarrow> 'v \<Rightarrow> 'm \<Rightarrow> 'm"
    and del :: "'k \<Rightarrow> 'm \<Rightarrow> 'm"
  assumes inv_empty: "inv empty"
    and get_empty: "get empty = Map.empty"
    and inv_put: "inv m \<Longrightarrow> inv (put k v m)"
    and get_put: "inv m \<Longrightarrow> get (put k v m) = (get m)(k \<mapsto> v)"
    and inv_del: "inv m \<Longrightarrow> inv (del k m)"
    and get_del: "inv m \<Longrightarrow> get (del k m) = (get m)(k := None)"
begin

abbreviation put_all :: "('k \<times> 'v) list \<Rightarrow> 'm \<Rightarrow> 'm" where
  "put_all kvs m \<equiv> foldl (\<lambda>m (k, v). put k v m) m kvs"

lemma inv_put_all: "inv m \<Longrightarrow> inv (put_all kvs m)"
  by (induction kvs arbitrary: m) (auto simp: inv_put)

lemma get_put_all: "inv m \<Longrightarrow> get (put_all kvs m) = get m ++ map_of (rev kvs)"
  by (induction kvs arbitrary: m) (auto simp: inv_put get_put)

lemma inv_build: "inv (put_all kvs empty)"
  by (simp add: inv_put_all inv_empty)

lemma get_build: "get (put_all kvs empty) = map_of (rev kvs)"
  by (simp add: get_put_all inv_empty get_empty)

lemma get_build_distinct: "distinct (map fst kvs) \<Longrightarrow> get (put_all kvs empty) = map_of kvs"
  by (simp add: get_build map_of_rev_distinct)

end

locale canonical_map = key_map +
  assumes ext: "inv m \<Longrightarrow> inv n \<Longrightarrow> get m = get n \<Longrightarrow> m = n"
begin

text \<open>The order in which distinct keys are written does not show in the result.\<close>

lemma build_perm:
  assumes "distinct (map fst xs)" "mset xs = mset ys"
  shows "put_all xs empty = put_all ys empty"
proof (rule ext)
  show "get (put_all xs empty) = get (put_all ys empty)"
    using assms map_of_mset [OF assms] by (simp add: get_build_distinct)
qed (rule inv_build)+

lemma put_put_same: "inv m \<Longrightarrow> put k v (put k w m) = put k v m"
  by (rule ext) (simp_all add: inv_put get_put)

lemma put_get_same: "inv m \<Longrightarrow> get m k = Some v \<Longrightarrow> put k v m = m"
  by (rule ext) (auto simp: inv_put get_put)

lemma del_absent: "inv m \<Longrightarrow> get m k = None \<Longrightarrow> del k m = m"
  by (rule ext) (auto simp: inv_del get_del)

end

section \<open>Hash maps\<close>

type_synonym ('k, 'v) hmap = "('k \<times> 'v) list"

definition hm_inv :: "('k, 'v) hmap \<Rightarrow> bool" where
  "hm_inv m = distinct (map fst m)"

definition hm_get :: "('k, 'v) hmap \<Rightarrow> 'k \<Rightarrow> 'v option" where
  "hm_get m = map_of m"

definition hm_put :: "'k \<Rightarrow> 'v \<Rightarrow> ('k, 'v) hmap \<Rightarrow> ('k, 'v) hmap" where
  "hm_put k v m = AList.update k v m"

definition hm_del :: "'k \<Rightarrow> ('k, 'v) hmap \<Rightarrow> ('k, 'v) hmap" where
  "hm_del k m = filter (\<lambda>(k', _). k' \<noteq> k) m"

text \<open>\<open>HashMap::retain\<close> with a predicate on the key.\<close>

definition hm_retain :: "('k \<Rightarrow> bool) \<Rightarrow> ('k, 'v) hmap \<Rightarrow> ('k, 'v) hmap" where
  "hm_retain p m = filter (\<lambda>(k, _). p k) m"

lemma map_of_filter_key: "map_of (filter (\<lambda>(k, _). p k) m) k = (if p k then map_of m k else None)"
  by (induction m) auto

lemma hm_inv_filter: "hm_inv m \<Longrightarrow> hm_inv (filter p m)"
  by (simp add: hm_inv_def distinct_map_filter)

lemma hm_inv_retain [wf_intros]: "hm_inv m \<Longrightarrow> hm_inv (hm_retain p m)"
  by (simp add: hm_retain_def hm_inv_filter)

lemma hm_get_retain: "hm_get (hm_retain p m) k = (if p k then hm_get m k else None)"
  by (simp add: hm_retain_def hm_get_def map_of_filter_key)

lemma hm_del_retain: "hm_del k = hm_retain (\<lambda>k'. k' \<noteq> k)"
  by (simp add: hm_del_def hm_retain_def fun_eq_iff)

interpretation hm: key_map hm_inv "[]" hm_get hm_put hm_del
proof
  fix m :: "('k, 'v) hmap" and k :: 'k and v :: 'v
  show "hm_inv []" by (simp add: hm_inv_def)
  show "hm_get [] = Map.empty" by (simp add: hm_get_def)
  assume m: "hm_inv m"
  show "hm_inv (hm_put k v m)"
    using m by (simp add: hm_inv_def hm_put_def distinct_update)
  show "hm_get (hm_put k v m) = (hm_get m)(k \<mapsto> v)"
    by (simp add: hm_get_def hm_put_def update_conv')
  show "hm_inv (hm_del k m)"
    using m by (simp add: hm_del_retain hm_inv_retain)
  show "hm_get (hm_del k m) = (hm_get m)(k := None)"
    by (auto simp: hm_del_retain hm_get_retain fun_eq_iff)
qed

lemma hm_get_Some_iff: "hm_inv m \<Longrightarrow> hm_get m k = Some v \<longleftrightarrow> (k, v) \<in> set m"
  by (simp add: hm_get_def hm_inv_def)

lemma hm_get_None_iff: "hm_get m k = None \<longleftrightarrow> k \<notin> fst ` set m"
  by (simp add: hm_get_def map_of_eq_None_iff)

lemma length_hm_put: "length (hm_put k v m) = (if hm_get m k = None then Suc (length m) else length m)"
proof -
  have "length (AList.update k v m) = (if k \<in> fst ` set m then length m else Suc (length m))"
    by (induction m) auto
  then show ?thesis by (simp add: hm_put_def hm_get_None_iff)
qed

section \<open>Sorted maps\<close>

definition bt_inv :: "('k::linorder \<times> 'v) list \<Rightarrow> bool" where
  "bt_inv m = sorted_wrt (<) (map fst m)"

definition bt_get :: "('k::linorder \<times> 'v) list \<Rightarrow> 'k \<Rightarrow> 'v option" where
  "bt_get m = map_of m"

fun bt_put :: "'k::linorder \<Rightarrow> 'v \<Rightarrow> ('k \<times> 'v) list \<Rightarrow> ('k \<times> 'v) list" where
  "bt_put k v [] = [(k, v)]"
| "bt_put k v ((k', v') # m) =
     (if k < k' then (k, v) # (k', v') # m
      else if k = k' then (k, v) # m
      else (k', v') # bt_put k v m)"

definition bt_del :: "'k::linorder \<Rightarrow> ('k \<times> 'v) list \<Rightarrow> ('k \<times> 'v) list" where
  "bt_del k m = filter (\<lambda>(k', _). k' \<noteq> k) m"

text \<open>The map a sequence of insertions builds.\<close>

definition bt_of :: "('k::linorder \<times> 'v) list \<Rightarrow> ('k \<times> 'v) list" where
  "bt_of kvs = foldl (\<lambda>m (k, v). bt_put k v m) [] kvs"

lemma fst_set_bt_put: "fst ` set (bt_put k v m) = insert k (fst ` set m)"
  by (induction k v m rule: bt_put.induct) (simp_all add: insert_commute)

lemma set_bt_put: "set (bt_put k v m) \<subseteq> insert (k, v) (set m)"
  by (induction k v m rule: bt_put.induct) auto

lemma bt_inv_put: "bt_inv m \<Longrightarrow> bt_inv (bt_put k v m)"
proof (induction m)
  case (Cons p m)
  obtain k' v' where p: "p = (k', v')" by fastforce
  have "fst ` set (bt_put k v m) = insert k (fst ` set m)" by (rule fst_set_bt_put)
  with Cons show ?case unfolding bt_inv_def p by force
qed (simp add: bt_inv_def)

lemma bt_get_put: "bt_get (bt_put k v m) = (bt_get m)(k \<mapsto> v)"
  by (induction m) (auto simp: bt_get_def)

lemma bt_inv_filter: "bt_inv m \<Longrightarrow> bt_inv (filter p m)"
  by (induction m) (auto simp: bt_inv_def)

lemma bt_inv_distinct: "bt_inv m \<Longrightarrow> distinct (map fst m)"
  by (simp add: bt_inv_def strict_sorted_iff)

lemma bt_ext:
  assumes "bt_inv m" "bt_inv n" "bt_get m = bt_get n"
  shows "m = n"
proof -
  have "fst ` set m = fst ` set n"
    using assms(3) unfolding bt_get_def by (metis dom_map_of_conv_image_fst)
  then have "map fst m = map fst n"
    using assms(1,2) unfolding bt_inv_def
    by (metis image_set strict_sorted_equal)
  with assms show ?thesis
    by (metis bt_get_def bt_inv_distinct map_of_rebuild)
qed

interpretation bt: canonical_map bt_inv "[]" bt_get bt_put bt_del
proof
  fix m n :: "('k::linorder \<times> 'v) list" and k :: 'k and v :: 'v
  show "bt_inv ([] :: ('k \<times> 'v) list)" by (simp add: bt_inv_def)
  show "bt_get ([] :: ('k \<times> 'v) list) = Map.empty" by (simp add: bt_get_def)
  show "bt_get (bt_del k m) = (bt_get m)(k := None)"
    by (auto simp: bt_del_def bt_get_def map_of_filter_key fun_eq_iff)
qed (auto simp: bt_inv_put bt_get_put bt_del_def bt_inv_filter intro: bt_ext)

lemmas bt_facts = bt.inv_put bt.get_put bt.inv_del bt.get_del

lemma bt_inv_of: "bt_inv (bt_of kvs)"
  by (simp add: bt_of_def bt.inv_build)

lemma bt_get_of: "bt_get (bt_of kvs) = map_of (rev kvs)"
  by (simp add: bt_of_def bt.get_build)

lemma bt_get_of_distinct: "distinct (map fst kvs) \<Longrightarrow> bt_get (bt_of kvs) = map_of kvs"
  by (simp add: bt_of_def bt.get_build_distinct)

lemma bt_of_perm: "distinct (map fst xs) \<Longrightarrow> mset xs = mset ys \<Longrightarrow> bt_of xs = bt_of ys"
  unfolding bt_of_def by (rule bt.build_perm)

lemma set_bt_of: "set (bt_of kvs) \<subseteq> set kvs"
proof -
  have "set (foldl (\<lambda>m (k, v). bt_put k v m) m kvs) \<subseteq> set m \<union> set kvs" for m
    by (induction kvs arbitrary: m) (auto dest!: subsetD [OF set_bt_put] split: prod.splits)
  from this [of "[]"] show ?thesis by (simp add: bt_of_def)
qed

end
