(* ===== verification/Json.thy ===== *)
theory Json
  imports F64 KeyMaps
begin

text \<open>
  The \<open>serde_json\<close> value tree the crate builds, inspects and rewrites. Numbers keep
  \<open>serde_json\<close>'s three cases (unsigned, negative, float); objects are sorted maps; a tree
  that the library can hold is well formed (\<open>wf_json\<close>): every object strictly sorted,
  every float finite, every \<open>NegInt\<close> negative.
\<close>

datatype jnum = PosInt u64 | NegInt i64 | Flt f64

datatype json =
    JNull
  | JBool bool
  | JNum jnum
  | JStr string
  | JArr "json list"
  | JObj "(string \<times> json) list"

type_synonym fields = "(string \<times> json) list"

fun wf_jnum :: "jnum \<Rightarrow> bool" where
  "wf_jnum (PosInt n) = True"
| "wf_jnum (NegInt i) = (sint i < 0)"
| "wf_jnum (Flt x) = (is_finite x \<and> wf_f64 x)"

fun wf_json :: "json \<Rightarrow> bool" and wf_values :: "json list \<Rightarrow> bool" and wf_fields :: "fields \<Rightarrow> bool" where
  "wf_json (JNum n) = wf_jnum n"
| "wf_json (JArr xs) = wf_values xs"
| "wf_json (JObj fs) = (bt_inv fs \<and> wf_fields fs)"
| "wf_json _ = True"
| "wf_values [] = True"
| "wf_values (x # xs) = (wf_json x \<and> wf_values xs)"
| "wf_fields [] = True"
| "wf_fields ((k, v) # fs) = (wf_json v \<and> wf_fields fs)"

lemma wf_values_iff: "wf_values xs \<longleftrightarrow> (\<forall>x \<in> set xs. wf_json x)"
  by (induction xs) auto

lemma wf_fields_iff: "wf_fields fs \<longleftrightarrow> (\<forall>(k, v) \<in> set fs. wf_json v)"
  by (induction fs) auto

section \<open>Building and reading\<close>

text \<open>\<open>json!({...})\<close> with distinct keys, \<open>Map::insert\<close>, \<open>Map::remove\<close> and \<open>Value::get\<close>.\<close>

definition jobject :: "fields \<Rightarrow> json" where
  "jobject kvs = JObj (bt_of kvs)"

fun jget :: "json \<Rightarrow> string \<Rightarrow> json option" where
  "jget (JObj fs) k = bt_get fs k"
| "jget _ k = None"

definition jopt :: "('a \<Rightarrow> json) \<Rightarrow> 'a option \<Rightarrow> json" where
  "jopt f x = (case x of None \<Rightarrow> JNull | Some a \<Rightarrow> f a)"

text \<open>Conversions of \<open>json!\<close>: \<open>u32\<close>, \<open>u64\<close>, \<open>i64\<close>, \<open>usize\<close>; a non-finite float becomes null.\<close>

definition j_of_u32 :: "u32 \<Rightarrow> json" where
  "j_of_u32 n = JNum (PosInt (ucast n))"

definition j_of_u64 :: "u64 \<Rightarrow> json" where
  "j_of_u64 n = JNum (PosInt n)"

definition j_of_i64 :: "i64 \<Rightarrow> json" where
  "j_of_i64 i = JNum (if 0 \<le> sint i then PosInt i else NegInt i)"

definition j_of_f64 :: "f64 \<Rightarrow> json" where
  "j_of_f64 x = (if is_finite x then JNum (Flt x) else JNull)"

fun as_str :: "json \<Rightarrow> string option" where
  "as_str (JStr s) = Some s"
| "as_str _ = None"

fun as_bool :: "json \<Rightarrow> bool option" where
  "as_bool (JBool b) = Some b"
| "as_bool _ = None"

fun as_u64 :: "json \<Rightarrow> u64 option" where
  "as_u64 (JNum (PosInt n)) = Some n"
| "as_u64 _ = None"

fun as_i64 :: "json \<Rightarrow> i64 option" where
  "as_i64 (JNum (PosInt n)) = (if unat n < 2 ^ 63 then Some n else None)"
| "as_i64 (JNum (NegInt i)) = Some i"
| "as_i64 _ = None"

fun as_f64 :: "json \<Rightarrow> f64 option" where
  "as_f64 (JNum (PosInt n)) = Some (f_of_nat (unat n))"
| "as_f64 (JNum (NegInt i)) = Some (fround False (of_int (sint i)))"
| "as_f64 (JNum (Flt x)) = Some x"
| "as_f64 _ = None"

lemma jget_jobject: "distinct (map fst kvs) \<Longrightarrow> jget (jobject kvs) k = map_of kvs k"
  by (simp add: jobject_def bt_get_of_distinct)

text \<open>The insertion order of distinct keys is invisible in the object.\<close>

lemma jobject_perm: "distinct (map fst xs) \<Longrightarrow> mset xs = mset ys \<Longrightarrow> jobject xs = jobject ys"
  by (simp add: jobject_def bt_of_perm)

lemma wf_jobject [wf_intros]: "(\<And>k v. (k, v) \<in> set kvs \<Longrightarrow> wf_json v) \<Longrightarrow> wf_json (jobject kvs)"
  using set_bt_of [of kvs] by (fastforce simp: jobject_def wf_fields_iff bt_inv_of)

lemma wf_fields_put [wf_intros]:
  "wf_fields fs \<Longrightarrow> wf_json v \<Longrightarrow> wf_fields (bt_put k v fs)"
  using set_bt_put [of k v fs] by (fastforce simp: wf_fields_iff)

lemma wf_j_of [wf_intros, simp]:
  "wf_json (j_of_u32 n)" "wf_json (j_of_u64 m)" "wf_json (j_of_i64 i)"
  "wf_f64 x \<Longrightarrow> wf_json (j_of_f64 x)"
  by (simp_all add: j_of_u32_def j_of_u64_def j_of_i64_def j_of_f64_def)

lemma wf_jopt [wf_intros]: "(\<And>a. x = Some a \<Longrightarrow> wf_json (f a)) \<Longrightarrow> wf_json (jopt f x)"
  by (simp add: jopt_def split: option.split)

lemma wf_jget: "wf_json j \<Longrightarrow> jget j k = Some v \<Longrightarrow> wf_json v"
  by (cases j) (auto simp: bt_get_def wf_fields_iff dest: map_of_SomeD)

lemma as_u64_j_of [simp]: "as_u64 (j_of_u64 n) = Some n" "as_u64 (j_of_u32 m) = Some (ucast m)"
  by (simp_all add: j_of_u64_def j_of_u32_def)

lemma as_i64_j_of [simp]: "as_i64 (j_of_i64 i) = Some i"
proof -
  have "0 \<le> sint i \<Longrightarrow> unat i < 2 ^ 63"
  proof -
    assume "0 \<le> sint i"
    moreover have "sint i < 2 ^ 63" using sint_lt [of i] by simp
    ultimately have "uint i = sint i" by (simp add: uint_sint take_bit_int_eq_self)
    with \<open>sint i < 2 ^ 63\<close> show ?thesis by (simp add: unat_eq_nat_uint nat_less_iff)
  qed
  then show ?thesis by (simp add: j_of_i64_def)
qed

lemma as_f64_j_of_f64: "is_finite x \<Longrightarrow> as_f64 (j_of_f64 x) = Some x"
  by (simp add: j_of_f64_def)

end
