(* ===== verification/Features.thy ===== *)
theory Features
  imports Json
begin

text \<open>
  From an envelope to the scorer's inputs: the declared cohort axes
  (\<open>src/src/cohort/declared.rs\<close>) and the sixteen-element projection
  (\<open>extract/projection.rs\<close>). \<open>Features\<close> is a type of persist's extractor, which is a
  parameter of the pipeline; the record holds the two fields the crate reads.
\<close>

section \<open>Declared cohort axes\<close>

record declared_axes =
  agent_role :: "string option"
  agent_template :: "string option"
  deployment_domain :: "string option"
  deployment_type :: "string option"
  deployment_region :: "string option"
  deployment_trust_mode :: "string option"

definition profile_field :: "json \<Rightarrow> string \<Rightarrow> string option" where
  "profile_field body field =
     (case jget body ''deployment_profile'' of
        None \<Rightarrow> None
      | Some p \<Rightarrow> (case jget p field of None \<Rightarrow> None | Some v \<Rightarrow> as_str v))"

definition parse_from_envelope :: "json \<Rightarrow> declared_axes" where
  "parse_from_envelope body =
     \<lparr>agent_role = profile_field body ''agent_role'',
      agent_template = profile_field body ''agent_template'',
      deployment_domain = profile_field body ''deployment_domain'',
      deployment_type = profile_field body ''deployment_type'',
      deployment_region = profile_field body ''deployment_region'',
      deployment_trust_mode = profile_field body ''deployment_trust_mode''\<rparr>"

definition cohort_cell :: "declared_axes \<Rightarrow> json" where
  "cohort_cell axes = jobject
     [(''agent_role'', jopt JStr (agent_role axes)),
      (''agent_template'', jopt JStr (agent_template axes)),
      (''deployment_domain'', jopt JStr (deployment_domain axes)),
      (''deployment_type'', jopt JStr (deployment_type axes)),
      (''deployment_region'', jopt JStr (deployment_region axes)),
      (''deployment_trust_mode'', jopt JStr (deployment_trust_mode axes))]"

definition is_complete :: "declared_axes \<Rightarrow> bool" where
  "is_complete axes \<longleftrightarrow>
     agent_role axes \<noteq> None \<and> agent_template axes \<noteq> None \<and> deployment_domain axes \<noteq> None
     \<and> deployment_type axes \<noteq> None \<and> deployment_region axes \<noteq> None \<and> deployment_trust_mode axes \<noteq> None"

definition missing_axes :: "declared_axes \<Rightarrow> string list" where
  "missing_axes axes =
     (if agent_role axes = None then [''agent_role''] else [])
     @ (if agent_template axes = None then [''agent_template''] else [])
     @ (if deployment_domain axes = None then [''deployment_domain''] else [])
     @ (if deployment_type axes = None then [''deployment_type''] else [])
     @ (if deployment_region axes = None then [''deployment_region''] else [])
     @ (if deployment_trust_mode axes = None then [''deployment_trust_mode''] else [])"

lemma as_str_jopt: "as_str (jopt JStr x) = x"
  by (simp add: jopt_def split: option.split)

lemma jopt_str_null [simp]: "jopt JStr x = JNull \<longleftrightarrow> x = None"
  by (simp add: jopt_def split: option.split)

lemma jget_cohort_cell:
  "jget (cohort_cell a) k = map_of
     [(''agent_role'', jopt JStr (agent_role a)),
      (''agent_template'', jopt JStr (agent_template a)),
      (''deployment_domain'', jopt JStr (deployment_domain a)),
      (''deployment_type'', jopt JStr (deployment_type a)),
      (''deployment_region'', jopt JStr (deployment_region a)),
      (''deployment_trust_mode'', jopt JStr (deployment_trust_mode a))] k"
  unfolding cohort_cell_def by (rule jget_jobject) simp

section \<open>Projection\<close>

record features =
  declared :: declared_axes
  component_blobs :: "(string, json) hmap"

definition projection_version :: string where
  "projection_version = ''crc-v1''"

definition projection_dim :: nat where
  "projection_dim = 16"

fun descend :: "json option \<Rightarrow> string list \<Rightarrow> json option" where
  "descend None path = None"
| "descend (Some v) [] = Some v"
| "descend (Some v) (key # path) = descend (jget v key) path"

definition f64_at :: "json option \<Rightarrow> string list \<Rightarrow> f64" where
  "f64_at blob path =
     (case descend blob path of
        None \<Rightarrow> NaN
      | Some v \<Rightarrow> (case as_f64 v of None \<Rightarrow> NaN | Some x \<Rightarrow> x))"

definition bool_at :: "json option \<Rightarrow> string list \<Rightarrow> f64" where
  "bool_at blob path =
     (case descend blob path of
        None \<Rightarrow> NaN
      | Some v \<Rightarrow> (case as_bool v of None \<Rightarrow> NaN | Some b \<Rightarrow> if b then fone else fzero))"

definition project :: "features \<Rightarrow> f64 list" where
  "project features =
     (let dma = hm_get (component_blobs features) ''dma_results'';
          idma = hm_get (component_blobs features) ''idma_result'';
          conscience = hm_get (component_blobs features) ''conscience_result'' in
      [f64_at dma [''csdma'', ''plausibility_score''],
       f64_at dma [''dsdma'', ''domain_alignment''],
       f64_at conscience [''coherence_level''],
       f64_at conscience [''entropy_level''],
       f64_at idma [''k_eff''],
       f64_at idma [''correlation_risk''],
       f64_at conscience [''entropy_score''],
       f64_at conscience [''coherence_score''],
       f64_at conscience [''optimization_veto_entropy_ratio''],
       f64_at conscience [''epistemic_humility_certainty''],
       bool_at conscience [''conscience_passed''],
       bool_at conscience [''entropy_passed''],
       bool_at conscience [''coherence_passed''],
       bool_at conscience [''optimization_veto_passed''],
       bool_at conscience [''epistemic_humility_passed''],
       bool_at conscience [''action_was_overridden'']])"

lemma length_project: "length (project f) = projection_dim"
  by (simp add: project_def Let_def projection_dim_def)

lemma wf_descend: "(\<And>v. blob = Some v \<Longrightarrow> wf_json v) \<Longrightarrow> descend blob path = Some w \<Longrightarrow> wf_json w"
  by (induction blob path rule: descend.induct) (auto dest: wf_jget)

lemma fround_finite: "round_mag \<bar>q\<bar> < f64_limit \<Longrightarrow> is_finite (fround zs q)"
  by (simp add: fround_def Let_def)

lemma wf_as_f64:
  assumes "wf_json v" "as_f64 v = Some x"
  shows "is_finite x"
proof -
  have lim: "round_mag (2 ^ 64) < f64_limit" by code_simp
  have fin: "is_finite (fround False q)" if "\<bar>q\<bar> \<le> 2 ^ 64" for q
    using round_mag_mono [OF that] lim by (intro fround_finite) simp
  show ?thesis
  proof (cases v)
    case (JNum n)
    show ?thesis
    proof (cases n)
      case (PosInt p)
      have "unat p < 2 ^ 64" using unsigned_less [of p, where ?'a = nat] by simp
      then have "(of_nat (unat p) :: rat) \<le> of_nat (2 ^ 64)" by (simp only: of_nat_le_iff)
      moreover have "\<bar>of_nat (unat p) :: rat\<bar> = of_nat (unat p)" by (rule abs_of_nat)
      ultimately have "is_finite (f_of_nat (unat p))" unfolding f_of_nat_def by (intro fin) simp
      then show ?thesis using assms(2) by (simp add: JNum PosInt)
    next
      case (NegInt i)
      have "- (2 ^ 63) \<le> sint i" "sint i < 2 ^ 63" using sint_ge [of i] sint_lt [of i] by simp_all
      then have "\<bar>sint i\<bar> \<le> 2 ^ 64" by (simp add: abs_le_iff)
      then have "\<bar>of_int (sint i) :: rat\<bar> \<le> of_int (2 ^ 64)" unfolding of_int_abs [symmetric] by (simp only: of_int_le_iff)
      then have "is_finite (fround False (of_int (sint i)))" by (intro fin) simp
      then show ?thesis using assms(2) by (simp add: JNum NegInt)
    next
      case (Flt y)
      then show ?thesis using assms by (simp add: JNum)
    qed
  qed (use assms(2) in simp_all)
qed

lemma f64_at_range:
  assumes "\<And>v. blob = Some v \<Longrightarrow> wf_json v"
  shows "f64_at blob path = NaN \<or> is_finite (f64_at blob path)"
proof -
  have "wf_json w" if "descend blob path = Some w" for w
    using assms that by (rule wf_descend)
  then show ?thesis using wf_as_f64 by (auto simp: f64_at_def split: option.splits)
qed

lemma bool_at_range: "bool_at blob path \<in> {NaN, fzero, fone}"
  by (auto simp: bool_at_def split: option.splits)

section \<open>Properties\<close>

text \<open>
  A cohort cell is a faithful key of the declared axes. Reading back an envelope whose
  profile is the cell returns the axes, so different axes never share a cell; the cell has
  exactly the six keys, null exactly at the axes reported missing; and the axes are complete
  exactly when none is missing.
\<close>

lemma cohort_cell_faithful:
  "parse_from_envelope (jobject [(''deployment_profile'', cohort_cell axes)]) = axes
   \<and> (cohort_cell axes = cohort_cell axes2 \<longleftrightarrow> axes = axes2)
   \<and> (jget (cohort_cell axes) k = Some JNull \<longleftrightarrow> k \<in> set (missing_axes axes))
   \<and> (jget (cohort_cell axes) k \<noteq> None \<longleftrightarrow>
        k \<in> {''agent_role'', ''agent_template'', ''deployment_domain'', ''deployment_type'',
             ''deployment_region'', ''deployment_trust_mode''})
   \<and> (is_complete axes \<longleftrightarrow> missing_axes axes = [])"
proof -
  have parse: "parse_from_envelope (jobject [(''deployment_profile'', cohort_cell a)]) = a" for a
    by (simp add: parse_from_envelope_def profile_field_def jget_jobject jget_cohort_cell as_str_jopt)
  have inj: "cohort_cell axes = cohort_cell axes2 \<longleftrightarrow> axes = axes2"
    using parse by metis
  have null: "jget (cohort_cell axes) k = Some JNull \<longleftrightarrow> k \<in> set (missing_axes axes)"
    unfolding jget_cohort_cell missing_axes_def by auto
  have keys: "jget (cohort_cell axes) k \<noteq> None \<longleftrightarrow>
        k \<in> {''agent_role'', ''agent_template'', ''deployment_domain'', ''deployment_type'',
             ''deployment_region'', ''deployment_trust_mode''}"
    unfolding jget_cohort_cell by auto
  have "is_complete axes \<longleftrightarrow> missing_axes axes = []"
    by (auto simp: is_complete_def missing_axes_def)
  with parse inj null keys show ?thesis by blast
qed


definition sample_features :: features where
  "sample_features = \<lparr>declared = parse_from_envelope JNull,
     component_blobs = [(''conscience_result'',
       jobject [(''coherence_level'', JNum (Flt (Fin False (1/2)))), (''entropy_passed'', JBool True)])]\<rparr>"


end
