(* ===== verification/Scoring.thy ===== *)
theory Scoring
  imports Json
begin

text \<open>
  The score types of \<open>src/src/scoring/result.rs\<close>, the sample-size gate of
  \<open>scoring/assembly.rs\<close>, the effective sample size (\<open>n_eff.rs\<close>), the confidence band
  (\<open>scoring/capacity.rs\<close>) and the five capacity factors (\<open>src/src/capacity/score.rs\<close>), on
  binary64 values.
\<close>

section \<open>Score types\<close>

datatype axis_family = F3CorrelatedAction | DistributiveAccess

datatype indeterminate_reason =
    CohortColdStart
  | SampleSizeBelowGate u32 u32
  | InferredCohortAmbiguous
  | AxisAwaitingCalibration axis_family

datatype unavailable_reason =
    SloBreach duration duration
  | PersistReadFailure
  | DetectorPanic string
  | LocalSignFailure
  | DegenerateCovariance

datatype conformity =
    Numeric f64
  | Indeterminate indeterminate_reason
  | Unavailable unavailable_reason

datatype severity = SevInfo | SevWarning | SevCritical

text \<open>\<open>severity_level\<close> ranks the severities; the rank gives them a linear order.\<close>

fun severity_level :: "severity \<Rightarrow> nat" where
  "severity_level SevInfo = 0"
| "severity_level SevWarning = 1"
| "severity_level SevCritical = 2"

lemma severity_level_inj: "severity_level a = severity_level b \<Longrightarrow> a = b"
  by (cases a; cases b) simp_all

instantiation severity :: linorder
begin

definition less_eq_severity :: "severity \<Rightarrow> severity \<Rightarrow> bool" where
  "less_eq_severity a b = (severity_level a \<le> severity_level b)"

definition less_severity :: "severity \<Rightarrow> severity \<Rightarrow> bool" where
  "less_severity a b = (severity_level a < severity_level b)"

instance
  by intro_classes (auto simp: less_eq_severity_def less_severity_def dest: severity_level_inj)

end

datatype assembly_input =
    Scored f64 u32
  | InputColdStart
  | AmbiguousCohort
  | BundleSampleBelowGate u32 u32

section \<open>The sample-size gate\<close>

fun assemble :: "assembly_input \<Rightarrow> u32 \<Rightarrow> conformity" where
  "assemble InputColdStart gate = Indeterminate CohortColdStart"
| "assemble AmbiguousCohort gate = Indeterminate InferredCohortAmbiguous"
| "assemble (BundleSampleBelowGate current g) gate = Indeterminate (SampleSizeBelowGate current g)"
| "assemble (Scored d n) gate =
     (if n < gate then Indeterminate (SampleSizeBelowGate n gate) else Numeric d)"

lemma assemble_numeric_iff: "assemble input gate = Numeric d \<longleftrightarrow> (\<exists>n. input = Scored d n \<and> gate \<le> n)"
  by (cases input) (auto simp: not_less)

section \<open>Effective sample size and confidence band\<close>

definition kish_n_eff :: "u32 \<Rightarrow> f64 \<Rightarrow> f64" where
  "kish_n_eff n rho =
     (if n = 0 then fzero
      else let n_f = f_of_nat (unat n); rho_c = fclamp fzero fone rho
           in fdiv n_f (fadd fone (fmul rho_c (fsub n_f fone))))"

definition capacity :: "f64 \<Rightarrow> u32 \<Rightarrow> f64 \<Rightarrow> f64" where
  "capacity n_eff gate target =
     (let gate_f = f_of_nat (unat gate) in
      if fle n_eff gate_f then fzero
      else if fle target n_eff then fone
      else let span = fsub target gate_f in
           if fle span fzero then fone
           else fclamp fzero fone (fdiv (fsub n_eff gate_f) span))"

lemma u32_exact: "f_of_nat (unat (n :: u32)) = Fin False (of_nat (unat n))" "exact (of_nat (unat n))"
proof -
  have "unat n < 2 ^ 32" using unsigned_less [of n, where ?'a = nat] by simp
  then have "unat n \<le> 2 ^ 53" by simp
  then show "f_of_nat (unat n) = Fin False (of_nat (unat n))" "exact (of_nat (unat n))"
    by (simp_all only: f_of_nat_exact exact_of_nat)
qed

lemma kish_bounds:
  assumes "rho \<noteq> NaN" "n \<noteq> 0"
  shows "fin_in 1 (of_nat (unat n)) (kish_n_eff n rho)"
proof -
  define N :: rat where "N = of_nat (unat n)"
  have "1 \<le> (of_nat k :: rat)" if "k \<noteq> 0" for k using that by (cases k) simp_all
  then have n: "1 \<le> N" unfolding N_def using assms(2) by (metis unsigned_eq_0_iff)
  have exN: "exact N" unfolding N_def by (rule u32_exact(2))
  have exN1: "exact (N - 1)"
  proof -
    have "unat n \<noteq> 0" using assms(2) by (simp add: unsigned_eq_0_iff)
    then obtain k where "unat n = Suc k" by (cases "unat n") simp_all
    then have "N - 1 = of_nat (unat n - 1)" unfolding N_def by simp
    moreover have "unat n - 1 \<le> 2 ^ 53"
      using unsigned_less [of n, where ?'a = nat] by simp
    ultimately show ?thesis by (simp only: exact_of_nat)
  qed
  obtain s r where rho: "fclamp fzero fone rho = Fin s r" "0 \<le> fval (Fin s r)" "fval (Fin s r) \<le> 1"
    using fclamp_fin_in [of fzero fone rho] assms(1) by (auto elim: fin_in_cases)
  have sub: "fsub (Fin False N) fone = Fin False (N - 1)"
    using fround_exact [OF exN1, of False] n by (simp add: fsub_def)
  have "fin_in 0 (N - 1) (fmul (Fin s r) (Fin False (N - 1)))"
    unfolding fmul.simps
  proof (rule fround_fin_in)
    show "0 \<le> fval (Fin s r) * fval (Fin False (N - 1))" "fval (Fin s r) * fval (Fin False (N - 1)) \<le> N - 1"
      using rho(2,3) n mult_left_le_one_le [of "N - 1" "fval (Fin s r)"] by (simp_all del: fval.simps(1) add: fval.simps(1) [of False])
  qed (use exN1 in simp_all)
  then obtain t p where p: "fmul (Fin s r) (Fin False (N - 1)) = Fin t p"
      "0 \<le> fval (Fin t p)" "fval (Fin t p) \<le> N - 1" by (elim fin_in_cases)
  have "fin_in 1 N (fadd fone (Fin t p))"
    unfolding fadd.simps using p exN
    by (intro fround_fin_in) (auto simp del: fval.simps, simp_all)
  then obtain u d where d: "fadd fone (Fin t p) = Fin u d" "1 \<le> fval (Fin u d)" "fval (Fin u d) \<le> N"
    by (elim fin_in_cases)
  then have "d \<noteq> 0" by (auto split: if_splits)
  moreover have "1 \<le> N / fval (Fin u d)" "N / fval (Fin u d) \<le> N"
    using d n by (simp_all add: le_divide_eq divide_le_eq del: fval.simps)
  ultimately have q: "fin_in 1 N (fdiv (Fin False N) (Fin u d))"
    unfolding fdiv.simps using exN by (auto intro!: fround_fin_in simp del: fval.simps) simp_all
  have "kish_n_eff n rho = fdiv (Fin False N) (Fin u d)"
    unfolding kish_n_eff_def Let_def u32_exact(1) N_def [symmetric] rho(1) sub p(1) d(1)
    using assms(2) by simp
  then show ?thesis using q unfolding N_def by simp
qed

lemma wf_exact: "wf_f64 (Fin s m) \<Longrightarrow> exact (fval (Fin s m))"
  by (simp add: exact_def)

text \<open>The three regions of the band; in the middle one the quotient is a number.\<close>

lemma capacity_cases:
  assumes "n_eff \<noteq> NaN" "target \<noteq> NaN" "wf_f64 n_eff" "wf_f64 target"
  obtains (low) "fle n_eff (f_of_nat (unat gate))" "capacity n_eff gate target = fzero"
  | (high) "\<not> fle n_eff (f_of_nat (unat gate))" "capacity n_eff gate target = fone"
      "fle target n_eff \<or> fle (fsub target (f_of_nat (unat gate))) fzero"
  | (mid) "\<not> fle n_eff (f_of_nat (unat gate))" "\<not> fle target n_eff"
      "\<not> fle (fsub target (f_of_nat (unat gate))) fzero"
      "fdiv (fsub n_eff (f_of_nat (unat gate))) (fsub target (f_of_nat (unat gate))) \<noteq> NaN"
      "capacity n_eff gate target = fclamp fzero fone
         (fdiv (fsub n_eff (f_of_nat (unat gate))) (fsub target (f_of_nat (unat gate))))"
proof -
  define g where "g = (of_nat (unat gate) :: rat)"
  have g: "f_of_nat (unat gate) = Fin False g" "0 \<le> g"
    unfolding g_def by (rule u32_exact(1), rule of_nat_0_le_iff)
  have "fdiv (fsub n_eff (Fin False g)) (fsub target (Fin False g)) \<noteq> NaN"
    if mid: "\<not> fle n_eff (Fin False g)" "\<not> fle target n_eff" "\<not> fle (fsub target (Fin False g)) fzero"
  proof -
    obtain s m where n: "n_eff = Fin s m" using mid assms by (cases n_eff) auto
    have "g < fval (Fin s m)" using mid(1) n by (simp add: not_le)
    then have "fin_in 0 (fval (Fin s m)) (fsub n_eff (Fin False g))"
      using assms(3) g(2) wf_exact [of s m] unfolding n fsub_def fneg.simps fadd.simps
      by (intro fround_fin_in) (auto simp del: wf_f64.simps)
    then obtain u p where p: "fsub n_eff (Fin False g) = Fin u p" by (elim fin_in_cases)
    show ?thesis
    proof (cases "fsub target (Fin False g)")
      case (Fin t d)
      with mid(3) have "d \<noteq> 0" by (cases t) auto
      with Fin p show ?thesis by simp
    next
      case NaN
      with assms(2) show ?thesis by (cases target) (simp_all add: fsub_def)
    qed (simp add: p)
  qed
  note num = this
  define cap where "cap = capacity n_eff gate target"
  have "cap = (if fle n_eff (Fin False g) then fzero
      else if fle target n_eff \<or> fle (fsub target (Fin False g)) fzero then fone
      else fclamp fzero fone (fdiv (fsub n_eff (Fin False g)) (fsub target (Fin False g))))"
    by (simp add: cap_def capacity_def Let_def g(1))
  then show thesis
    using low high mid num unfolding g(1) cap_def [symmetric] by (metis (full_types))
qed

lemma capacity_in_unit:
  assumes "n_eff \<noteq> NaN" "target \<noteq> NaN" "wf_f64 n_eff" "wf_f64 target"
  shows "in_unit (capacity n_eff gate target)"
  using assms
proof (cases rule: capacity_cases [of n_eff target gate])
  case mid
  then show ?thesis using fclamp_fin_in [of fzero fone] by simp
qed (simp_all add: fin_in_def)

section \<open>Capacity factors\<close>

record capacity_factors =
  core_identity :: f64
  integrity :: f64
  resilience :: f64
  incompleteness_awareness :: f64
  sustained_coherence :: f64

datatype factor_error = OutOfRange string f64 | NotFinite string f64

definition validate_factor :: "string \<Rightarrow> f64 \<Rightarrow> factor_error + unit" where
  "validate_factor name v =
     (if \<not> is_finite v then Inl (NotFinite name v)
      else if \<not> (fle fzero v \<and> fle v fone) then Inl (OutOfRange name v)
      else Inr ())"

definition factors_new :: "f64 \<Rightarrow> f64 \<Rightarrow> f64 \<Rightarrow> f64 \<Rightarrow> f64 \<Rightarrow> factor_error + capacity_factors" where
  "factors_new c i r a s =
     rbind (validate_factor ''core_identity'' c) (\<lambda>_.
     rbind (validate_factor ''integrity'' i) (\<lambda>_.
     rbind (validate_factor ''resilience'' r) (\<lambda>_.
     rbind (validate_factor ''incompleteness_awareness'' a) (\<lambda>_.
     rbind (validate_factor ''sustained_coherence'' s) (\<lambda>_.
     Inr \<lparr>core_identity = c, integrity = i, resilience = r, incompleteness_awareness = a,
          sustained_coherence = s\<rparr>)))))"

definition composite :: "capacity_factors \<Rightarrow> f64" where
  "composite f = fmul (fmul (fmul (fmul (core_identity f) (integrity f)) (resilience f))
     (incompleteness_awareness f)) (sustained_coherence f)"

text \<open>
  Reading factors from the wire: \<open>shadow\<close> is the derived reader of the five numbers and
  \<open>custom\<close> the text of an error; the values are validated again.
\<close>

definition factors_deserialize ::
    "('w \<Rightarrow> 'e + f64 \<times> f64 \<times> f64 \<times> f64 \<times> f64) \<Rightarrow> (factor_error \<Rightarrow> 'e) \<Rightarrow> 'w \<Rightarrow> 'e + capacity_factors" where
  "factors_deserialize shadow custom w =
     rbind (shadow w) (\<lambda>(c, i, r, a, s). map_err custom (factors_new c i r a s))"

lemma validate_factor_iff: "validate_factor name v = Inr u \<longleftrightarrow> in_unit v"
  by (cases v) (auto simp: validate_factor_def fin_in_def)

lemma fmul_zero:
  assumes "is_finite x" "is_finite y" "fval x = 0 \<or> fval y = 0"
  shows "is_finite (fmul x y) \<and> fval (fmul x y) = 0"
  using assms by (cases x; cases y) (auto simp: fround_def simp del: fval.simps, auto)

section \<open>Properties\<close>

text \<open>
  The sample-size gate is fail-secure. Assembly yields a number only for a computed
  distance whose cohort has at least as many samples as the gate, and then it is that
  distance; a cohort below the gate yields the typed reason with both counts, and cold
  start and ambiguity yield theirs.
\<close>

theorem no_number_below_gate:
  "(assemble input gate = Numeric d \<longleftrightarrow> (\<exists>n. input = Scored d n \<and> gate \<le> n))
   \<and> (\<forall>x n. input = Scored x n \<longrightarrow> n < gate \<longrightarrow>
        assemble input gate = Indeterminate (SampleSizeBelowGate n gate))
   \<and> (\<forall>r. assemble input gate \<noteq> Unavailable r)"
  by (cases input) (auto simp: assemble_numeric_iff)

lemma no_number_below_gate_witness:
  "assemble (Scored fone 499) 500 = Indeterminate (SampleSizeBelowGate 499 500)
   \<and> assemble (Scored fone 500) 500 = Numeric fone"
  using no_number_below_gate [of "Scored fone 499" 500 fone] no_number_below_gate [of "Scored fone 500" 500 fone]
  by auto

text \<open>
  C38: the confidence pipeline stays in range in binary64 arithmetic. For at least one sample
  and a correlation that is a number, the effective sample size is a finite value between
  1 and n despite every rounding; and for any effective size and target that are numbers,
  the capacity is a finite value in the unit interval, 0 at or below the gate, 1 from the
  target on.
\<close>

theorem confidence_in_range:
  "(rho \<noteq> NaN \<longrightarrow> n \<noteq> 0 \<longrightarrow> fin_in 1 (of_nat (unat n)) (kish_n_eff n rho))
   \<and> (n_eff \<noteq> NaN \<longrightarrow> target \<noteq> NaN \<longrightarrow> wf_f64 n_eff \<longrightarrow> wf_f64 target \<longrightarrow>
        in_unit (capacity n_eff gate target)
        \<and> (fle n_eff (f_of_nat (unat gate)) \<longrightarrow> capacity n_eff gate target = fzero)
        \<and> (\<not> fle n_eff (f_of_nat (unat gate)) \<longrightarrow> fle target n_eff \<longrightarrow> capacity n_eff gate target = fone))"
  using kish_bounds capacity_in_unit by (auto simp: capacity_def)

lemma confidence_in_range_witness:
  "fin_in 1 10 (kish_n_eff 10 (flit (1/10))) \<and> in_unit (capacity (Fin False 7) 2 (Fin False 12))"
proof -
  have a: "flit (1/10) \<noteq> NaN" "(10 :: u32) \<noteq> 0" "of_nat (unat (10 :: u32)) = (10 :: rat)"
    by (simp_all add: flit_def)
  have b: "wf_f64 (Fin False 7)" "wf_f64 (Fin False 12)" by code_simp+
  show ?thesis
    using confidence_in_range [of "flit (1/10)" 10 "Fin False 7" "Fin False 12" 2] a b by simp
qed

text \<open>
  Capacity factors can be built only from five finite values in the unit interval, and
  then their composite is again a finite value in the unit interval, zero as soon as one
  factor is zero; anything else is rejected with an error naming a factor that is not
  finite or out of range.
\<close>

lemma composite_in_unit:
  "(\<forall>f. factors_new c i r a s = Inr f \<longrightarrow>
       in_unit (composite f) \<and> (\<forall>x \<in> {c, i, r, a, s}. in_unit x)
       \<and> ((\<exists>x \<in> {c, i, r, a, s}. fval x = 0) \<longrightarrow> fval (composite f) = 0))
   \<and> ((\<forall>x \<in> {c, i, r, a, s}. in_unit x) \<longrightarrow> (\<exists>f. factors_new c i r a s = Inr f))"
proof (intro conjI allI impI)
  fix f assume f: "factors_new c i r a s = Inr f"
  then have u: "in_unit c" "in_unit i" "in_unit r" "in_unit a" "in_unit s"
    and fe: "f = \<lparr>core_identity = c, integrity = i, resilience = r, incompleteness_awareness = a,
          sustained_coherence = s\<rparr>"
    by (auto simp: factors_new_def rbind_eq_Inr_iff validate_factor_iff)
  then show "in_unit (composite f)" by (simp add: composite_def fmul_in_unit)
  show "\<forall>x \<in> {c, i, r, a, s}. in_unit x" using u by simp
  note fin = u [THEN fin_in_finite]
  note p1 = fmul_in_unit [OF u(1) u(2)]
  note p2 = fmul_in_unit [OF p1 u(3)]
  note p3 = fmul_in_unit [OF p2 u(4)]
  note zero = fmul_zero [OF fin(1) fin(2), THEN conjunct2]
    fmul_zero [OF fin_in_finite [OF p1] fin(3), THEN conjunct2]
    fmul_zero [OF fin_in_finite [OF p2] fin(4), THEN conjunct2]
    fmul_zero [OF fin_in_finite [OF p3] fin(5), THEN conjunct2]
  show "\<exists>x \<in> {c, i, r, a, s}. fval x = 0 \<Longrightarrow> fval (composite f) = 0"
    by (auto simp: fe composite_def zero simp del: fmul.simps)
next
  assume "\<forall>x \<in> {c, i, r, a, s}. in_unit x"
  then show "\<exists>f. factors_new c i r a s = Inr f"
    by (auto simp: factors_new_def rbind_eq_Inr_iff validate_factor_iff)
qed

text \<open>No factor out of range comes in from the wire, and what a printer wrote is read back.\<close>

lemma deserialized_factors_valid:
  assumes "factors_deserialize shadow custom w = Inr f"
  shows "in_unit (core_identity f)" "in_unit (integrity f)" "in_unit (resilience f)"
    "in_unit (incompleteness_awareness f)" "in_unit (sustained_coherence f)"
  using assms by (auto simp: factors_deserialize_def factors_new_def rbind_eq_Inr_iff map_err_eq_Inr_iff validate_factor_iff)

lemma factors_roundtrip:
  assumes "factors_new c i r a s = Inr f" "shadow w = Inr (c, i, r, a, s)"
  shows "factors_deserialize shadow custom w = Inr f"
  using assms by (simp add: factors_deserialize_def)

lemma composite_in_unit_witness:
  "\<exists>f. factors_new fone fone (Fin False (1/2)) fone fzero = Inr f \<and> fval (composite f) = 0"
proof -
  have "in_unit (Fin False (1/2))" "in_unit fone" "in_unit fzero" by (simp_all add: fin_in_def)
  then obtain f where "factors_new fone fone (Fin False (1/2)) fone fzero = Inr f"
    using composite_in_unit [of fone fone "Fin False (1/2)" fone fzero] by auto
  with composite_in_unit [of fone fone "Fin False (1/2)" fone fzero] show ?thesis by auto
qed

text \<open>A single sample with an undefined correlation has an undefined effective size.\<close>

lemma kish_single_nan: "kish_n_eff 1 NaN = NaN"
  by code_simp

end
