(* ===== verification/Calibration.thy ===== *)
theory Calibration
  imports Features Scoring
begin

text \<open>
  The calibration bundle of \<open>src/src/scoring/calibration.rs\<close>: its types, the structural
  validation every constructor runs, the hydration from a persist row, and the cohort
  lookup. The derived deserializers and the YAML parser are parameters.
\<close>

section \<open>Types\<close>

record standardization =
  means :: "f64 list"
  stds :: "f64 list"

record projection =
  field_order :: "string list"
  imputation :: "(string \<times> f64) list"
  standardize :: standardization
  retention_mask :: "bool list"

record cohort_centroid =
  cohort :: json
  centroid :: "f64 list"
  variance :: "f64 list"
  sample_count :: u64
  above_sample_size_gate :: bool

record calibration_bundle =
  ratchet_calibration_version :: i32
  bundle_projection_version :: string
  calibrated_at :: "string option"
  sample_size_gate :: u32
  manifold_threshold_global :: f64
  bundle_projection :: projection
  cohort_centroids :: "cohort_centroid list"

datatype bundle_error =
    Yaml string
  | ProjectionMetadataJson string
  | CohortCentroidsJson string
  | SampleSizeGateNegative i32
  | ProjectionVersionMismatch string string
  | FieldOrderLength nat nat
  | FieldOrderMismatch nat string string
  | StandardizationLength nat nat nat
  | RetentionMaskLength nat nat
  | CentroidLength nat nat
  | VarianceLength nat nat

definition crc_v1_field_order :: "string list" where
  "crc_v1_field_order =
     [''csdma_plausibility_score'', ''dsdma_domain_alignment'', ''coherence_level'', ''entropy_level'',
      ''idma_k_eff'', ''idma_correlation_risk'', ''entropy_score'', ''coherence_score'',
      ''optimization_veto_entropy_ratio'', ''epistemic_humility_certainty'', ''conscience_passed'',
      ''entropy_passed'', ''coherence_passed'', ''optimization_veto_passed'',
      ''epistemic_humility_passed'', ''action_was_overridden'']"

section \<open>Validation\<close>

fun check_order :: "nat \<Rightarrow> string list \<Rightarrow> string list \<Rightarrow> bundle_error + unit" where
  "check_order i (got # gs) (want # ws) =
     (if got \<noteq> want then Inl (FieldOrderMismatch i got want) else check_order (Suc i) gs ws)"
| "check_order i _ _ = Inr ()"

definition retained_dim :: "projection \<Rightarrow> nat" where
  "retained_dim p = length (filter (\<lambda>x. x) (retention_mask p))"

fun check_centroids :: "nat \<Rightarrow> cohort_centroid list \<Rightarrow> bundle_error + unit" where
  "check_centroids retained [] = Inr ()"
| "check_centroids retained (c # cs) =
     (if length (centroid c) \<noteq> retained then Inl (CentroidLength (length (centroid c)) retained)
      else if length (variance c) \<noteq> retained then Inl (VarianceLength (length (variance c)) retained)
      else check_centroids retained cs)"

definition validate :: "calibration_bundle \<Rightarrow> bundle_error + unit" where
  "validate b =
     (let p = bundle_projection b; st = standardize p in
      if bundle_projection_version b \<noteq> projection_version
        then Inl (ProjectionVersionMismatch (bundle_projection_version b) projection_version)
      else if length (field_order p) \<noteq> projection_dim
        then Inl (FieldOrderLength (length (field_order p)) projection_dim)
      else rbind (check_order 0 (field_order p) crc_v1_field_order) (\<lambda>_.
        if length (means st) \<noteq> projection_dim \<or> length (stds st) \<noteq> projection_dim
          then Inl (StandardizationLength (length (means st)) (length (stds st)) projection_dim)
        else if length (retention_mask p) \<noteq> projection_dim
          then Inl (RetentionMaskLength (length (retention_mask p)) projection_dim)
        else check_centroids (retained_dim p) (cohort_centroids b)))"

section \<open>Construction and lookup\<close>

definition from_yaml :: "(string \<Rightarrow> string + calibration_bundle) \<Rightarrow> string \<Rightarrow> bundle_error + calibration_bundle" where
  "from_yaml parse s =
     rbind (map_err Yaml (parse s)) (\<lambda>b. rbind (validate b) (\<lambda>_. Inr b))"

text \<open>The persist row; its \<open>f32\<close> threshold is given by its (exact) binary64 value.\<close>

record bundle_row =
  row_version :: i32
  row_projection_version :: string
  row_calibrated_at :: string
  row_gate :: i32
  row_threshold :: f64
  row_projection_metadata :: json
  row_cohort_centroids :: json

definition from_persist_row ::
    "(json \<Rightarrow> string + projection) \<Rightarrow> (json \<Rightarrow> string + cohort_centroid list) \<Rightarrow> bundle_row \<Rightarrow> bundle_error + calibration_bundle" where
  "from_persist_row parse_projection parse_centroids row =
     rbind (map_err ProjectionMetadataJson (parse_projection (row_projection_metadata row))) (\<lambda>p.
     rbind (map_err CohortCentroidsJson (parse_centroids (row_cohort_centroids row))) (\<lambda>cs.
     rbind (if sint (row_gate row) < 0 then Inl (SampleSizeGateNegative (row_gate row)) else Inr (row_gate row)) (\<lambda>gate.
     let b = \<lparr>ratchet_calibration_version = row_version row,
              bundle_projection_version = row_projection_version row,
              calibrated_at = Some (row_calibrated_at row),
              sample_size_gate = gate,
              manifold_threshold_global = row_threshold row,
              bundle_projection = p,
              cohort_centroids = cs\<rparr>
     in rbind (validate b) (\<lambda>_. Inr b))))"

definition lookup_cohort :: "calibration_bundle \<Rightarrow> json \<Rightarrow> cohort_centroid option" where
  "lookup_cohort b cell = find (\<lambda>c. cohort c = cell) (cohort_centroids b)"

section \<open>What validation guarantees\<close>

definition bundle_ok :: "calibration_bundle \<Rightarrow> bool" where
  "bundle_ok b \<longleftrightarrow>
     (let p = bundle_projection b in
      bundle_projection_version b = projection_version
      \<and> field_order p = crc_v1_field_order
      \<and> length (means (standardize p)) = projection_dim
      \<and> length (stds (standardize p)) = projection_dim
      \<and> length (retention_mask p) = projection_dim
      \<and> (\<forall>c \<in> set (cohort_centroids b).
           length (centroid c) = retained_dim p \<and> length (variance c) = retained_dim p))"

lemma length_crc_v1_field_order: "length crc_v1_field_order = projection_dim"
  by (simp add: crc_v1_field_order_def projection_dim_def)

lemma check_order_ok:
  "length gs = length ws \<Longrightarrow> check_order i gs ws = Inr () \<longleftrightarrow> gs = ws"
  by (induction i gs ws rule: check_order.induct) auto

lemma check_centroids_ok:
  "check_centroids n cs = Inr () \<longleftrightarrow> (\<forall>c \<in> set cs. length (centroid c) = n \<and> length (variance c) = n)"
  by (induction cs) auto

lemma validate_ok_iff: "validate b = Inr () \<longleftrightarrow> bundle_ok b"
proof (cases "length (field_order (bundle_projection b)) = projection_dim")
  case True
  then show ?thesis
    using check_order_ok [of "field_order (bundle_projection b)" crc_v1_field_order 0]
    by (auto simp: validate_def bundle_ok_def Let_def rbind_eq_Inr_iff check_centroids_ok length_crc_v1_field_order)
next
  case False
  then show ?thesis
    using length_crc_v1_field_order by (auto simp: validate_def bundle_ok_def Let_def)
qed

lemma lookup_cohortD:
  "lookup_cohort b cell = Some c \<Longrightarrow> c \<in> set (cohort_centroids b) \<and> cohort c = cell"
  by (auto simp: lookup_cohort_def find_Some_iff)

section \<open>Properties\<close>

text \<open>
  C26: only structurally sound bundles reach the scorer. Validation accepts exactly the
  bundles with the pinned projection version and field order, sixteen means, stds and mask
  entries, and centroids and variances of the retained dimension; both constructors return
  only such bundles; a row becomes a bundle exactly when its blobs parse, its gate is not
  negative and the result is sound, and then the gate and version are the row's; and a
  lookup finds a centroid of exactly the asked cohort whenever the bundle has one.
\<close>

theorem only_sound_bundles:
  "(validate b = Inr () \<longleftrightarrow> bundle_ok b)
   \<and> (from_yaml parse s = Inr b \<longleftrightarrow> parse s = Inr b \<and> bundle_ok b)
   \<and> (from_persist_row pp pc row = Inr b \<longrightarrow>
        bundle_ok b \<and> 0 \<le> sint (row_gate row) \<and> int (unat (sample_size_gate b)) = sint (row_gate row)
        \<and> ratchet_calibration_version b = row_version row
        \<and> pp (row_projection_metadata row) = Inr (bundle_projection b)
        \<and> pc (row_cohort_centroids row) = Inr (cohort_centroids b))
   \<and> (sint (row_gate row) < 0 \<longrightarrow> from_persist_row pp pc row \<noteq> Inr b)
   \<and> (lookup_cohort b cell = None \<longleftrightarrow> (\<forall>c \<in> set (cohort_centroids b). cohort c \<noteq> cell))
   \<and> (\<forall>c. lookup_cohort b cell = Some c \<longrightarrow> c \<in> set (cohort_centroids b) \<and> cohort c = cell)"
proof -
  have gate: "int (unat g) = sint g" if "0 \<le> sint (g :: i32)" for g
  proof -
    have "sint g < 2 ^ 31" using sint_lt [of g] by simp
    then have "uint g = sint g" using that by (simp add: uint_sint take_bit_int_eq_self)
    then show ?thesis by simp
  qed
  have row: "from_persist_row pp pc row = Inr b \<longrightarrow>
        bundle_ok b \<and> 0 \<le> sint (row_gate row) \<and> int (unat (sample_size_gate b)) = sint (row_gate row)
        \<and> ratchet_calibration_version b = row_version row
        \<and> pp (row_projection_metadata row) = Inr (bundle_projection b)
        \<and> pc (row_cohort_centroids row) = Inr (cohort_centroids b)"
    using gate by (auto simp: from_persist_row_def rbind_eq_Inr_iff Let_def validate_ok_iff split: if_splits)
  show ?thesis
    using row by (auto simp: validate_ok_iff from_yaml_def rbind_eq_Inr_iff lookup_cohort_def find_None_iff find_Some_iff)
qed

definition sample_bundle :: "u64 \<Rightarrow> calibration_bundle" where
  "sample_bundle n =
     \<lparr>ratchet_calibration_version = 7, bundle_projection_version = ''crc-v1'', calibrated_at = None,
      sample_size_gate = 500, manifold_threshold_global = Fin False (5/2),
      bundle_projection =
        \<lparr>field_order = crc_v1_field_order, imputation = [],
         standardize = \<lparr>means = replicate 16 fzero, stds = replicate 16 fone\<rparr>,
         retention_mask = True # replicate 15 False\<rparr>,
      cohort_centroids = [\<lparr>cohort = JStr ''c'', centroid = [fone], variance = [fone], sample_count = n,
         above_sample_size_gate = True\<rparr>]\<rparr>"

lemma sample_bundle_ok: "bundle_ok (sample_bundle n)"
  by (simp add: bundle_ok_def sample_bundle_def retained_dim_def projection_version_def projection_dim_def)

lemma only_sound_bundles_witness:
  "validate (sample_bundle 600) = Inr ()
   \<and> from_persist_row (\<lambda>_. Inr (bundle_projection (sample_bundle 600))) (\<lambda>_. Inr [])
       \<lparr>row_version = 1, row_projection_version = ''crc-v1'', row_calibrated_at = [], row_gate = - 1,
        row_threshold = fone, row_projection_metadata = JNull, row_cohort_centroids = JNull\<rparr> \<noteq> Inr (sample_bundle 600)"
proof -
  let ?row = "\<lparr>row_version = 1, row_projection_version = ''crc-v1'', row_calibrated_at = [], row_gate = - 1,
        row_threshold = fone, row_projection_metadata = JNull, row_cohort_centroids = JNull\<rparr>"
  have "sint (row_gate ?row) < 0" by simp
  then show ?thesis
    using only_sound_bundles [where b = "sample_bundle 600" and row = ?row
        and pp = "\<lambda>_. Inr (bundle_projection (sample_bundle 600))" and pc = "\<lambda>_. Inr []"]
      sample_bundle_ok [of 600] by blast
qed

end
