(* ===== verification/Manifold.thy ===== *)
theory Manifold
  imports Calibration
begin

text \<open>
  The manifold scorer of \<open>src/src/detector/manifold.rs\<close> and the detector stage of
  \<open>detector/mod.rs\<close>. Indexing a vector out of range panics in Rust: the functions that index
  return an option whose \<open>None\<close> is the panic; \<open>idx\<close> is the indexing.
\<close>

section \<open>Indexing\<close>

definition idx :: "'a list \<Rightarrow> nat \<Rightarrow> 'a option" where
  "idx xs i = (if i < length xs then Some (xs ! i) else None)"

lemma idx_Some [simp]: "i < length xs \<Longrightarrow> idx xs i = Some (xs ! i)"
  by (simp add: idx_def)

section \<open>Scorer\<close>

datatype manifold_outcome = Distance f64 | ScoreUnavailable unavailable_reason

datatype detection_result =
    NoDetection
  | ManifoldHit f64 u32
  | DeclaredInferredMismatch json json

definition impute :: "projection \<Rightarrow> nat \<Rightarrow> f64 \<Rightarrow> f64 option" where
  "impute p i x =
     (if is_nan x
      then (case idx (field_order p) i of
              None \<Rightarrow> None
            | Some name \<Rightarrow> Some (case bt_get (imputation p) name of None \<Rightarrow> NaN | Some m \<Rightarrow> m))
      else Some x)"

text \<open>The loop over the positions; the outer option is the panic, the inner one the result.\<close>

fun standardize_loop :: "projection \<Rightarrow> f64 list \<Rightarrow> nat list \<Rightarrow> f64 list option option" where
  "standardize_loop p raw [] = Some (Some [])"
| "standardize_loop p raw (i # is) =
     (case idx (retention_mask p) i of
        None \<Rightarrow> None
      | Some False \<Rightarrow> standardize_loop p raw is
      | Some True \<Rightarrow>
          (case idx raw i of None \<Rightarrow> None | Some x \<Rightarrow>
          (case impute p i x of None \<Rightarrow> None | Some raw_val \<Rightarrow>
          (case idx (stds (standardize p)) i of None \<Rightarrow> None | Some std_i \<Rightarrow>
             if fle std_i fzero \<or> is_nan std_i then Some None
             else (case idx (means (standardize p)) i of None \<Rightarrow> None | Some mean_i \<Rightarrow>
               let z = fdiv (fsub raw_val mean_i) std_i in
               if \<not> is_finite z then Some None
               else map_option (map_option ((#) z)) (standardize_loop p raw is))))))"

definition standardize_and_retain :: "f64 list \<Rightarrow> calibration_bundle \<Rightarrow> f64 list option option" where
  "standardize_and_retain raw b = standardize_loop (bundle_projection b) raw [0..<projection_dim]"

fun mahalanobis_loop :: "f64 \<Rightarrow> (f64 \<times> f64 \<times> f64) list \<Rightarrow> f64 option" where
  "mahalanobis_loop d_sq [] = Some d_sq"
| "mahalanobis_loop d_sq ((x, mu, var) # rest) =
     (if fle var fzero \<or> is_nan var then None
      else let diff = fsub x mu in
        mahalanobis_loop (fadd d_sq (fdiv (fmul diff diff) var)) rest)"

definition mahalanobis_sq :: "f64 list \<Rightarrow> cohort_centroid \<Rightarrow> f64 option" where
  "mahalanobis_sq x_std c =
     (case mahalanobis_loop fzero (zip x_std (zip (centroid c) (variance c))) of
        None \<Rightarrow> None
      | Some d_sq \<Rightarrow> if is_finite d_sq then Some d_sq else None)"

definition score_mahalanobis :: "f64 list \<Rightarrow> calibration_bundle \<Rightarrow> cohort_centroid \<Rightarrow> manifold_outcome option" where
  "score_mahalanobis raw b c =
     (case standardize_and_retain raw b of
        None \<Rightarrow> None
      | Some None \<Rightarrow> Some (ScoreUnavailable DegenerateCovariance)
      | Some (Some x_std) \<Rightarrow>
          Some (case mahalanobis_sq x_std c of
                  Some d_sq \<Rightarrow> Distance (fsqrt d_sq)
                | None \<Rightarrow> ScoreUnavailable DegenerateCovariance))"

definition detect_manifold ::
    "f64 list \<Rightarrow> calibration_bundle \<Rightarrow> cohort_centroid \<Rightarrow> (unavailable_reason + detection_result) option" where
  "detect_manifold raw b c =
     map_option (\<lambda>out. case out of
         Distance d_sigma \<Rightarrow> Inr (ManifoldHit d_sigma (u32_try_from_or_max (sample_count c)))
       | ScoreUnavailable reason \<Rightarrow> Inl reason) (score_mahalanobis raw b c)"

text \<open>The per-trace detector of this version never fires.\<close>

definition detect :: "features \<Rightarrow> detection_result" where
  "detect features = NoDetection"

section \<open>The loops\<close>

lemma standardize_loop_total:
  assumes "length (means (standardize p)) = n" "length (stds (standardize p)) = n"
    "length (retention_mask p) = n" "length (field_order p) = n" "length raw = n"
    "\<forall>i \<in> set is. i < n"
  shows "\<exists>r. standardize_loop p raw is = Some r"
  using assms(6)
proof (induction "is")
  case (Cons i "is")
  then have i: "i < n" and IH: "\<exists>r. standardize_loop p raw is = Some r" by simp_all
  have "\<exists>x. impute p i (raw ! i) = Some x" using i assms by (simp add: impute_def)
  with i IH assms show ?case by (cases "retention_mask p ! i") (auto simp: Let_def)
qed simp

text \<open>One position of a successful pass: dropped, or retained with everything it needs.\<close>

lemma standardize_loop_Cons:
  assumes "standardize_loop p raw (i # is) = Some (Some zs)"
  obtains (dropped) "idx (retention_mask p) i = Some False" "standardize_loop p raw is = Some (Some zs)"
  | (kept) x v s m zs' where "idx (retention_mask p) i = Some True" "idx raw i = Some x" "impute p i x = Some v"
      "idx (stds (standardize p)) i = Some s" "\<not> fle s fzero" "\<not> is_nan s"
      "idx (means (standardize p)) i = Some m" "is_finite (fdiv (fsub v m) s)"
      "zs = fdiv (fsub v m) s # zs'" "standardize_loop p raw is = Some (Some zs')"
proof (cases "idx (retention_mask p) i")
  case (Some k)
  show thesis
  proof (cases k)
    case False
    with Some assms dropped show thesis by simp
  next
    case True
    with Some assms obtain x where x: "idx raw i = Some x" by (cases "idx raw i") auto
    with True Some assms obtain v where v: "impute p i x = Some v" by (cases "impute p i x") auto
    with x True Some assms obtain s where s: "idx (stds (standardize p)) i = Some s"
      by (cases "idx (stds (standardize p)) i") auto
    with v x True Some assms obtain m where m: "idx (means (standardize p)) i = Some m"
      by (cases "idx (means (standardize p)) i") (auto split: if_splits)
    have "\<not> fle s fzero" "\<not> is_nan s" "is_finite (fdiv (fsub v m) s)"
      "\<exists>zs'. zs = fdiv (fsub v m) s # zs' \<and> standardize_loop p raw is = Some (Some zs')"
      using assms by (auto simp: Some True x v s m Let_def split: if_splits)
    then show thesis using kept [OF _ x v s _ _ m] Some True by auto
  qed
qed (use assms in simp)

lemma standardize_loop_finite:
  "standardize_loop p raw is = Some (Some zs) \<Longrightarrow> \<forall>z \<in> set zs. is_finite z"
  by (induction "is" arbitrary: zs) (simp, elim standardize_loop_Cons, auto)

lemma standardize_loop_length:
  "standardize_loop p raw is = Some (Some zs) \<Longrightarrow> length zs = length (filter (\<lambda>i. retention_mask p ! i) is)"
  by (induction "is" arbitrary: zs) (simp, elim standardize_loop_Cons, auto simp: idx_def split: if_splits)

lemma retained_positions:
  "length (filter (\<lambda>i. xs ! i) [0..<length xs]) = length (filter (\<lambda>x. x) xs)"
proof -
  have "length (filter (\<lambda>x. x) (map ((!) xs) [0..<length xs])) = length (filter (\<lambda>i. xs ! i) [0..<length xs])"
    by (simp add: filter_map o_def)
  then show ?thesis by (simp add: map_nth)
qed

text \<open>A retained position without a usable deviation or value leaves no vector.\<close>

definition degenerate_at :: "projection \<Rightarrow> f64 list \<Rightarrow> nat \<Rightarrow> bool" where
  "degenerate_at p raw i \<longleftrightarrow>
     retention_mask p ! i
     \<and> (fle (stds (standardize p) ! i) fzero \<or> is_nan (stds (standardize p) ! i)
        \<or> (is_nan (raw ! i) \<and> bt_get (imputation p) (field_order p ! i) = None))"

lemma fsub_nan [simp]: "fsub NaN y = NaN"
  by (simp add: fsub_def)

lemma standardize_loop_degenerate:
  "standardize_loop p raw is = Some (Some zs) \<Longrightarrow> i \<in> set is \<Longrightarrow> \<not> degenerate_at p raw i"
proof (induction "is" arbitrary: zs)
  case (Cons j "is")
  from Cons.prems(1) show ?case
  proof (cases rule: standardize_loop_Cons)
    case dropped
    with Cons show ?thesis by (auto simp: degenerate_at_def idx_def split: if_splits)
  next
    case (kept x v s m zs')
    have "\<not> degenerate_at p raw j"
      using kept by (auto simp: degenerate_at_def impute_def idx_def split: if_splits option.splits)
    with kept Cons show ?thesis by auto
  qed
qed simp

section \<open>The distance\<close>

text \<open>A binary64 value that is NaN or not negative, as every accumulated term of the sum is.\<close>

definition nonneg :: "f64 \<Rightarrow> bool" where
  "nonneg x \<longleftrightarrow> x = NaN \<or> (wf_f64 x \<and> fle fzero x)"

lemma nonneg_fround: "0 \<le> q \<Longrightarrow> nonneg (fround z q)"
  using fround_mono [of 0 q False z] by (simp add: nonneg_def fround_def [of False] Let_def split: if_splits)

lemma nonneg_square: "nonneg (fmul x x)"
  by (cases x) (auto simp: nonneg_fround simp del: fval.simps, auto simp: nonneg_def)

lemma nonneg_div: "nonneg x \<Longrightarrow> wf_f64 v \<Longrightarrow> \<not> fle v fzero \<Longrightarrow> nonneg (fdiv x v)"
proof (cases x; cases v)
  fix s m t n
  assume *: "nonneg x" "\<not> fle v fzero" and x: "x = Fin s m" and v: "v = Fin t n"
  then have "0 \<le> fval (Fin s m)" "0 < fval (Fin t n)"
    by (auto simp: nonneg_def not_le simp del: fval.simps) simp_all
  then have "n \<noteq> 0" by (cases t) auto
  with \<open>0 \<le> fval (Fin s m)\<close> \<open>0 < fval (Fin t n)\<close> show "nonneg (fdiv x v)"
    unfolding x v fdiv.simps by (simp add: nonneg_fround del: fval.simps)
qed (auto simp: nonneg_def)

lemma nonneg_add: "nonneg x \<Longrightarrow> nonneg y \<Longrightarrow> nonneg (fadd x y)"
proof (cases x; cases y)
  fix s m t n
  assume *: "nonneg x" "nonneg y" and x: "x = Fin s m" and y: "y = Fin t n"
  then have "0 \<le> fval (Fin s m)" "0 \<le> fval (Fin t n)" by (simp_all add: nonneg_def)
  then show "nonneg (fadd x y)" unfolding x y fadd.simps by (intro nonneg_fround) simp
qed (auto simp: nonneg_def)

lemma mahalanobis_loop_nonneg:
  "nonneg d \<Longrightarrow> \<forall>(x, mu, v) \<in> set ts. wf_f64 v \<Longrightarrow> mahalanobis_loop d ts = Some e \<Longrightarrow> nonneg e"
  by (induction d ts rule: mahalanobis_loop.induct)
    (auto simp: Let_def nonneg_add nonneg_div nonneg_square split: if_splits)

lemma mahalanobis_loop_positive:
  "mahalanobis_loop d ts = Some e \<Longrightarrow> (x, mu, v) \<in> set ts \<Longrightarrow> \<not> fle v fzero \<and> \<not> is_nan v"
  by (induction d ts rule: mahalanobis_loop.induct) (auto simp: Let_def split: if_splits)

text \<open>A vector at the centroid is at distance zero.\<close>

lemma fsub_self: "is_finite x \<Longrightarrow> \<exists>s. fsub x x = Fin s 0"
  by (cases x) (auto simp: fsub_def fround_def)

lemma mahalanobis_loop_self:
  "\<forall>x \<in> set xs. is_finite x \<Longrightarrow> \<forall>v \<in> set vs. \<not> fle v fzero \<and> \<not> is_nan v \<Longrightarrow>
     \<exists>s. mahalanobis_loop (Fin t 0) (zip xs (zip xs vs)) = Some (Fin s 0)"
proof (induction xs arbitrary: vs t)
  case (Cons x xs)
  show ?case
  proof (cases vs)
    case (Cons v vs')
    obtain s where s: "fsub x x = Fin s 0" using fsub_self Cons.prems(1) by auto
    have "\<exists>u. fadd (Fin t 0) (fdiv (fmul (Fin s 0) (Fin s 0)) v) = Fin u 0"
      using Cons.prems(2) by (cases v) (auto simp: Cons fround_def split: if_splits)
    then obtain u where "fadd (Fin t 0) (fdiv (fmul (Fin s 0) (Fin s 0)) v) = Fin u 0" by blast
    then show ?thesis
      using Cons.IH [of vs' u] Cons.prems by (simp add: Cons s del: fmul.simps fdiv.simps fadd.simps)
  qed simp
qed simp

lemma sqrt_mag_nonneg: "0 \<le> sqrt_mag m"
  by (simp add: sqrt_mag_def Let_def)

lemma fsqrt_finite: "is_finite x \<Longrightarrow> nonneg x \<Longrightarrow> is_finite (fsqrt x) \<and> 0 \<le> fval (fsqrt x)"
  by (cases x) (auto simp: nonneg_def sqrt_mag_nonneg split: if_splits)

lemma standardize_total:
  assumes "bundle_ok b" "length raw = projection_dim"
  shows "\<exists>r. standardize_and_retain raw b = Some r"
  using standardize_loop_total [of "bundle_projection b" projection_dim raw "[0..<projection_dim]"] assms
  by (auto simp: bundle_ok_def Let_def standardize_and_retain_def length_crc_v1_field_order)

lemma score_total:
  assumes "bundle_ok b" "length raw = projection_dim"
  shows "\<exists>out. score_mahalanobis raw b c = Some out"
proof -
  obtain r where "standardize_and_retain raw b = Some r" using standardize_total [OF assms] by blast
  then show ?thesis by (cases r) (auto simp: score_mahalanobis_def)
qed

lemma score_unavailable: "score_mahalanobis raw b c = Some (ScoreUnavailable r) \<Longrightarrow> r = DegenerateCovariance"
  by (auto simp: score_mahalanobis_def split: option.splits)

lemma mahalanobis_sq_bounds:
  assumes "mahalanobis_sq zs c = Some d" "\<forall>v \<in> set (variance c). wf_f64 v"
  shows "is_finite (fsqrt d) \<and> 0 \<le> fval (fsqrt d)"
proof -
  have d: "mahalanobis_loop fzero (zip zs (zip (centroid c) (variance c))) = Some d" "is_finite d"
    using assms(1) by (auto simp: mahalanobis_sq_def split: option.splits if_splits)
  have "\<forall>(x, mu, v) \<in> set (zip zs (zip (centroid c) (variance c))). wf_f64 v"
    using assms(2) by (auto dest!: set_zip_rightD)
  then have "nonneg d" by (rule mahalanobis_loop_nonneg [OF _ _ d(1), rotated]) (simp add: nonneg_def)
  with d(2) show ?thesis by (rule fsqrt_finite)
qed

lemma score_distance:
  assumes "score_mahalanobis raw b c = Some (Distance d)" "\<forall>v \<in> set (variance c). wf_f64 v"
  shows "is_finite d \<and> 0 \<le> fval d"
  using assms mahalanobis_sq_bounds by (auto simp: score_mahalanobis_def split: option.splits)

lemma scored_distance:
  assumes "bundle_ok b" "c \<in> set (cohort_centroids b)" "\<forall>v \<in> set (variance c). wf_f64 v"
    and r: "standardize_and_retain raw b = Some (Some zs)" and sq: "mahalanobis_sq zs c = Some d"
  shows "is_finite (fsqrt d)" "0 \<le> fval (fsqrt d)"
    and "\<forall>v \<in> set (variance c). \<not> fle v fzero \<and> \<not> is_nan v"
    and "\<forall>i < projection_dim. \<not> degenerate_at (bundle_projection b) raw i"
    and "zs = centroid c \<longrightarrow> fval (fsqrt d) = 0"
proof -
  let ?p = "bundle_projection b"
  have len: "length (centroid c) = retained_dim ?p" "length (variance c) = retained_dim ?p"
    "length (retention_mask ?p) = projection_dim"
    using assms(1,2) by (auto simp: bundle_ok_def Let_def)
  have loop: "standardize_loop ?p raw [0..<projection_dim] = Some (Some zs)"
    using r by (simp add: standardize_and_retain_def)
  have d: "mahalanobis_loop fzero (zip zs (zip (centroid c) (variance c))) = Some d" "is_finite d"
    using sq by (auto simp: mahalanobis_sq_def split: option.splits if_splits)
  have lz: "length zs = retained_dim ?p"
    using standardize_loop_length [OF loop] len(3) retained_positions [of "retention_mask ?p"]
    by (simp add: retained_dim_def)
  show "is_finite (fsqrt d)" "0 \<le> fval (fsqrt d)" using mahalanobis_sq_bounds [OF sq assms(3)] by simp_all
  show "\<forall>i < projection_dim. \<not> degenerate_at ?p raw i" using standardize_loop_degenerate [OF loop] by simp
  show var: "\<forall>v \<in> set (variance c). \<not> fle v fzero \<and> \<not> is_nan v"
  proof
    fix v assume "v \<in> set (variance c)"
    then obtain k where "k < retained_dim ?p" "v = variance c ! k" using len(2) by (metis in_set_conv_nth)
    then have "(zs ! k, centroid c ! k, v) \<in> set (zip zs (zip (centroid c) (variance c)))"
      using lz len(1,2) by (auto simp: set_zip)
    then show "\<not> fle v fzero \<and> \<not> is_nan v" using d(1) by (rule mahalanobis_loop_positive [rotated])
  qed
  show "zs = centroid c \<longrightarrow> fval (fsqrt d) = 0"
  proof
    assume "zs = centroid c"
    moreover have "\<exists>s. mahalanobis_loop fzero (zip zs (zip zs (variance c))) = Some (Fin s 0)"
      using standardize_loop_finite [OF loop] var by (intro mahalanobis_loop_self) auto
    ultimately show "fval (fsqrt d) = 0" using d(1) by auto
  qed
qed

section \<open>Properties\<close>

text \<open>
  C20: the manifold scorer is total and fail-secure on a validated bundle. For any
  sixteen-element vector and any centroid of the bundle no index is out of range; the
  outcome is a distance, finite and not negative, or the degenerate-covariance reason; a
  distance is given only when every variance is positive and every retained position has
  a positive deviation and a value or an imputation; and a vector whose standardized form is
  the centroid itself is at distance zero.
\<close>

theorem scorer_total_and_fail_secure:
  assumes "bundle_ok b" "c \<in> set (cohort_centroids b)" "length raw = projection_dim"
    "\<forall>v \<in> set (variance c). wf_f64 v"
  shows "\<exists>out. score_mahalanobis raw b c = Some out
    \<and> (case out of
         ScoreUnavailable r \<Rightarrow> r = DegenerateCovariance
       | Distance d \<Rightarrow> is_finite d \<and> 0 \<le> fval d
           \<and> (\<forall>v \<in> set (variance c). \<not> fle v fzero \<and> \<not> is_nan v)
           \<and> (\<forall>i < projection_dim. \<not> degenerate_at (bundle_projection b) raw i)
           \<and> (standardize_and_retain raw b = Some (Some (centroid c)) \<longrightarrow> fval d = 0))"
proof -
  obtain r where r: "standardize_and_retain raw b = Some r" using standardize_total assms(1,3) by blast
  show ?thesis
  proof (cases "\<exists>zs d. r = Some zs \<and> mahalanobis_sq zs c = Some d")
    case True
    then obtain zs d where zs: "r = Some zs" and sq: "mahalanobis_sq zs c = Some d" by blast
    then have "score_mahalanobis raw b c = Some (Distance (fsqrt d))" using r by (simp add: score_mahalanobis_def)
    with scored_distance [OF assms(1,2,4) r [unfolded zs] sq] show ?thesis
      by (intro exI [of _ "Distance (fsqrt d)"]) (simp add: r zs)
  next
    case False
    then show ?thesis using r by (cases r) (auto simp: score_mahalanobis_def split: option.splits)
  qed
qed

lemma scorer_total_and_fail_secure_witness:
  "\<exists>d. score_mahalanobis (replicate 16 fone) (sample_bundle 600) (hd (cohort_centroids (sample_bundle 600))) = Some (Distance d)
     \<and> is_finite d \<and> fval d = 0"
proof -
  let ?c = "hd (cohort_centroids (sample_bundle 600))"
  have s: "standardize_and_retain (replicate 16 fone) (sample_bundle 600) = Some (Some (centroid ?c))"
    and m: "mahalanobis_sq (centroid ?c) ?c \<noteq> None"
    by code_simp+
  have "?c \<in> set (cohort_centroids (sample_bundle 600))" "length (replicate 16 fone) = projection_dim"
    "\<forall>v \<in> set (variance ?c). wf_f64 v"
    using exact_1 by (simp_all add: sample_bundle_def projection_dim_def exact_def)
  from scorer_total_and_fail_secure [OF sample_bundle_ok this] s m show ?thesis
    by (auto simp: score_mahalanobis_def)
qed

end
