(* ===== verification/Scores.thy ===== *)
theory Scores
  imports Scoring KeyMaps
begin

text \<open>
  The read side of scoring: the window aggregate of \<open>src/src/scores/aggregate.rs\<close> and the
  oracle of \<open>scores/oracle.rs\<close>, over the detection-event rows that the signing stage
  assembles. The counters are \<open>u32\<close> and wrap (the release build of the crate does not check
  overflow); the fire counts are a \<open>HashMap\<close>. The engine's \<open>get_detection_events\<close> is a
  parameter.
\<close>

section \<open>Rows and aggregate\<close>

datatype conformity_variant = VNumeric | VIndeterminate | VUnavailable

record detection_event =
  detection_id :: string
  ev_trace_id :: string
  body_sha256 :: bytes
  detector :: string
  ev_severity :: severity
  ev_cohort_cell :: json
  variant :: conformity_variant
  conformity_payload :: json
  lens_core_version :: string
  ratchet_version :: i32
  ev_canonical_bytes :: bytes
  ed25519_sig :: bytes
  ml_dsa_65_sig :: bytes
  signing_key_id :: string
  ev_ts :: instant

record severity_distribution =
  info :: u32
  warning :: u32
  critical :: u32

record agent_score_aggregate =
  window_start :: instant
  window_end :: instant
  traces_scored :: u32
  conformity_numeric :: u32
  conformity_indeterminate :: u32
  conformity_unavailable :: u32
  detector_fire_counts :: "(string, u32) hmap"
  severity_counts :: severity_distribution

definition empty_aggregate :: "instant \<Rightarrow> instant \<Rightarrow> agent_score_aggregate" where
  "empty_aggregate from to =
     \<lparr>window_start = from, window_end = to, traces_scored = 0, conformity_numeric = 0,
      conformity_indeterminate = 0, conformity_unavailable = 0, detector_fire_counts = [],
      severity_counts = \<lparr>info = 0, warning = 0, critical = 0\<rparr>\<rparr>"

definition count_event :: "detection_event \<Rightarrow> agent_score_aggregate \<Rightarrow> agent_score_aggregate" where
  "count_event e agg =
     (let agg1 = agg\<lparr>traces_scored := traces_scored agg + 1\<rparr>;
          agg2 = (case variant e of
              VNumeric \<Rightarrow> agg1\<lparr>conformity_numeric := conformity_numeric agg1 + 1\<rparr>
            | VIndeterminate \<Rightarrow> agg1\<lparr>conformity_indeterminate := conformity_indeterminate agg1 + 1\<rparr>
            | VUnavailable \<Rightarrow> agg1\<lparr>conformity_unavailable := conformity_unavailable agg1 + 1\<rparr>);
          sd = severity_counts agg2;
          agg3 = agg2\<lparr>severity_counts := (case ev_severity e of
              SevInfo \<Rightarrow> sd\<lparr>info := info sd + 1\<rparr>
            | SevWarning \<Rightarrow> sd\<lparr>warning := warning sd + 1\<rparr>
            | SevCritical \<Rightarrow> sd\<lparr>critical := critical sd + 1\<rparr>)\<rparr>;
          fires = detector_fire_counts agg3;
          old = (case hm_get fires (detector e) of None \<Rightarrow> 0 | Some c \<Rightarrow> c)
      in agg3\<lparr>detector_fire_counts := hm_put (detector e) (old + 1) fires\<rparr>)"

definition in_window ::
    "instant \<Rightarrow> instant \<Rightarrow> string list option \<Rightarrow> (detection_event \<Rightarrow> instant) \<Rightarrow> detection_event \<Rightarrow> bool" where
  "in_window from to allowed event_ts e =
     (\<not> (event_ts e < from \<or> event_ts e > to)
      \<and> (case allowed of None \<Rightarrow> True | Some ds \<Rightarrow> detector e \<in> set ds))"

definition compute_aggregate ::
    "detection_event list \<Rightarrow> instant \<Rightarrow> instant \<Rightarrow> string list option \<Rightarrow> (detection_event \<Rightarrow> instant) \<Rightarrow> agent_score_aggregate" where
  "compute_aggregate events from to allowed event_ts =
     fold (\<lambda>e agg. if in_window from to allowed event_ts e then count_event e agg else agg)
       events (empty_aggregate from to)"

section \<open>Oracle\<close>

record event_filter =
  by_trace :: "string option"
  by_detector :: "string option"
  since :: "instant option"

datatype oracle_error = OraclePersist string

type_synonym event_store = "event_filter \<Rightarrow> string + detection_event list"

definition for_trace :: "event_store \<Rightarrow> string \<Rightarrow> oracle_error + detection_event list" where
  "for_trace engine tid =
     map_err OraclePersist (engine \<lparr>by_trace = Some tid, by_detector = None, since = None\<rparr>)"

definition for_agent_window ::
    "event_store \<Rightarrow> instant \<Rightarrow> instant \<Rightarrow> string list option \<Rightarrow> oracle_error + agent_score_aggregate" where
  "for_agent_window engine from to allowed =
     rbind (map_err OraclePersist (engine \<lparr>by_trace = None, by_detector = None, since = Some from\<rparr>))
       (\<lambda>events. Inr (compute_aggregate events from to allowed ev_ts))"

definition detector_history ::
    "event_store \<Rightarrow> string \<Rightarrow> instant \<Rightarrow> severity \<Rightarrow> oracle_error + detection_event list" where
  "detector_history engine d from min_severity =
     rbind (map_err OraclePersist (engine \<lparr>by_trace = None, by_detector = Some d, since = Some from\<rparr>))
       (\<lambda>events. Inr (filter (\<lambda>e. severity_level (ev_severity e) \<ge> severity_level min_severity) events))"

section \<open>What the counters hold\<close>

abbreviation tally :: "('a \<Rightarrow> bool) \<Rightarrow> 'a list \<Rightarrow> u32" where
  "tally p xs \<equiv> of_nat (length (filter p xs))"

definition counts_of :: "detection_event list \<Rightarrow> agent_score_aggregate \<Rightarrow> bool" where
  "counts_of es agg \<longleftrightarrow>
     traces_scored agg = of_nat (length es)
     \<and> conformity_numeric agg = tally (\<lambda>e. variant e = VNumeric) es
     \<and> conformity_indeterminate agg = tally (\<lambda>e. variant e = VIndeterminate) es
     \<and> conformity_unavailable agg = tally (\<lambda>e. variant e = VUnavailable) es
     \<and> info (severity_counts agg) = tally (\<lambda>e. ev_severity e = SevInfo) es
     \<and> warning (severity_counts agg) = tally (\<lambda>e. ev_severity e = SevWarning) es
     \<and> critical (severity_counts agg) = tally (\<lambda>e. ev_severity e = SevCritical) es
     \<and> (\<forall>d. hm_get (detector_fire_counts agg) d =
          (if \<exists>e \<in> set es. detector e = d then Some (tally (\<lambda>e. detector e = d) es) else None))
     \<and> hm_inv (detector_fire_counts agg)"

lemma counts_of_empty: "counts_of [] (empty_aggregate from to)"
  by (simp add: counts_of_def empty_aggregate_def hm_get_def hm.inv_empty)

lemma tally_none: "\<not> (\<exists>e \<in> set es. p e) \<Longrightarrow> filter p es = []"
  by (auto simp: filter_empty_conv)

lemma count_event_fields:
  "traces_scored (count_event e agg) = traces_scored agg + 1"
  "conformity_numeric (count_event e agg) = conformity_numeric agg + of_bool (variant e = VNumeric)"
  "conformity_indeterminate (count_event e agg) = conformity_indeterminate agg + of_bool (variant e = VIndeterminate)"
  "conformity_unavailable (count_event e agg) = conformity_unavailable agg + of_bool (variant e = VUnavailable)"
  "info (severity_counts (count_event e agg)) = info (severity_counts agg) + of_bool (ev_severity e = SevInfo)"
  "warning (severity_counts (count_event e agg)) = warning (severity_counts agg) + of_bool (ev_severity e = SevWarning)"
  "critical (severity_counts (count_event e agg)) = critical (severity_counts agg) + of_bool (ev_severity e = SevCritical)"
  "detector_fire_counts (count_event e agg) =
     hm_put (detector e) ((case hm_get (detector_fire_counts agg) (detector e) of None \<Rightarrow> 0 | Some c \<Rightarrow> c) + 1)
       (detector_fire_counts agg)"
  "window_start (count_event e agg) = window_start agg" "window_end (count_event e agg) = window_end agg"
  by (simp_all add: count_event_def Let_def split: conformity_variant.splits severity.splits)

lemma counts_of_step:
  assumes "counts_of es agg"
  shows "counts_of (es @ [e]) (count_event e agg)"
proof -
  have inv: "hm_inv (detector_fire_counts agg)" using assms by (simp add: counts_of_def)
  show ?thesis
    using assms tally_none [of es "\<lambda>x. detector x = detector e"]
    unfolding counts_of_def count_event_fields hm.get_put [OF inv]
    by (auto simp: hm.inv_put)
qed

lemma counts_of_fold:
  "counts_of es agg \<Longrightarrow>
     counts_of (es @ filter p xs) (fold (\<lambda>e agg. if p e then count_event e agg else agg) xs agg)"
proof (induction xs arbitrary: es agg)
  case (Cons e xs)
  show ?case using Cons.IH [OF counts_of_step [OF Cons.prems, of e]] Cons by simp
qed simp

lemma window_fold:
  "window_start (fold (\<lambda>e agg. if p e then count_event e agg else agg) xs agg) = window_start agg
   \<and> window_end (fold (\<lambda>e agg. if p e then count_event e agg else agg) xs agg) = window_end agg"
  by (induction xs arbitrary: agg) (simp_all add: count_event_fields)

lemma partition3:
  "\<lbrakk>\<And>x. p x \<or> q x \<or> r x; \<And>x. \<not> (p x \<and> q x); \<And>x. \<not> (q x \<and> r x); \<And>x. \<not> (p x \<and> r x)\<rbrakk> \<Longrightarrow>
   tally p xs + tally q xs + tally r xs = of_nat (length xs)"
proof (induction xs)
  case (Cons x xs)
  then show ?case by (cases "p x"; cases "q x"; cases "r x") (auto simp: algebra_simps)
qed simp

section \<open>Properties\<close>

text \<open>
  C31: the aggregate counts exactly the events of the window. Its counters, at 32 bits, are
  the numbers of events with both bounds inclusive and an allowed detector, in total, by
  conformity variant, by severity and by detector (with no entry for a detector that never
  fired); the three conformity counters and the three severity counters each add up to the
  total.
\<close>

theorem aggregate_counts_window:
  "counts_of (filter (in_window from to allowed event_ts) events) (compute_aggregate events from to allowed event_ts)
   \<and> window_start (compute_aggregate events from to allowed event_ts) = from
   \<and> window_end (compute_aggregate events from to allowed event_ts) = to
   \<and> (let agg = compute_aggregate events from to allowed event_ts in
        conformity_numeric agg + conformity_indeterminate agg + conformity_unavailable agg = traces_scored agg
        \<and> info (severity_counts agg) + warning (severity_counts agg) + critical (severity_counts agg) = traces_scored agg)"
proof -
  define sel where "sel = filter (in_window from to allowed event_ts) events"
  define agg where "agg = compute_aggregate events from to allowed event_ts"
  have c: "counts_of sel agg"
    using counts_of_fold [OF counts_of_empty, of "in_window from to allowed event_ts" events "from" to]
    by (simp add: sel_def agg_def compute_aggregate_def)
  have "tally (\<lambda>e. variant e = VNumeric) sel + tally (\<lambda>e. variant e = VIndeterminate) sel
      + tally (\<lambda>e. variant e = VUnavailable) sel = of_nat (length sel)"
    by (rule partition3) (use conformity_variant.exhaust in auto)
  moreover have "tally (\<lambda>e. ev_severity e = SevInfo) sel + tally (\<lambda>e. ev_severity e = SevWarning) sel
      + tally (\<lambda>e. ev_severity e = SevCritical) sel = of_nat (length sel)"
    by (rule partition3) (use severity.exhaust in auto)
  moreover have "window_start agg = from" "window_end agg = to"
    by (simp_all add: agg_def compute_aggregate_def window_fold) (simp_all add: empty_aggregate_def)
  ultimately show ?thesis
    using c unfolding sel_def [symmetric] agg_def [symmetric] by (simp add: counts_of_def)
qed

text \<open>
  The history of a detector is the engine's answer cut at the severity: a failed read is
  the error, otherwise every returned event is at least as severe as asked, none such is
  missing, the order is kept, and a stricter threshold filters the laxer answer.
\<close>

theorem history_respects_severity:
  "case engine \<lparr>by_trace = None, by_detector = Some d, since = Some from\<rparr> of
     Inl msg \<Rightarrow> detector_history engine d from sev = Inl (OraclePersist msg)
   | Inr events \<Rightarrow>
       detector_history engine d from sev = Inr (filter (\<lambda>e. sev \<le> ev_severity e) events)
       \<and> (\<forall>lax hist. lax \<le> sev \<longrightarrow> detector_history engine d from lax = Inr hist \<longrightarrow>
            detector_history engine d from sev = Inr (filter (\<lambda>e. sev \<le> ev_severity e) hist))"
proof (cases "engine \<lparr>by_trace = None, by_detector = Some d, since = Some from\<rparr>")
  case (Inr events)
  then have h: "detector_history engine d from s = Inr (filter (\<lambda>e. s \<le> ev_severity e) events)" for s
    by (simp add: detector_history_def less_eq_severity_def)
  have "filter (\<lambda>e. sev \<le> ev_severity e) (filter (\<lambda>e. lax \<le> ev_severity e) events)
      = filter (\<lambda>e. sev \<le> ev_severity e) events" if "lax \<le> sev" for lax
    using that by (auto intro!: filter_cong)
  with Inr h show ?thesis by auto
qed (simp add: detector_history_def)

definition sample_event :: "severity \<Rightarrow> detection_event" where
  "sample_event sev = \<lparr>detection_id = ''d'', ev_trace_id = ''t'', body_sha256 = [], detector = ''m'',
     ev_severity = sev, ev_cohort_cell = JNull, variant = VNumeric, conformity_payload = JNull,
     lens_core_version = [], ratchet_version = 0, ev_canonical_bytes = [], ed25519_sig = [],
     ml_dsa_65_sig = [], signing_key_id = ''k'', ev_ts = 0\<rparr>"

lemma history_respects_severity_witness:
  "detector_history (\<lambda>_. Inr [sample_event SevInfo, sample_event SevCritical]) ''m'' 0 SevWarning
     = Inr [sample_event SevCritical]"
  using history_respects_severity
    [of "\<lambda>_. Inr [sample_event SevInfo, sample_event SevCritical]" "''m''" 0 SevWarning]
  by (simp add: less_eq_severity_def sample_event_def)

end
