(* ===== verification/Signing.thy ===== *)
theory Signing
  imports Scores
begin

text \<open>
  One signed detection event: \<open>src/src/signing/event.rs\<close>. The canonicalizer, hex, SHA-256,
  the RFC 3339 printer and persist's database strings of the two enums are the fields of
  \<open>signing_env\<close>; the local signer is a record of its two signing functions, which may fail,
  and its key id. The fresh identifier and the clock reading are arguments.
\<close>

section \<open>Inputs, prepared state and errors\<close>

record signing_env =
  se_canonicalize :: "json \<Rightarrow> string + bytes"
  se_hex :: "bytes \<Rightarrow> string"
  se_sha256 :: "bytes \<Rightarrow> bytes"
  se_rfc3339 :: "instant \<Rightarrow> string"
  se_severity :: "severity \<Rightarrow> string"
  se_variant :: "conformity_variant \<Rightarrow> string"

record hybrid_signer =
  hs_key_id :: string
  hs_ed25519 :: "bytes \<Rightarrow> string + bytes"
  hs_ml_dsa_65 :: "bytes \<Rightarrow> string + bytes"

datatype signing_error =
    SignCanonicalize string
  | SignLocal string
  | SignatureShape string nat nat

record detection_inputs =
  in_trace_id :: string
  in_body_sha256 :: bytes
  in_detector :: string
  in_severity :: severity
  in_cohort_cell :: json
  in_conformity :: conformity
  in_lens_core_version :: string
  in_ratchet_version :: i32
  in_evidence_refs :: "string list"

record prepared_detection =
  pd_id :: string
  pd_ts :: instant
  pd_bytes :: bytes
  pd_severity :: severity
  pd_variant :: conformity_variant
  pd_payload :: json
  pd_cohort_cell :: json

record summary =
  sm_detector :: string
  sm_severity :: severity
  sm_event_hash :: string

section \<open>Payloads\<close>

fun axis_family_str :: "axis_family \<Rightarrow> string" where
  "axis_family_str F3CorrelatedAction = ''f3_correlated_action''"
| "axis_family_str DistributiveAccess = ''distributive_access''"

fun indeterminate_payload :: "indeterminate_reason \<Rightarrow> json" where
  "indeterminate_payload CohortColdStart = jobject [(''reason'', JStr ''cohort_cold_start'')]"
| "indeterminate_payload (SampleSizeBelowGate current gate) =
     jobject [(''reason'', JStr ''sample_size_below_gate''), (''current'', j_of_u32 current), (''gate'', j_of_u32 gate)]"
| "indeterminate_payload InferredCohortAmbiguous = jobject [(''reason'', JStr ''inferred_cohort_ambiguous'')]"
| "indeterminate_payload (AxisAwaitingCalibration family) =
     jobject [(''reason'', JStr ''axis_awaiting_calibration''), (''family'', JStr (axis_family_str family))]"

text \<open>\<open>as_millis() as u64\<close>: whole milliseconds, truncated to 64 bits.\<close>

definition as_millis_u64 :: "duration \<Rightarrow> u64" where
  "as_millis_u64 d = of_int (d div 10 ^ 6)"

fun unavailable_payload :: "unavailable_reason \<Rightarrow> json" where
  "unavailable_payload (SloBreach budget observed) =
     jobject [(''reason'', JStr ''slo_breach''), (''budget_ms'', j_of_u64 (as_millis_u64 budget)),
              (''observed_ms'', j_of_u64 (as_millis_u64 observed))]"
| "unavailable_payload PersistReadFailure = jobject [(''reason'', JStr ''persist_read_failure'')]"
| "unavailable_payload (DetectorPanic d) =
     jobject [(''reason'', JStr ''detector_panic''), (''detector'', JStr d)]"
| "unavailable_payload LocalSignFailure = jobject [(''reason'', JStr ''local_sign_failure'')]"
| "unavailable_payload DegenerateCovariance = jobject [(''reason'', JStr ''degenerate_covariance'')]"

fun conformity_to_persist :: "conformity \<Rightarrow> conformity_variant \<times> json" where
  "conformity_to_persist (Numeric score) = (VNumeric, jobject [(''score'', j_of_f64 score)])"
| "conformity_to_persist (Indeterminate reason) = (VIndeterminate, indeterminate_payload reason)"
| "conformity_to_persist (Unavailable reason) = (VUnavailable, unavailable_payload reason)"

section \<open>Preparing, signing, assembling\<close>

definition j_of_i32 :: "i32 \<Rightarrow> json" where
  "j_of_i32 i = j_of_i64 (scast i)"

definition detection_envelope ::
    "signing_env \<Rightarrow> string \<Rightarrow> instant \<Rightarrow> detection_inputs \<Rightarrow> string \<Rightarrow> json" where
  "detection_envelope env uid now inputs key_id =
     (case conformity_to_persist (in_conformity inputs) of (var, payload) \<Rightarrow>
      jobject
       [(''detection_id'', JStr uid),
        (''trace_id'', JStr (in_trace_id inputs)),
        (''body_sha256_hex'', JStr (se_hex env (in_body_sha256 inputs))),
        (''detector'', JStr (in_detector inputs)),
        (''severity'', JStr (se_severity env (in_severity inputs))),
        (''cohort_cell'', in_cohort_cell inputs),
        (''conformity_variant'', JStr (se_variant env var)),
        (''conformity_payload'', payload),
        (''lens_core_version'', JStr (in_lens_core_version inputs)),
        (''ratchet_calibration_version'', j_of_i32 (in_ratchet_version inputs)),
        (''evidence_refs'', JArr (map JStr (in_evidence_refs inputs))),
        (''signing_key_id'', JStr key_id),
        (''ts'', JStr (se_rfc3339 env now))])"

definition prepare_detection ::
    "signing_env \<Rightarrow> string \<Rightarrow> instant \<Rightarrow> detection_inputs \<Rightarrow> string \<Rightarrow> signing_error + prepared_detection" where
  "prepare_detection env uid now inputs key_id =
     (case conformity_to_persist (in_conformity inputs) of (var, payload) \<Rightarrow>
      rbind (map_err SignCanonicalize (se_canonicalize env (detection_envelope env uid now inputs key_id))) (\<lambda>bytes.
      Inr \<lparr>pd_id = uid, pd_ts = now, pd_bytes = bytes, pd_severity = in_severity inputs,
           pd_variant = var, pd_payload = payload, pd_cohort_cell = in_cohort_cell inputs\<rparr>))"

definition assemble_event ::
    "signing_env \<Rightarrow> detection_inputs \<Rightarrow> prepared_detection \<Rightarrow> bytes \<Rightarrow> bytes \<Rightarrow> string \<Rightarrow>
       signing_error + detection_event \<times> summary" where
  "assemble_event env inputs pd ed ml key_id =
     (if length ed \<noteq> 64 then Inl (SignatureShape ''ed25519_sig'' (length ed) 64)
      else if length ml \<noteq> 3309 then Inl (SignatureShape ''ml_dsa_65_sig'' (length ml) 3309)
      else Inr
        (\<lparr>detection_id = pd_id pd, ev_trace_id = in_trace_id inputs, body_sha256 = in_body_sha256 inputs,
          detector = in_detector inputs, ev_severity = pd_severity pd, ev_cohort_cell = pd_cohort_cell pd,
          variant = pd_variant pd, conformity_payload = pd_payload pd,
          lens_core_version = in_lens_core_version inputs, ratchet_version = in_ratchet_version inputs,
          ev_canonical_bytes = pd_bytes pd, ed25519_sig = ed, ml_dsa_65_sig = ml,
          signing_key_id = key_id, ev_ts = pd_ts pd\<rparr>,
         \<lparr>sm_detector = in_detector inputs, sm_severity = in_severity inputs,
          sm_event_hash = se_hex env (se_sha256 env (pd_bytes pd))\<rparr>))"

definition sign_detection ::
    "signing_env \<Rightarrow> hybrid_signer \<Rightarrow> string \<Rightarrow> instant \<Rightarrow> detection_inputs \<Rightarrow> signing_error + detection_event \<times> summary" where
  "sign_detection env signer uid now inputs =
     rbind (prepare_detection env uid now inputs (hs_key_id signer)) (\<lambda>pd.
     rbind (map_err SignLocal (hs_ed25519 signer (pd_bytes pd))) (\<lambda>ed.
     rbind (map_err SignLocal (hs_ml_dsa_65 signer (pd_bytes pd @ ed))) (\<lambda>ml.
     assemble_event env inputs pd ed ml (hs_key_id signer))))"

section \<open>What a signed event says\<close>

text \<open>The row agrees with the envelope it was signed over.\<close>

definition event_states ::
    "signing_env \<Rightarrow> detection_event \<Rightarrow> detection_inputs \<Rightarrow> string \<Rightarrow> instant \<Rightarrow> string \<Rightarrow> bool" where
  "event_states env ev inputs uid now key_id \<longleftrightarrow>
     se_canonicalize env (detection_envelope env uid now inputs key_id) = Inr (ev_canonical_bytes ev)
     \<and> detection_id ev = uid \<and> ev_ts ev = now \<and> signing_key_id ev = key_id
     \<and> ev_trace_id ev = in_trace_id inputs \<and> body_sha256 ev = in_body_sha256 inputs
     \<and> detector ev = in_detector inputs \<and> ev_severity ev = in_severity inputs
     \<and> ev_cohort_cell ev = in_cohort_cell inputs
     \<and> (variant ev, conformity_payload ev) = conformity_to_persist (in_conformity inputs)
     \<and> lens_core_version ev = in_lens_core_version inputs \<and> ratchet_version ev = in_ratchet_version inputs
     \<and> length (ed25519_sig ev) = 64 \<and> length (ml_dsa_65_sig ev) = 3309"

lemma assemble_prepared:
  assumes "prepare_detection env uid now inputs key_id = Inr pd"
    "assemble_event env inputs pd ed ml key_id = Inr (ev, sm)"
  shows "event_states env ev inputs uid now key_id \<and> ed25519_sig ev = ed \<and> ml_dsa_65_sig ev = ml
     \<and> ev_canonical_bytes ev = pd_bytes pd \<and> sm_event_hash sm = se_hex env (se_sha256 env (ev_canonical_bytes ev))
     \<and> sm_severity sm = in_severity inputs \<and> sm_detector sm = in_detector inputs"
  using assms
  by (auto simp: prepare_detection_def assemble_event_def event_states_def rbind_eq_Inr_iff
      split: prod.splits if_splits)

lemma sign_detection_states:
  assumes "sign_detection env signer uid now inputs = Inr (ev, sm)"
  shows "event_states env ev inputs uid now (hs_key_id signer)
     \<and> hs_ed25519 signer (ev_canonical_bytes ev) = Inr (ed25519_sig ev)
     \<and> hs_ml_dsa_65 signer (ev_canonical_bytes ev @ ed25519_sig ev) = Inr (ml_dsa_65_sig ev)
     \<and> sm_event_hash sm = se_hex env (se_sha256 env (ev_canonical_bytes ev))
     \<and> sm_severity sm = in_severity inputs \<and> sm_detector sm = in_detector inputs"
  using assms unfolding sign_detection_def
  by (auto simp: rbind_eq_Inr_iff dest: assemble_prepared)

text \<open>What the code relies on: none of the printers and the canonicalizer loses information.\<close>

definition faithful_env :: "signing_env \<Rightarrow> bool" where
  "faithful_env env \<longleftrightarrow>
     (\<forall>x y b. se_canonicalize env x = Inr b \<longrightarrow> se_canonicalize env y = Inr b \<longrightarrow> x = y)
     \<and> inj (se_hex env) \<and> inj (se_rfc3339 env) \<and> inj (se_severity env) \<and> inj (se_variant env)"

lemma scast_i32_i64_inj: "(scast (a :: i32) :: i64) = scast b \<Longrightarrow> a = b"
proof -
  assume "(scast a :: i64) = scast b"
  then have "sint (scast a :: i64) = sint (scast b :: i64)" by simp
  then show "a = b" by (simp add: sint_up_scast is_up signed_word_eqI)
qed

lemma j_of_i32_inj: "j_of_i32 a = j_of_i32 b \<Longrightarrow> a = b"
  by (auto simp: j_of_i32_def j_of_i64_def dest: scast_i32_i64_inj split: if_splits)

lemma jget_detection_envelope:
  assumes "conformity_to_persist (in_conformity inputs) = (var, payload)"
  shows "jget (detection_envelope env uid now inputs key_id) k = map_of
       [(''detection_id'', JStr uid),
        (''trace_id'', JStr (in_trace_id inputs)),
        (''body_sha256_hex'', JStr (se_hex env (in_body_sha256 inputs))),
        (''detector'', JStr (in_detector inputs)),
        (''severity'', JStr (se_severity env (in_severity inputs))),
        (''cohort_cell'', in_cohort_cell inputs),
        (''conformity_variant'', JStr (se_variant env var)),
        (''conformity_payload'', payload),
        (''lens_core_version'', JStr (in_lens_core_version inputs)),
        (''ratchet_calibration_version'', j_of_i32 (in_ratchet_version inputs)),
        (''evidence_refs'', JArr (map JStr (in_evidence_refs inputs))),
        (''signing_key_id'', JStr key_id),
        (''ts'', JStr (se_rfc3339 env now))] k"
  unfolding detection_envelope_def assms prod.case by (rule jget_jobject) simp

section \<open>Properties\<close>

text \<open>
  C6: the hybrid signature binds the whole row. With a canonicalizer and printers that lose
  no information, two signed events with the same canonical bytes agree in every field
  except the two signatures, in their evidence references and in the hash their summaries
  report: no field of a signed row can be changed without changing what was signed.
\<close>

theorem detection_signature_binds:
  assumes "faithful_env env"
    "sign_detection env s1 u1 t1 i1 = Inr (ev1, sm1)"
    "sign_detection env s2 u2 t2 i2 = Inr (ev2, sm2)"
    "ev_canonical_bytes ev1 = ev_canonical_bytes ev2"
  shows "ev1\<lparr>ed25519_sig := x, ml_dsa_65_sig := y\<rparr> = ev2\<lparr>ed25519_sig := x, ml_dsa_65_sig := y\<rparr>
    \<and> in_evidence_refs i1 = in_evidence_refs i2 \<and> sm_event_hash sm1 = sm_event_hash sm2"
proof -
  note st1 = sign_detection_states [OF assms(2)] and st2 = sign_detection_states [OF assms(3)]
  obtain v1 p1 v2 p2 where c: "conformity_to_persist (in_conformity i1) = (v1, p1)"
      "conformity_to_persist (in_conformity i2) = (v2, p2)" by fastforce
  have env: "detection_envelope env u1 t1 i1 (hs_key_id s1) = detection_envelope env u2 t2 i2 (hs_key_id s2)"
    using assms(1,4) st1 st2 by (auto simp: faithful_env_def event_states_def)
  then have get: "jget (detection_envelope env u1 t1 i1 (hs_key_id s1)) k
      = jget (detection_envelope env u2 t2 i2 (hs_key_id s2)) k" for k by simp
  note get' = get [unfolded jget_detection_envelope [OF c(1)] jget_detection_envelope [OF c(2)]]
  have inj: "se_hex env b1 = se_hex env b2 \<Longrightarrow> b1 = b2" "se_rfc3339 env q1 = se_rfc3339 env q2 \<Longrightarrow> q1 = q2"
    "se_severity env r1 = se_severity env r2 \<Longrightarrow> r1 = r2" "se_variant env w1 = se_variant env w2 \<Longrightarrow> w1 = w2"
    for b1 b2 q1 q2 r1 r2 w1 w2
    using assms(1) by (auto simp: faithful_env_def dest: injD)
  have "u1 = u2" using get' [of "''detection_id''"] by simp
  moreover have "in_trace_id i1 = in_trace_id i2" using get' [of "''trace_id''"] by simp
  moreover have "in_body_sha256 i1 = in_body_sha256 i2" using get' [of "''body_sha256_hex''"] by (simp add: inj(1))
  moreover have "in_detector i1 = in_detector i2" using get' [of "''detector''"] by simp
  moreover have "in_severity i1 = in_severity i2" using get' [of "''severity''"] by (simp add: inj(3))
  moreover have "in_cohort_cell i1 = in_cohort_cell i2" using get' [of "''cohort_cell''"] by simp
  moreover have "v1 = v2" using get' [of "''conformity_variant''"] by (simp add: inj(4))
  moreover have "p1 = p2" using get' [of "''conformity_payload''"] by simp
  moreover have "in_lens_core_version i1 = in_lens_core_version i2" using get' [of "''lens_core_version''"] by simp
  moreover have "in_ratchet_version i1 = in_ratchet_version i2"
    using get' [of "''ratchet_calibration_version''"] by (simp add: j_of_i32_inj)
  moreover have "in_evidence_refs i1 = in_evidence_refs i2"
    using get' [of "''evidence_refs''"] by (simp add: inj_map_eq_map inj_def)
  moreover have "hs_key_id s1 = hs_key_id s2" using get' [of "''signing_key_id''"] by simp
  moreover have "t1 = t2" using get' [of "''ts''"] by (simp add: inj(2))
  ultimately show ?thesis
    using st1 st2 assms(4) c by (simp add: event_states_def)
qed

definition sample_inputs :: detection_inputs where
  "sample_inputs = \<lparr>in_trace_id = ''t'', in_body_sha256 = [1, 2], in_detector = ''manifold_conformity'',
     in_severity = SevInfo, in_cohort_cell = JNull, in_conformity = Indeterminate CohortColdStart,
     in_lens_core_version = ''0.5'', in_ratchet_version = 0, in_evidence_refs = []\<rparr>"

definition sample_env :: signing_env where
  "sample_env = \<lparr>se_canonicalize = \<lambda>x. Inl [],
     se_hex = map (\<lambda>b. char_of (unat b)), se_sha256 = \<lambda>b. b,
     se_rfc3339 = \<lambda>t. (if 0 \<le> t then CHR ''+'' else CHR ''-'') # show_nat (nat \<bar>t\<bar>),
     se_severity = \<lambda>s. show_nat (severity_level s),
     se_variant = \<lambda>v. (case v of VNumeric \<Rightarrow> ''n'' | VIndeterminate \<Rightarrow> ''i'' | VUnavailable \<Rightarrow> ''u'')\<rparr>"

definition sample_signer :: "u8 \<Rightarrow> hybrid_signer" where
  "sample_signer b = \<lparr>hs_key_id = ''k'', hs_ed25519 = \<lambda>m. Inr (replicate 64 b),
     hs_ml_dsa_65 = \<lambda>m. Inr (replicate 3309 b)\<rparr>"

lemma detection_signature_binds_witness:
  "\<exists>env ev1 sm1 ev2 sm2. sign_detection env (sample_signer 1) ''u'' 5 sample_inputs = Inr (ev1, sm1)
     \<and> sign_detection env (sample_signer 2) ''u'' 5 sample_inputs = Inr (ev2, sm2) \<and> ev1 \<noteq> ev2
     \<and> ev1\<lparr>ed25519_sig := [], ml_dsa_65_sig := []\<rparr> = ev2\<lparr>ed25519_sig := [], ml_dsa_65_sig := []\<rparr>"
proof -
  define x where "x = detection_envelope sample_env ''u'' 5 sample_inputs ''k''"
  define env where "env = sample_env\<lparr>se_canonicalize := \<lambda>v. if v = x then Inr [1] else Inl []\<rparr>"
  have e: "detection_envelope env ''u'' 5 sample_inputs ''k'' = x"
    by (simp add: x_def env_def detection_envelope_def)
  have "inj (se_hex env)"
    by (auto simp: env_def sample_env_def intro!: injI list.inj_map_strong dest: inj_byte_char)
  moreover have "inj (se_rfc3339 env)"
    by (auto simp: env_def sample_env_def intro!: injI dest!: inj_show_nat split: if_splits)
  moreover have "inj (se_severity env)"
    by (auto simp: env_def sample_env_def intro!: injI dest!: inj_show_nat severity_level_inj)
  moreover have "inj (se_variant env)"
    by (auto simp: env_def sample_env_def intro!: injI split: conformity_variant.splits)
  ultimately have f: "faithful_env env" by (auto simp: faithful_env_def env_def split: if_splits)
  have sign: "\<exists>ev sm. sign_detection env (sample_signer b) ''u'' 5 sample_inputs = Inr (ev, sm)
      \<and> ev_canonical_bytes ev = [1] \<and> ed25519_sig ev = replicate 64 b" for b
    using e by (simp add: sign_detection_def prepare_detection_def assemble_event_def sample_signer_def)
      (simp add: env_def sample_inputs_def)
  obtain ev1 sm1 where 1: "sign_detection env (sample_signer 1) ''u'' 5 sample_inputs = Inr (ev1, sm1)"
      "ev_canonical_bytes ev1 = [1]" "ed25519_sig ev1 = replicate 64 1" using sign by blast
  obtain ev2 sm2 where 2: "sign_detection env (sample_signer 2) ''u'' 5 sample_inputs = Inr (ev2, sm2)"
      "ev_canonical_bytes ev2 = [1]" "ed25519_sig ev2 = replicate 64 2" using sign by blast
  have "ev1 \<noteq> ev2" using 1(3) 2(3) by auto
  with detection_signature_binds [OF f 1(1) 2(1), of "[]" "[]"] 1 2 show ?thesis by auto
qed

end
