(* ===== verification/Machines.thy ===== *)
theory Machines
  imports LensPrelude
begin

text \<open>
  Components that consume a sequence of inputs, each step returning the new state and one
  output. Two contracts: \<open>reactive\<close> (an invariant, and a guarantee on each output) and
  \<open>keyed_machine\<close> (the inputs of one key act on the view of that key alone). The stateful
  components interpret them; their stream properties are the facts proved here.
\<close>

fun run :: "('i \<Rightarrow> 's \<Rightarrow> 's \<times> 'o) \<Rightarrow> 'i list \<Rightarrow> 's \<Rightarrow> 's \<times> 'o list" where
  "run step [] s = (s, [])"
| "run step (i # is) s =
     (case step i s of (s1, out) \<Rightarrow> case run step is s1 of (s2, outs) \<Rightarrow> (s2, out # outs))"

lemma length_run: "length (snd (run step is s)) = length is"
  by (induction "is" arbitrary: s) (auto split: prod.splits, metis snd_conv)

lemma run_append:
  "run step (is @ js) s =
     (case run step is s of (s1, os) \<Rightarrow> case run step js s1 of (s2, ps) \<Rightarrow> (s2, os @ ps))"
  by (induction "is" arbitrary: s) (auto split: prod.splits)

locale reactive =
  fixes step :: "'i \<Rightarrow> 's \<Rightarrow> 's \<times> 'o"
    and inv :: "'s \<Rightarrow> bool"
    and good :: "'i \<Rightarrow> 'o \<Rightarrow> bool"
  assumes step_inv: "inv s \<Longrightarrow> step i s = (s', out) \<Longrightarrow> inv s'"
    and step_good: "inv s \<Longrightarrow> step i s = (s', out) \<Longrightarrow> good i out"
begin

lemma run_inv: "inv s \<Longrightarrow> run step is s = (s', outs) \<Longrightarrow> inv s'"
  by (induction "is" arbitrary: s s' outs) (auto split: prod.splits dest: step_inv)

lemma run_good: "inv s \<Longrightarrow> run step is s = (s', outs) \<Longrightarrow> list_all2 good is outs"
  by (induction "is" arbitrary: s s' outs) (auto split: prod.splits dest: step_inv step_good)

lemma run_zip_good: "inv s \<Longrightarrow> run step is s = (s', outs) \<Longrightarrow> (i, out) \<in> set (zip is outs) \<Longrightarrow> good i out"
  using run_good by (fastforce simp: list_all2_iff)

end

text \<open>The outputs of the inputs with key \<open>k\<close>.\<close>

definition outputs_of :: "('i \<Rightarrow> 'k) \<Rightarrow> 'k \<Rightarrow> 'i list \<Rightarrow> 'o list \<Rightarrow> 'o list" where
  "outputs_of key k is outs = map snd (filter (\<lambda>(i, _). key i = k) (zip is outs))"

definition inputs_of :: "('i \<Rightarrow> 'k) \<Rightarrow> 'k \<Rightarrow> 'i list \<Rightarrow> 'i list" where
  "inputs_of key k is = filter (\<lambda>i. key i = k) is"

lemma inputs_of_idem [simp]: "inputs_of key k (inputs_of key k is) = inputs_of key k is"
  by (simp add: inputs_of_def)

locale keyed_machine =
  fixes step :: "'i \<Rightarrow> 's \<Rightarrow> 's \<times> 'o"
    and ok :: "'s \<Rightarrow> bool"
    and key :: "'i \<Rightarrow> 'k"
    and view :: "'s \<Rightarrow> 'k \<Rightarrow> 'v"
    and vstep :: "'i \<Rightarrow> 'v \<Rightarrow> 'v \<times> 'o"
  assumes step_ok: "ok s \<Longrightarrow> step i s = (s', out) \<Longrightarrow> ok s'"
    and step_own: "ok s \<Longrightarrow> step i s = (s', out) \<Longrightarrow> vstep i (view s (key i)) = (view s' (key i), out)"
    and step_other: "ok s \<Longrightarrow> step i s = (s', out) \<Longrightarrow> k \<noteq> key i \<Longrightarrow> view s' k = view s k"
begin

text \<open>The run of the whole machine, projected to one key, is the run of the view.\<close>

lemma run_projects:
  "ok s \<Longrightarrow> run step is s = (s', outs) \<Longrightarrow>
     run vstep (inputs_of key k is) (view s k) = (view s' k, outputs_of key k is outs)"
proof (induction "is" arbitrary: s s' outs)
  case (Cons i "is")
  obtain s1 out where 1: "step i s = (s1, out)" by fastforce
  obtain outs' where 2: "run step is s1 = (s', outs')" "outs = out # outs'"
    using Cons.prems(2) by (auto simp: 1 split: prod.splits)
  have IH: "run vstep (inputs_of key k is) (view s1 k) = (view s' k, outputs_of key k is outs')"
    by (rule Cons.IH [OF step_ok [OF Cons.prems(1) 1] 2(1)])
  show ?case
  proof (cases "key i = k")
    case True
    with IH step_own [OF Cons.prems(1) 1] show ?thesis
      by (auto simp: 2 inputs_of_def outputs_of_def)
  next
    case False
    with IH step_other [OF Cons.prems(1) 1] show ?thesis
      by (auto simp: 2 inputs_of_def outputs_of_def)
  qed
qed (simp add: inputs_of_def outputs_of_def)

lemma keys_isolated:
  assumes "ok s" "run step is s = (s1, outs1)" "run step (inputs_of key k is) s = (s2, outs2)"
  shows "outputs_of key k is outs1 = outputs_of key k (inputs_of key k is) outs2 \<and> view s1 k = view s2 k"
  using run_projects [OF assms(1,2), of k] run_projects [OF assms(1,3), of k] by simp

end

end
