(* ===== verification/Pipeline.thy ===== *)
theory Pipeline
  imports Manifold Signing Machines
begin

text \<open>
  The per-trace pipeline of \<open>src/src/pipeline/lifecycle.rs\<close> (\<open>LensCore::process\<close>) and the
  batch entry of \<open>ffi/pyo3.rs\<close> (\<open>process_trace_batch\<close>, \<open>process_one\<close>). The JSON parser,
  persist's feature extractor and the host engine are parameters; fresh identifiers and
  clock readings are arguments. The outer option of \<open>process\<close> is a panic (an index out of
  range in an unvalidated bundle).
\<close>

section \<open>The per-trace pipeline\<close>

record verified_trace =
  vt_body :: string
  vt_body_sha256 :: bytes

record lens_core =
  lc_signer :: hybrid_signer
  lc_bundle :: "calibration_bundle option"

record pipeline_env =
  pe_signing :: signing_env
  pe_parse :: "string \<Rightarrow> string + json"
  pe_extract :: "json \<Rightarrow> declared_axes \<Rightarrow> features"
  pe_version :: string

record score =
  sc_conformity :: conformity
  sc_cohort_id :: string
  sc_version :: string
  sc_events :: "summary list"

record outcome =
  oc_score :: score
  oc_event :: detection_event

datatype process_error =
    ParseBody string
  | MissingTraceId
  | ProcessSign signing_error

definition lens_new :: "hybrid_signer \<Rightarrow> lens_core" where
  "lens_new signer = \<lparr>lc_signer = signer, lc_bundle = None\<rparr>"

definition with_calibration_bundle :: "calibration_bundle \<Rightarrow> lens_core \<Rightarrow> lens_core" where
  "with_calibration_bundle b lc = lc\<lparr>lc_bundle := Some b\<rparr>"

definition assembly_input_from_bundle ::
    "calibration_bundle option \<Rightarrow> json \<Rightarrow> f64 list \<Rightarrow> (unavailable_reason + assembly_input) option" where
  "assembly_input_from_bundle bundle cell raw =
     (case bundle of
        None \<Rightarrow> Some (Inr InputColdStart)
      | Some b \<Rightarrow>
          (case lookup_cohort b cell of
             None \<Rightarrow> Some (Inr InputColdStart)
           | Some c \<Rightarrow>
               let current = u32_try_from_or_max (sample_count c) in
               if current < sample_size_gate b
               then Some (Inr (BundleSampleBelowGate current (sample_size_gate b)))
               else map_option (\<lambda>r. rbind r (\<lambda>detection.
                   (case detection of
                      ManifoldHit d n \<Rightarrow> Inr (Scored d n)
                    | _ \<Rightarrow> Inr InputColdStart))) (detect_manifold raw b c)))"

fun severity_from :: "conformity \<Rightarrow> severity" where
  "severity_from (Numeric _) = SevInfo"
| "severity_from (Indeterminate _) = SevInfo"
| "severity_from (Unavailable _) = SevWarning"

definition or_question :: "string option \<Rightarrow> string" where
  "or_question x = (case x of None \<Rightarrow> ''?'' | Some s \<Rightarrow> s)"

definition format_cohort_id :: "declared_axes \<Rightarrow> string" where
  "format_cohort_id d =
     or_question (agent_role d) @ ''/'' @ or_question (agent_template d) @ ''/''
     @ or_question (deployment_domain d) @ ''/'' @ or_question (deployment_type d) @ ''/''
     @ or_question (deployment_region d) @ ''/'' @ or_question (deployment_trust_mode d)"

definition inputs_for ::
    "pipeline_env \<Rightarrow> verified_trace \<Rightarrow> string \<Rightarrow> json \<Rightarrow> i32 \<Rightarrow> conformity \<Rightarrow> detection_inputs" where
  "inputs_for env tr tid cell ver conf =
     \<lparr>in_trace_id = tid, in_body_sha256 = vt_body_sha256 tr, in_detector = ''manifold_conformity'',
      in_severity = severity_from conf, in_cohort_cell = cell, in_conformity = conf,
      in_lens_core_version = pe_version env, in_ratchet_version = ver, in_evidence_refs = []\<rparr>"

text \<open>Steps 9 on of \<open>process\<close>, and the same block of its early return.\<close>

definition sign_outcome ::
    "pipeline_env \<Rightarrow> lens_core \<Rightarrow> string \<Rightarrow> instant \<Rightarrow> verified_trace \<Rightarrow> string \<Rightarrow> features \<Rightarrow> json \<Rightarrow> i32 \<Rightarrow> conformity \<Rightarrow>
       process_error + outcome" where
  "sign_outcome env lc uid now tr tid feats cell ver conf =
     rbind (map_err ProcessSign
              (sign_detection (pe_signing env) (lc_signer lc) uid now (inputs_for env tr tid cell ver conf)))
       (\<lambda>(event, summary).
          Inr \<lparr>oc_score = \<lparr>sc_conformity = conf, sc_cohort_id = format_cohort_id (declared feats),
                           sc_version = pe_version env, sc_events = [summary]\<rparr>,
               oc_event = event\<rparr>)"

definition process ::
    "pipeline_env \<Rightarrow> lens_core \<Rightarrow> string \<Rightarrow> instant \<Rightarrow> verified_trace \<Rightarrow> u32 \<Rightarrow> i32 \<Rightarrow> (process_error + outcome) option" where
  "process env lc uid now tr gate ver =
     (case pe_parse env (vt_body tr) of
        Inl e \<Rightarrow> Some (Inl (ParseBody e))
      | Inr body \<Rightarrow>
          (case (case jget body ''trace_id'' of None \<Rightarrow> None | Some v \<Rightarrow> as_str v) of
             None \<Rightarrow> Some (Inl MissingTraceId)
           | Some tid \<Rightarrow>
               let declared = parse_from_envelope body;
                   feats = pe_extract env body declared;
                   raw = project feats;
                   cell = cohort_cell declared;
                   eff_gate = (case lc_bundle lc of Some b \<Rightarrow> sample_size_gate b | None \<Rightarrow> gate);
                   eff_ver = (case lc_bundle lc of Some b \<Rightarrow> ratchet_calibration_version b | None \<Rightarrow> ver) in
               (case (case detect feats of
                        NoDetection \<Rightarrow> assembly_input_from_bundle (lc_bundle lc) cell raw
                      | ManifoldHit d n \<Rightarrow> Some (Inr (Scored d n))
                      | DeclaredInferredMismatch _ _ \<Rightarrow> Some (Inr AmbiguousCohort)) of
                  None \<Rightarrow> None
                | Some (Inl reason) \<Rightarrow>
                    Some (sign_outcome env lc uid now tr tid feats cell eff_ver (Unavailable reason))
                | Some (Inr input) \<Rightarrow>
                    Some (sign_outcome env lc uid now tr tid feats cell eff_ver (assemble input eff_gate)))))"

section \<open>The batch entry\<close>

text \<open>
  The host engine behind Python: its answers may depend on its state. The events it accepted
  are recorded with the state.
\<close>

record 'e host_engine =
  he_key_id :: "'e \<Rightarrow> (string + string) \<times> 'e"
  he_sign :: "bytes \<Rightarrow> 'e \<Rightarrow> (string + bytes) \<times> 'e"
  he_pqc_sign :: "bytes \<Rightarrow> 'e \<Rightarrow> (string + bytes) \<times> 'e"
  he_put :: "detection_event \<Rightarrow> 'e \<Rightarrow> (string + unit) \<times> 'e"

record 'e host_state =
  host :: 'e
  accepted :: "detection_event list"

record per_trace_summary =
  pt_detection_id :: string
  pt_trace_id :: string
  pt_severity :: string

record batch_result =
  br_batch_id :: string
  br_received :: nat
  br_processed :: nat
  br_detections :: "per_trace_summary list"

text \<open>\<open>?\<close> on a stateful call: the error keeps the state reached.\<close>

definition sbind :: "('x + 'a) \<times> 's \<Rightarrow> ('a \<Rightarrow> 's \<Rightarrow> ('x + 'b) \<times> 's) \<Rightarrow> ('x + 'b) \<times> 's" where
  "sbind r f = (case r of (Inl e, s) \<Rightarrow> (Inl e, s) | (Inr a, s) \<Rightarrow> f a s)"

definition on_host :: "('e \<Rightarrow> 'r \<times> 'e) \<Rightarrow> 'e host_state \<Rightarrow> 'r \<times> 'e host_state" where
  "on_host f st = (case f (host st) of (r, h) \<Rightarrow> (r, st\<lparr>host := h\<rparr>))"

fun severity_str :: "severity \<Rightarrow> string" where
  "severity_str SevInfo = ''info''"
| "severity_str SevWarning = ''warning''"
| "severity_str SevCritical = ''critical''"

definition process_one ::
    "pipeline_env \<Rightarrow> (string \<Rightarrow> string + bytes) \<Rightarrow> 'e host_engine \<Rightarrow> string \<Rightarrow> string \<Rightarrow> instant \<Rightarrow> string \<Rightarrow>
       'e host_state \<Rightarrow> (string + per_trace_summary) \<times> 'e host_state" where
  "process_one env body_sha eng key_id uid now event_json st =
     sbind (map_err (\<lambda>e. ''invalid trace JSON: '' @ e) (pe_parse env event_json), st) (\<lambda>body st.
     sbind ((case (case jget body ''trace_id'' of None \<Rightarrow> None | Some v \<Rightarrow> as_str v) of
               None \<Rightarrow> Inl ''missing trace_id'' | Some tid \<Rightarrow> Inr tid), st) (\<lambda>tid st.
     sbind (map_err (\<lambda>e. ''invalid trace RawValue: '' @ e) (body_sha event_json), st) (\<lambda>sha st.
     let declared = parse_from_envelope body;
         feats = pe_extract env body declared;
         cell = cohort_cell declared;
         input = (case detect feats of
                    NoDetection \<Rightarrow> InputColdStart
                  | ManifoldHit d n \<Rightarrow> Scored d n
                  | DeclaredInferredMismatch _ _ \<Rightarrow> AmbiguousCohort);
         conf = assemble input 500;
         inputs = inputs_for env \<lparr>vt_body = event_json, vt_body_sha256 = sha\<rparr> tid cell 0 conf in
     sbind (map_err (\<lambda>_. ''prepare'') (prepare_detection (pe_signing env) uid now inputs key_id), st) (\<lambda>pd st.
     sbind (on_host (he_sign eng (pd_bytes pd)) st) (\<lambda>ed st.
     sbind (on_host (he_pqc_sign eng (pd_bytes pd @ ed)) st) (\<lambda>ml st.
     sbind (map_err (\<lambda>_. ''assemble'') (assemble_event (pe_signing env) inputs pd ed ml key_id), st) (\<lambda>(event, _) st.
     sbind (on_host (he_put eng event) st) (\<lambda>_ st.
     (Inr \<lparr>pt_detection_id = detection_id event, pt_trace_id = tid, pt_severity = severity_str (severity_from conf)\<rparr>,
      st\<lparr>accepted := accepted st @ [event]\<rparr>)))))))))"

text \<open>The loop of \<open>process_trace_batch\<close>: an error of one trace is reported and skipped.\<close>

fun batch_loop ::
    "('i \<Rightarrow> 's \<Rightarrow> (string + per_trace_summary) \<times> 's) \<Rightarrow> 'i list \<Rightarrow> 's \<Rightarrow> per_trace_summary list \<times> 's" where
  "batch_loop step [] st = ([], st)"
| "batch_loop step (e # es) st =
     (case step e st of
        (Inr summary, st1) \<Rightarrow> (case batch_loop step es st1 of (ds, st2) \<Rightarrow> (summary # ds, st2))
      | (Inl _, st1) \<Rightarrow> batch_loop step es st1)"

definition process_trace_batch ::
    "pipeline_env \<Rightarrow> (string \<Rightarrow> string + bytes) \<Rightarrow> 'e host_engine \<Rightarrow> string \<Rightarrow> (nat \<Rightarrow> string \<times> instant) \<Rightarrow> string list \<Rightarrow>
       'e host_state \<Rightarrow> (string + batch_result) \<times> 'e host_state" where
  "process_trace_batch env body_sha eng batch_id fresh events st =
     sbind (on_host (he_key_id eng) st) (\<lambda>key_id st.
     case batch_loop (\<lambda>((uid, now), e). process_one env body_sha eng key_id uid now e)
            (zip (map fresh [0..<length events]) events) st of
       (ds, st) \<Rightarrow>
         (Inr \<lparr>br_batch_id = batch_id, br_received = length events, br_processed = length ds, br_detections = ds\<rparr>, st))"

text \<open>A computation that returned without an error passed its first step without one.\<close>

lemma sbind_cases:
  assumes "sbind r f = (x, s)"
  obtains (err) e where "r = (Inl e, s)" "x = Inl e" | (ok) a s1 where "r = (Inr a, s1)" "f a s1 = (x, s)"
  using assms by (auto simp: sbind_def split: prod.splits sum.splits)

lemma on_host_accepted: "on_host f st = (r, st1) \<Longrightarrow> accepted st1 = accepted st \<and> f (host st) = (r, host st1)"
  by (auto simp: on_host_def split: prod.splits)

definition cold_inputs :: "pipeline_env \<Rightarrow> string \<Rightarrow> bytes \<Rightarrow> json \<Rightarrow> string \<Rightarrow> detection_inputs" where
  "cold_inputs env event_json sha body tid =
     inputs_for env \<lparr>vt_body = event_json, vt_body_sha256 = sha\<rparr> tid (cohort_cell (parse_from_envelope body)) 0
       (Indeterminate CohortColdStart)"

text \<open>A trace of a batch either leaves the accepted events as they were or adds the one it reports.\<close>

lemma process_one_cases:
  assumes "process_one env body_sha eng key_id uid now event_json st = (r, st1)"
  obtains (skipped) e where "r = Inl e" "accepted st1 = accepted st"
  | (accepted) body tid sha pd ed ml ev sm h1 h2 h3 where
      "pe_parse env event_json = Inr body" "jget body ''trace_id'' = Some (JStr tid)" "body_sha event_json = Inr sha"
      "prepare_detection (pe_signing env) uid now (cold_inputs env event_json sha body tid) key_id = Inr pd"
      "he_sign eng (pd_bytes pd) (host st) = (Inr ed, h1)" "he_pqc_sign eng (pd_bytes pd @ ed) h1 = (Inr ml, h2)"
      "assemble_event (pe_signing env) (cold_inputs env event_json sha body tid) pd ed ml key_id = Inr (ev, sm)"
      "he_put eng ev h2 = (Inr (), h3)" "accepted st1 = accepted st @ [ev]"
      "r = Inr \<lparr>pt_detection_id = detection_id ev, pt_trace_id = tid, pt_severity = ''info''\<rparr>"
proof -
  have tid: "as_str v = Some s \<Longrightarrow> v = JStr s" for v s by (cases v) simp_all
  from assms show thesis
    unfolding process_one_def detect_def detection_result.case assemble.simps severity_from.simps
      severity_str.simps Let_def cold_inputs_def [symmetric]
    by (elim sbind_cases)
      (auto dest!: on_host_accepted tid intro: skipped split: option.splits prod.splits
        simp: map_err_eq_Inl_iff, elim sbind_cases, auto dest!: on_host_accepted intro: skipped accepted)
qed

section \<open>The outcome of one trace\<close>

lemma sign_outcomeD:
  assumes "sign_outcome env lc uid now tr tid feats cell ver conf = Inr out"
  shows "sc_conformity (oc_score out) = conf
    \<and> event_states (pe_signing env) (oc_event out) (inputs_for env tr tid cell ver conf) uid now (hs_key_id (lc_signer lc))
    \<and> (\<exists>sm. sc_events (oc_score out) = [sm] \<and> sm_severity sm = severity_from conf
        \<and> sm_event_hash sm = se_hex (pe_signing env) (se_sha256 (pe_signing env) (ev_canonical_bytes (oc_event out))))"
  using assms by (auto simp: sign_outcome_def rbind_eq_Inr_iff inputs_for_def dest!: sign_detection_states)

text \<open>The conformity of a trace, as the bundle decides it; \<open>None\<close> is the panic.\<close>

definition verdict :: "calibration_bundle option \<Rightarrow> json \<Rightarrow> f64 list \<Rightarrow> conformity option" where
  "verdict bundle cell raw =
     (case bundle of
        None \<Rightarrow> Some (Indeterminate CohortColdStart)
      | Some b \<Rightarrow>
          (case lookup_cohort b cell of
             None \<Rightarrow> Some (Indeterminate CohortColdStart)
           | Some c \<Rightarrow>
               let n = u32_try_from_or_max (sample_count c) in
               if n < sample_size_gate b then Some (Indeterminate (SampleSizeBelowGate n (sample_size_gate b)))
               else map_option (\<lambda>out. case out of Distance d \<Rightarrow> Numeric d | ScoreUnavailable r \<Rightarrow> Unavailable r)
                      (score_mahalanobis raw b c)))"

text \<open>\<open>process\<close> parses, decides the verdict, and signs it.\<close>

lemma process_is_signed_verdict:
  assumes "pe_parse env (vt_body tr) = Inr body" "jget body ''trace_id'' = Some (JStr tid)"
  defines "axes \<equiv> parse_from_envelope body"
  defines "feats \<equiv> pe_extract env body axes"
  shows "process env lc uid now tr gate ver =
     map_option (sign_outcome env lc uid now tr tid feats (cohort_cell axes)
         (case lc_bundle lc of Some b \<Rightarrow> ratchet_calibration_version b | None \<Rightarrow> ver))
       (verdict (lc_bundle lc) (cohort_cell axes) (project feats))"
proof (cases "lc_bundle lc")
  case None
  with assms show ?thesis
    by (simp add: process_def Let_def detect_def assembly_input_from_bundle_def verdict_def)
next
  case (Some b)
  show ?thesis
  proof (cases "lookup_cohort b (cohort_cell axes)")
    case None
    with Some assms show ?thesis
      by (simp add: process_def Let_def detect_def assembly_input_from_bundle_def verdict_def)
  next
    case (Some c)
    with \<open>lc_bundle lc = Some b\<close> assms show ?thesis
      by (cases "score_mahalanobis (project feats) b c"; cases "the (score_mahalanobis (project feats) b c)")
        (simp_all add: process_def Let_def detect_def assembly_input_from_bundle_def verdict_def detect_manifold_def)
  qed
qed

lemma process_cases:
  obtains (rejected) e where "process env lc uid now tr gate ver = Some (Inl e)"
  | (read) body tid where "pe_parse env (vt_body tr) = Inr body" "jget body ''trace_id'' = Some (JStr tid)"
proof (cases "pe_parse env (vt_body tr)")
  case (Inr body)
  show thesis
  proof (cases "\<exists>tid. jget body ''trace_id'' = Some (JStr tid)")
    case False
    then have "(case jget body ''trace_id'' of None \<Rightarrow> None | Some v \<Rightarrow> as_str v) = None"
      by (cases "jget body ''trace_id''"; cases "the (jget body ''trace_id'')") auto
    with Inr rejected show thesis by (simp add: process_def)
  qed (use Inr read in blast)
qed (use rejected in \<open>simp add: process_def\<close>)

lemma u32_try_ge: "\<not> u32_try_from_or_max n < g \<Longrightarrow> unat g \<le> unat n"
  by (simp add: word_less_nat_alt unat_u32_try_from_or_max not_less)

lemma verdict_total:
  assumes "\<And>b. bundle = Some b \<Longrightarrow> bundle_ok b" "length raw = projection_dim"
  shows "\<exists>v. verdict bundle cell raw = Some v"
proof (cases "bundle")
  case (Some b)
  with assms score_total show ?thesis by (auto simp: verdict_def Let_def split: option.split)
qed (simp add: verdict_def)

lemma verdict_numeric:
  assumes "verdict bundle cell raw = Some (Numeric d)"
  obtains b c where "bundle = Some b" "c \<in> set (cohort_centroids b)" "cohort c = cell"
    "unat (sample_size_gate b) \<le> unat (sample_count c)" "score_mahalanobis raw b c = Some (Distance d)"
proof -
  obtain b c z where b: "bundle = Some b" and c: "lookup_cohort b cell = Some c"
    and n: "\<not> u32_try_from_or_max (sample_count c) < sample_size_gate b"
    and z: "score_mahalanobis raw b c = Some z" "(case z of Distance d \<Rightarrow> Numeric d | ScoreUnavailable r \<Rightarrow> Unavailable r) = Numeric d"
    using assms by (auto simp: verdict_def Let_def split: option.splits if_splits)
  from z have "score_mahalanobis raw b c = Some (Distance d)" by (cases z) simp_all
  with b c n show thesis using that lookup_cohortD [OF c] u32_try_ge by blast
qed

lemma variant_numeric: "fst (conformity_to_persist x) = VNumeric \<longleftrightarrow> (\<exists>d. x = Numeric d)"
  by (cases x) simp_all

section \<open>A concrete environment\<close>

definition sample_body :: json where
  "sample_body = jobject [(''trace_id'', JStr ''t''),
     (''deployment_profile'', jobject [(''agent_role'', JStr ''ally'')])]"

definition sample_penv :: pipeline_env where
  "sample_penv = \<lparr>
     pe_signing = sample_env\<lparr>se_canonicalize := \<lambda>_. Inr [1]\<rparr>,
     pe_parse = \<lambda>s. (if s = [] then Inl ''empty'' else Inr sample_body),
     pe_extract = \<lambda>body axes. \<lparr>declared = axes, component_blobs =
       [(''dma_results'', jobject [(''csdma'', jobject [(''plausibility_score'', JNum (PosInt 1))])])]\<rparr>,
     pe_version = ''0.5''\<rparr>"

definition sample_cell :: json where
  "sample_cell = cohort_cell (parse_from_envelope sample_body)"

definition celled_bundle :: calibration_bundle where
  "celled_bundle = (sample_bundle 600)\<lparr>cohort_centroids := [\<lparr>cohort = sample_cell, centroid = [fone],
     variance = [fone], sample_count = 600, above_sample_size_gate = True\<rparr>]\<rparr>"

definition sample_trace :: verified_trace where
  "sample_trace = \<lparr>vt_body = ''b'', vt_body_sha256 = [3]\<rparr>"

lemma celled_bundle_ok:
  "bundle_ok celled_bundle \<and> (\<forall>c \<in> set (cohort_centroids celled_bundle). \<forall>v \<in> set (variance c). wf_f64 v)"
  using exact_1 by (simp add: celled_bundle_def bundle_ok_def sample_bundle_def retained_dim_def
      projection_version_def projection_dim_def exact_def)

lemma sample_body_trace_id: "jget sample_body ''trace_id'' = Some (JStr ''t'')"
  by (simp add: sample_body_def jget_jobject)

lemma sample_verdict:
  "verdict (Some celled_bundle) sample_cell (project (pe_extract sample_penv sample_body (parse_from_envelope sample_body)))
     = Some (Numeric fzero)"
  by code_simp

section \<open>Properties\<close>

text \<open>
  C5: no signed row carries a number its calibration does not support. With a validated
  bundle (or none) the pipeline never panics; when it succeeds, the signed row states the
  verdict that the score reports, at the severity of that verdict; a numeric row exists only
  when the bundle has a centroid for the row's own cohort cell with at least as many samples
  as the bundle's gate, its distance is finite and not negative, and the row names that
  bundle's version; without a bundle the verdict is always the cold start.
\<close>

theorem rows_are_supported:
  assumes "\<And>b. lc_bundle lc = Some b \<Longrightarrow>
      bundle_ok b \<and> (\<forall>c \<in> set (cohort_centroids b). \<forall>v \<in> set (variance c). wf_f64 v)"
  shows "\<exists>r. process env lc uid now tr gate ver = Some r \<and> (\<forall>out. r = Inr out \<longrightarrow>
      (variant (oc_event out), conformity_payload (oc_event out)) = conformity_to_persist (sc_conformity (oc_score out))
      \<and> ev_severity (oc_event out) = severity_from (sc_conformity (oc_score out))
      \<and> (lc_bundle lc = None \<longrightarrow> sc_conformity (oc_score out) = Indeterminate CohortColdStart)
      \<and> (variant (oc_event out) = VNumeric \<longrightarrow>
          (\<exists>b c d. lc_bundle lc = Some b \<and> c \<in> set (cohort_centroids b) \<and> cohort c = ev_cohort_cell (oc_event out)
             \<and> unat (sample_size_gate b) \<le> unat (sample_count c)
             \<and> sc_conformity (oc_score out) = Numeric d \<and> is_finite d \<and> 0 \<le> fval d
             \<and> ratchet_version (oc_event out) = ratchet_calibration_version b)))"
proof (cases rule: process_cases [of env lc uid now tr gate ver])
  case (read body tid)
  define feats where "feats = pe_extract env body (parse_from_envelope body)"
  define cell where "cell = cohort_cell (parse_from_envelope body)"
  define ver' where "ver' = (case lc_bundle lc of Some b \<Rightarrow> ratchet_calibration_version b | None \<Rightarrow> ver)"
  obtain v where v: "verdict (lc_bundle lc) cell (project feats) = Some v"
    using verdict_total assms length_project by blast
  have p: "process env lc uid now tr gate ver = Some (sign_outcome env lc uid now tr tid feats cell ver' v)"
    using process_is_signed_verdict [OF read] v by (simp add: feats_def cell_def ver'_def)
  show ?thesis
  proof (rule exI, rule conjI [OF p], intro allI impI conjI)
    fix out assume out: "sign_outcome env lc uid now tr tid feats cell ver' v = Inr out"
    note st = sign_outcomeD [OF out, unfolded event_states_def inputs_for_def, simplified]
    show "(variant (oc_event out), conformity_payload (oc_event out)) = conformity_to_persist (sc_conformity (oc_score out))"
      and "ev_severity (oc_event out) = severity_from (sc_conformity (oc_score out))"
      using st by simp_all
    show "sc_conformity (oc_score out) = Indeterminate CohortColdStart" if "lc_bundle lc = None"
      using st v that by (simp add: verdict_def)
    assume "variant (oc_event out) = VNumeric"
    then have "fst (conformity_to_persist v) = VNumeric" using st by (metis fst_conv)
    then obtain d where d: "v = Numeric d" by (auto simp: variant_numeric)
    obtain b c where bc: "lc_bundle lc = Some b" "c \<in> set (cohort_centroids b)" "cohort c = cell"
        "unat (sample_size_gate b) \<le> unat (sample_count c)" "score_mahalanobis (project feats) b c = Some (Distance d)"
      using v unfolding d by (rule verdict_numeric)
    have "is_finite d \<and> 0 \<le> fval d" using score_distance [OF bc(5)] assms bc(1,2) by blast
    with bc st d show "\<exists>b c d. lc_bundle lc = Some b \<and> c \<in> set (cohort_centroids b) \<and> cohort c = ev_cohort_cell (oc_event out)
             \<and> unat (sample_size_gate b) \<le> unat (sample_count c)
             \<and> sc_conformity (oc_score out) = Numeric d \<and> is_finite d \<and> 0 \<le> fval d
             \<and> ratchet_version (oc_event out) = ratchet_calibration_version b"
      by (intro exI [of _ b] exI [of _ c] exI [of _ d]) (simp add: ver'_def)
  qed
qed simp

lemma rows_are_supported_witness:
  "\<exists>out d. process sample_penv (with_calibration_bundle celled_bundle (lens_new (sample_signer 1))) ''u'' 5 sample_trace 0 0
       = Some (Inr out)
     \<and> sc_conformity (oc_score out) = Numeric d \<and> is_finite d \<and> ratchet_version (oc_event out) = 7"
proof -
  let ?lc = "with_calibration_bundle celled_bundle (lens_new (sample_signer 1))"
  let ?axes = "parse_from_envelope sample_body"
  have lc: "lc_bundle ?lc = Some celled_bundle" by (simp add: with_calibration_bundle_def)
  have parse: "pe_parse sample_penv (vt_body sample_trace) = Inr sample_body"
    by (simp add: sample_penv_def sample_trace_def)
  obtain out where out: "sign_outcome sample_penv ?lc ''u'' 5 sample_trace ''t'' (pe_extract sample_penv sample_body ?axes)
      sample_cell 7 (Numeric fzero) = Inr out"
    by (simp add: sign_outcome_def sign_detection_def prepare_detection_def assemble_event_def sample_signer_def
        with_calibration_bundle_def lens_new_def) (simp add: sample_penv_def inputs_for_def)
  have ver: "ratchet_calibration_version celled_bundle = 7" by (simp add: celled_bundle_def sample_bundle_def)
  have p: "process sample_penv ?lc ''u'' 5 sample_trace 0 0 = Some (Inr out)"
    using process_is_signed_verdict [OF parse sample_body_trace_id, of ?lc "''u''" 5 0 0] out sample_verdict
    by (simp add: lc ver sample_cell_def)
  from rows_are_supported [of ?lc sample_penv "''u''" 5 sample_trace 0 0] celled_bundle_ok lc p
  have "variant (oc_event out) = VNumeric \<longrightarrow> (\<exists>b d. lc_bundle ?lc = Some b \<and> sc_conformity (oc_score out) = Numeric d
      \<and> is_finite d \<and> ratchet_version (oc_event out) = ratchet_calibration_version b)" by fastforce
  moreover have "variant (oc_event out) = VNumeric"
    using sign_outcomeD [OF out] by (simp add: event_states_def inputs_for_def)
  ultimately show ?thesis using p lc ver by auto
qed

section \<open>The batch loop\<close>

text \<open>What an accepted row of the batch path is.\<close>

definition cold_row :: "detection_event \<Rightarrow> bool" where
  "cold_row e \<longleftrightarrow>
     variant e = VIndeterminate \<and> conformity_payload e = indeterminate_payload CohortColdStart
     \<and> ev_severity e = SevInfo \<and> ratchet_version e = 0
     \<and> length (ed25519_sig e) = 64 \<and> length (ml_dsa_65_sig e) = 3309"

definition reports :: "per_trace_summary \<Rightarrow> detection_event \<Rightarrow> bool" where
  "reports d e \<longleftrightarrow> pt_detection_id d = detection_id e \<and> pt_trace_id d = ev_trace_id e \<and> pt_severity d = ''info''"

lemma process_one_accepts:
  assumes "process_one env body_sha eng key_id uid now event_json st = (r, st1)"
  shows "\<exists>new. accepted st1 = accepted st @ new
     \<and> (case r of Inl _ \<Rightarrow> new = [] | Inr d \<Rightarrow> \<exists>e. new = [e] \<and> reports d e \<and> cold_row e)"
  using assms
proof (cases rule: process_one_cases)
  case (accepted body tid sha pd ed ml ev sm h1 h2 h3)
  from assemble_prepared [OF accepted(4) accepted(7)] accepted(9,10) show ?thesis
    by (auto simp: event_states_def cold_inputs_def inputs_for_def reports_def cold_row_def)
qed simp

lemma batch_loop_accepts:
  assumes "\<And>e st r st1. step e st = (r, st1) \<Longrightarrow> \<exists>new. accepted st1 = accepted st @ new
     \<and> (case r of Inl _ \<Rightarrow> new = [] | Inr d \<Rightarrow> \<exists>e. new = [e] \<and> reports d e \<and> cold_row e)"
  shows "batch_loop step es st = (ds, st1) \<Longrightarrow>
     length ds \<le> length es \<and> (\<exists>new. accepted st1 = accepted st @ new \<and> list_all2 reports ds new \<and> (\<forall>e \<in> set new. cold_row e))"
proof (induction es arbitrary: st ds)
  case (Cons e es)
  obtain r s where r: "step e st = (r, s)" by fastforce
  obtain ds' s' where l: "batch_loop step es s = (ds', s')" by fastforce
  from assms [OF r] obtain new where new: "accepted s = accepted st @ new"
    "case r of Inl _ \<Rightarrow> new = [] | Inr d \<Rightarrow> \<exists>e. new = [e] \<and> reports d e \<and> cold_row e" by blast
  from Cons.prems r l have st1: "st1 = s'" by (auto split: sum.splits)
  from Cons.IH [of s ds'] l st1 obtain rest where rest: "length ds' \<le> length es" "accepted s' = accepted s @ rest"
    "list_all2 reports ds' rest" "\<forall>e \<in> set rest. cold_row e" by auto
  show ?case
  proof (cases r)
    case (Inl m)
    with Cons.prems r l rest new st1 show ?thesis by auto
  next
    case (Inr d)
    with new obtain f where "new = [f]" "reports d f" "cold_row f" by auto
    with Inr Cons.prems r l rest new(1) st1 show ?thesis by (auto intro!: exI [of _ "f # rest"])
  qed
qed simp

text \<open>Only the key lookup can fail a batch.\<close>

lemma batch_returns:
  "he_key_id eng (host st) = (Inr key_id, h) \<Longrightarrow>
     \<exists>res st1. process_trace_batch env body_sha eng batch_id fresh events st = (Inr res, st1)"
  by (auto simp: process_trace_batch_def sbind_def on_host_def split: prod.splits)

text \<open>
  A batch reports exactly what the host accepted. Whatever the host engine answers and
  however many traces fail, a batch that returns processed the accepted events and no other:
  its detections correspond one to one, in order, to the rows the host accepted during the
  call, with their identifiers; it counts all inputs as received and never more processed
  than received; and every such row is the unsupported verdict of the cold start at severity
  info under the zero calibration version, with signatures of the two federation lengths.
\<close>

lemma batch_reports_accepted:
  assumes "process_trace_batch env body_sha eng batch_id fresh events st = (Inr res, st1)"
  shows "br_received res = length events \<and> br_processed res = length (br_detections res)
    \<and> br_processed res \<le> br_received res
    \<and> (\<exists>new. accepted st1 = accepted st @ new \<and> list_all2 reports (br_detections res) new
         \<and> (\<forall>e \<in> set new. cold_row e))"
proof -
  obtain key_id s where key: "on_host (he_key_id eng) st = (Inr key_id, s)"
    using assms by (auto simp: process_trace_batch_def elim!: sbind_cases)
  let ?step = "\<lambda>((uid, now), e). process_one env body_sha eng key_id uid now e"
  obtain ds s' where loop: "batch_loop ?step (zip (map fresh [0..<length events]) events) s = (ds, s')"
    by fastforce
  have res: "res = \<lparr>br_batch_id = batch_id, br_received = length events, br_processed = length ds, br_detections = ds\<rparr>"
    "st1 = s'"
    using assms by (simp_all add: process_trace_batch_def key sbind_def loop)
  have "length ds \<le> length events \<and> (\<exists>new. accepted s' = accepted s @ new \<and> list_all2 reports ds new \<and> (\<forall>e \<in> set new. cold_row e))"
    using batch_loop_accepts [of ?step, OF _ loop] process_one_accepts by (fastforce split: prod.splits)
  then show ?thesis using on_host_accepted [OF key] by (auto simp: res)
qed

definition sample_host :: "nat host_engine" where
  "sample_host = \<lparr>he_key_id = \<lambda>h. (Inr ''k'', h),
     he_sign = \<lambda>m h. (hs_ed25519 (sample_signer 1) m, h), he_pqc_sign = \<lambda>m h. (hs_ml_dsa_65 (sample_signer 1) m, h),
     he_put = \<lambda>e h. (if h = 0 then Inr () else Inl ''full'', Suc h)\<rparr>"

lemma sample_process_one:
  "\<exists>d st1. process_one sample_penv (\<lambda>_. Inr [3]) sample_host ''k'' uid now ''b'' st
     = (if host st = 0 then Inr d else Inl ''full'', st1) \<and> host st1 = Suc (host st)"
  by (simp add: process_one_def sbind_def on_host_def sample_host_def sample_signer_def detect_def Let_def
      prepare_detection_def assemble_event_def inputs_for_def sample_body_trace_id)
    (simp add: sample_penv_def sample_body_trace_id)

lemma batch_reports_accepted_witness:
  "\<exists>res st1. process_trace_batch sample_penv (\<lambda>_. Inr [3]) sample_host ''b'' (\<lambda>i. (show_nat i, 5)) [''b'', [], ''b'']
       \<lparr>host = 0, accepted = []\<rparr> = (Inr res, st1)
     \<and> br_received res = 3 \<and> length (accepted st1) = br_processed res"
proof -
  have "he_key_id sample_host (host \<lparr>host = 0, accepted = []\<rparr>) = (Inr ''k'', 0)" by (simp add: sample_host_def)
  from batch_returns [OF this]
  obtain res st1 where r: "process_trace_batch sample_penv (\<lambda>_. Inr [3]) sample_host ''b'' (\<lambda>i. (show_nat i, 5)) [''b'', [], ''b'']
       \<lparr>host = 0, accepted = []\<rparr> = (Inr res, st1)"
    by blast
  from batch_reports_accepted [OF this] r show ?thesis by (auto dest: list_all2_lengthD)
qed

text \<open>
  C22: the two entry points agree. When the host engine signs as the local signer does, a
  trace the batch path accepts is accepted by \<open>process\<close> without a bundle under any gate, and
  the row the host receives is the very row \<open>process\<close> returns; a skipped trace leaves no row.
\<close>

theorem batch_path_agrees_with_process:
  assumes "\<And>m h. he_sign eng m h = (hs_ed25519 signer m, h)"
    "\<And>m h. he_pqc_sign eng m h = (hs_ml_dsa_65 signer m, h)"
    "body_sha event_json = Inr sha"
    "process_one env body_sha eng (hs_key_id signer) uid now event_json st = (r, st1)"
  shows "case r of
      Inr d \<Rightarrow> \<exists>out. process env (lens_new signer) uid now \<lparr>vt_body = event_json, vt_body_sha256 = sha\<rparr> gate 0 = Some (Inr out)
        \<and> accepted st1 = accepted st @ [oc_event out] \<and> pt_detection_id d = detection_id (oc_event out)
    | Inl _ \<Rightarrow> accepted st1 = accepted st"
  using assms(4)
proof (cases rule: process_one_cases)
  case (accepted body tid sha' pd ed ml ev sm h1 h2 h3)
  let ?tr = "\<lparr>vt_body = event_json, vt_body_sha256 = sha\<rparr>"
  have sha: "sha' = sha" using accepted(3) assms(3) by simp
  have "sign_detection (pe_signing env) signer uid now (cold_inputs env event_json sha body tid) = Inr (ev, sm)"
    using accepted(4-7) assms(1,2) by (simp add: sign_detection_def sha)
  moreover have "pe_parse env (vt_body ?tr) = Inr body" using accepted(1) by simp
  note process_is_signed_verdict [OF this accepted(2), where lc = "lens_new signer"]
  ultimately show ?thesis
    using accepted(9,10) by (simp add: lens_new_def verdict_def sign_outcome_def cold_inputs_def)
qed simp

lemma batch_path_agrees_with_process_witness:
  "\<exists>out. process sample_penv (lens_new (sample_signer 1)) ''u'' 5 \<lparr>vt_body = ''b'', vt_body_sha256 = [3]\<rparr> 500 0 = Some (Inr out)
     \<and> (\<exists>d st1. process_one sample_penv (\<lambda>_. Inr [3]) sample_host ''k'' ''u'' 5 ''b'' \<lparr>host = 0, accepted = []\<rparr> = (Inr d, st1)
          \<and> accepted st1 = [oc_event out])"
proof -
  obtain d st1 where one: "process_one sample_penv (\<lambda>_. Inr [3]) sample_host ''k'' ''u'' 5 ''b'' \<lparr>host = 0, accepted = []\<rparr> = (Inr d, st1)"
    using sample_process_one [of "''u''" 5 "\<lparr>host = 0, accepted = []\<rparr>"] by auto
  have eng: "he_sign sample_host m h = (hs_ed25519 (sample_signer 1) m, h)"
    "he_pqc_sign sample_host m h = (hs_ml_dsa_65 (sample_signer 1) m, h)" for m h
    by (simp_all add: sample_host_def)
  have key: "hs_key_id (sample_signer 1) = ''k''" by (simp add: sample_signer_def)
  have sha: "(\<lambda>_. Inr [3]) ''b'' = Inr [3]" by simp
  from batch_path_agrees_with_process [OF eng sha one [folded key], of 500] one show ?thesis by auto
qed

end
