(* ===== verification/AxisMetrics.thy ===== *)
theory AxisMetrics
  imports Scoring KeyMaps "HOL-Library.Product_Lexorder"
begin

text \<open>
  The axis-family calibration of \<open>src/src/scoring/axis_calibration.rs\<close> and the metric
  kernels with their threshold scoring of \<open>detector/axis_metrics.rs\<close>, on binary64 values.
  The YAML parser and \<open>f64::log10\<close> are parameters.
\<close>

section \<open>Axis calibration\<close>

datatype polarity = PositiveWhenDistributed | NegativeWhenDetected

datatype concern_direction = AtOrAbove | AtOrBelow | OutsideCorridor

record corridor =
  upper_bound :: "f64 option"
  lower_bound :: "f64 option"

datatype calibration_outcome = ZeroVarianceBaseline

record threshold_function =
  metric :: string
  threshold_value :: f64
  threshold_pctile :: f64
  tf_polarity :: polarity
  score_at_threshold :: f64
  scaling :: string
  tf_outcome :: "calibration_outcome option"
  concern_field :: "concern_direction option"
  tf_corridor :: "corridor option"

record statistical_floor =
  min_cohort_size_events :: u64
  min_cluster_size_agents :: u64
  min_window_days :: u64
  power_target :: f64

record axis_entry =
  axis_label :: string
  tier :: u8
  measurement_procedure :: string
  threshold_fn :: threshold_function
  floor_of :: statistical_floor
  evidence_required :: "string list"

record calibration_corpus =
  trace_events_sha256 :: string
  trace_llm_calls_sha256 :: "string option"

record axis_calibration =
  ac_version :: i32
  ac_projection_version :: string
  ac_calibrated_at :: "string option"
  supersedes :: "string option"
  ac_corpus :: calibration_corpus
  axes :: "(string \<times> axis_entry) list"

datatype axis_calibration_error =
    AxisYaml string
  | VersionMismatch string string
  | CalibrationVersionMismatch i32 i32

definition axis_calibration_version :: string where
  "axis_calibration_version = ''crc-v2''"

definition ratchet_axis_calibration_version :: i32 where
  "ratchet_axis_calibration_version = 2"

definition concern_direction :: "threshold_function \<Rightarrow> concern_direction" where
  "concern_direction tf =
     (case concern_field tf of
        Some dir \<Rightarrow> dir
      | None \<Rightarrow> if fle (threshold_pctile tf) (flit (1/2)) then AtOrBelow else AtOrAbove)"

definition corridor_upper_bound :: "threshold_function \<Rightarrow> f64" where
  "corridor_upper_bound tf =
     (case tf_corridor tf of
        None \<Rightarrow> threshold_value tf
      | Some c \<Rightarrow> (case upper_bound c of None \<Rightarrow> threshold_value tf | Some u \<Rightarrow> u))"

definition corridor_lower_bound :: "threshold_function \<Rightarrow> f64 option" where
  "corridor_lower_bound tf = (case tf_corridor tf of None \<Rightarrow> None | Some c \<Rightarrow> lower_bound c)"

definition is_zero_variance_baseline :: "axis_entry \<Rightarrow> bool" where
  "is_zero_variance_baseline axis \<longleftrightarrow> tf_outcome (threshold_fn axis) = Some ZeroVarianceBaseline"

definition validate_axes :: "axis_calibration \<Rightarrow> axis_calibration_error + unit" where
  "validate_axes cal =
     (if ac_projection_version cal \<noteq> axis_calibration_version
        then Inl (VersionMismatch (ac_projection_version cal) axis_calibration_version)
      else if ac_version cal \<noteq> ratchet_axis_calibration_version
        then Inl (CalibrationVersionMismatch (ac_version cal) ratchet_axis_calibration_version)
      else Inr ())"

definition axes_from_yaml :: "(string \<Rightarrow> string + axis_calibration) \<Rightarrow> string \<Rightarrow> axis_calibration_error + axis_calibration" where
  "axes_from_yaml parse s = rbind (map_err AxisYaml (parse s)) (\<lambda>cal. rbind (validate_axes cal) (\<lambda>_. Inr cal))"

definition axis_of :: "axis_calibration \<Rightarrow> string \<Rightarrow> axis_entry option" where
  "axis_of cal label = bt_get (axes cal) label"

definition bundle_evidence_ref :: "axis_calibration \<Rightarrow> string \<Rightarrow> string" where
  "bundle_evidence_ref cal hash = ac_projection_version cal @ '':bundle.sha256:'' @ hash"

section \<open>Metric kernels\<close>

definition gini :: "f64 list \<Rightarrow> f64 option" where
  "gini values =
     (if values = [] then None
      else let n = f_of_nat (length values); total = fsum values in
        if fle total fzero then None
        else let abs_diff_sum = foldl (\<lambda>acc xi. foldl (\<lambda>acc xj. fadd acc (f_abs (fsub xi xj))) acc values) fzero values;
                 mean = fdiv total n in
          Some (fdiv abs_diff_sum (fmul (fmul (fmul (flit 2) n) n) mean)))"

definition hhi :: "u64 list \<Rightarrow> f64 option" where
  "hhi counts =
     (let total = sum_list counts in
      if total = 0 then None
      else let total_f = f_of_nat (unat total) in
        Some (fsum (map (\<lambda>c. let s = fdiv (f_of_nat (unat c)) total_f in fmul s s) counts)))"

definition coefficient_of_variation :: "f64 list \<Rightarrow> f64 option" where
  "coefficient_of_variation values =
     (if values = [] then None
      else let n = f_of_nat (length values); mean = fdiv (fsum values) n in
        if feq mean fzero then None
        else let var = fdiv (fsum (map (\<lambda>x. fsquare (fsub x mean)) values)) n in
          Some (fdiv (fsqrt var) mean))"

text \<open>\<open>sort_by(partial_cmp)\<close> is a stable sort; the callers pass no NaN.\<close>

fun sort_in :: "f64 \<Rightarrow> f64 list \<Rightarrow> f64 list" where
  "sort_in x [] = [x]"
| "sort_in x (y # ys) = (if flt x y then x # y # ys else y # sort_in x ys)"

definition f_sort :: "f64 list \<Rightarrow> f64 list" where
  "f_sort xs = foldl (\<lambda>acc x. sort_in x acc) [] xs"

definition median :: "f64 list \<Rightarrow> f64" where
  "median values =
     (let n = length values; sorted = f_sort values in
      if n mod 2 = 1 then sorted ! (n div 2)
      else fdiv (fadd (sorted ! (n div 2 - 1)) (sorted ! (n div 2))) (flit 2))"

definition fraction_below_median :: "f64 list \<Rightarrow> f64 option" where
  "fraction_below_median values =
     (if values = [] then None
      else let m = median values; below = length (filter (\<lambda>v. flt v m) values) in
        Some (fdiv (f_of_nat below) (f_of_nat (length values))))"

definition capability_diversity :: "(string \<times> string) list \<Rightarrow> f64 option" where
  "capability_diversity tuples =
     (if tuples = [] then None
      else Some (fdiv (f_of_nat (length (remdups_adj (sort tuples)))) (f_of_nat (length tuples))))"

definition aggregate_footprint :: "(f64 \<Rightarrow> f64) \<Rightarrow> u64 \<Rightarrow> nat \<Rightarrow> f64 option" where
  "aggregate_footprint log10 total_actions n =
     (if n = 0 then None else Some (fmul (f_of_nat (unat total_actions)) (log10 (f_of_nat n))))"

definition pooled_rate :: "u64 \<Rightarrow> u64 \<Rightarrow> f64 option" where
  "pooled_rate numerator denominator =
     (if denominator = 0 then None
      else Some (fdiv (f_of_nat (unat numerator)) (f_of_nat (unat denominator))))"

section \<open>Threshold scoring\<close>

definition ceiling_of :: "threshold_function \<Rightarrow> f64" where
  "ceiling_of tf =
     (if metric tf \<in> {''compute_gini'', ''models_hhi'', ''part_excl_frac'', ''pdma_rate_within'', ''nonmember_frac''}
      then fone else fmul (flit 2) (threshold_value tf))"

definition severity_scaled_score :: "f64 \<Rightarrow> axis_entry \<Rightarrow> f64" where
  "severity_scaled_score m axis =
     (let tf = threshold_fn axis; s0 = score_at_threshold tf; t = threshold_value tf in
      (case concern_direction tf of
         AtOrBelow \<Rightarrow>
           if fle t fzero then s0
           else fmul s0 (fadd fone (fclamp fzero fone (fdiv (fsub t m) t)))
       | _ \<Rightarrow>
           if fle (ceiling_of tf) t then s0
           else fmul s0 (fadd fone (fclamp fzero fone (fdiv (fsub m t) (fsub (ceiling_of tf) t))))))"

definition crosses :: "threshold_function \<Rightarrow> f64 \<Rightarrow> bool" where
  "crosses tf m =
     (case concern_direction tf of
        AtOrAbove \<Rightarrow> fle (threshold_value tf) m
      | AtOrBelow \<Rightarrow> fle m (threshold_value tf)
      | OutsideCorridor \<Rightarrow>
          fle (corridor_upper_bound tf) m
          \<or> (case corridor_lower_bound tf of None \<Rightarrow> False | Some lb \<Rightarrow> fle m lb))"

definition score_against_axis :: "f64 \<Rightarrow> axis_entry \<Rightarrow> axis_family \<Rightarrow> conformity" where
  "score_against_axis m axis family =
     (let tf = threshold_fn axis in
      if tf_outcome tf = Some ZeroVarianceBaseline \<and> fle m fzero
        then Indeterminate (AxisAwaitingCalibration family)
      else if crosses tf m then Numeric (severity_scaled_score m axis)
      else Numeric fzero)"

record axis_score_result =
  metric_value :: "f64 option"
  as_conformity :: conformity

definition axis_score :: "f64 option \<Rightarrow> axis_entry \<Rightarrow> axis_family \<Rightarrow> axis_score_result" where
  "axis_score m axis family =
     (case m of
        Some x \<Rightarrow> \<lparr>metric_value = Some x, as_conformity = score_against_axis x axis family\<rparr>
      | None \<Rightarrow> \<lparr>metric_value = None, as_conformity = Indeterminate (AxisAwaitingCalibration family)\<rparr>)"

section \<open>Severity\<close>

text \<open>A head-room below this bound could be lost in rounding.\<close>

definition tiny :: rat where
  "tiny = pow2 (- 1000)"

lemma tiny_pos: "0 < tiny"
  unfolding tiny_def by (rule pow2_pos)

lemma exact_tiny: "exact tiny"
proof -
  have "round_mag tiny = tiny" unfolding tiny_def by (rule round_mag_pow2) simp
  moreover have "tiny < pow2 0" unfolding tiny_def by (simp only: pow2_less_iff)
  moreover have "1 < f64_limit" by code_simp
  ultimately show ?thesis using tiny_pos by (simp add: exact_def)
qed

text \<open>
  A calibrated threshold: an anchor between \<open>-1\<close> and \<open>0\<close>, a finite threshold that is not
  negative, a finite ceiling, and
  a head-room that is either absent or not vanishingly small.
\<close>

definition calibrated :: "threshold_function \<Rightarrow> bool" where
  "calibrated tf \<longleftrightarrow>
     wf_f64 (score_at_threshold tf) \<and> fin_in (-1) 0 (score_at_threshold tf)
     \<and> wf_f64 (threshold_value tf) \<and> is_finite (threshold_value tf) \<and> 0 \<le> fval (threshold_value tf)
     \<and> is_finite (ceiling_of tf)
     \<and> (fle (ceiling_of tf) (threshold_value tf)
        \<or> tiny \<le> fval (ceiling_of tf) - fval (threshold_value tf))"

text \<open>The anchor scaled by one plus a share of the unit interval.\<close>

definition ramp :: "f64 \<Rightarrow> f64 \<Rightarrow> f64" where
  "ramp s0 x = fmul s0 (fadd fone (fclamp fzero fone x))"

lemma ramp_factor:
  assumes "x \<noteq> NaN"
  shows "fin_in 1 2 (fadd fone (fclamp fzero fone x))"
proof -
  have "in_unit (fclamp fzero fone x)" using fclamp_fin_in [of fzero fone x] assms by simp
  then obtain s r where r: "fclamp fzero fone x = Fin s r" "0 \<le> fval (Fin s r)" "fval (Fin s r) \<le> 1"
    by (elim fin_in_cases)
  have "exact 2" by code_simp
  then show ?thesis unfolding r(1) fadd.simps using r(2,3) by (intro fround_fin_in) (simp_all del: fval.simps(1) add: fval.simps(1) [of False])
qed

lemma ramp_range:
  assumes "wf_f64 s0" "fin_in (-1) 0 s0" "x \<noteq> NaN"
  shows "fin_in (-2) (fval s0) (ramp s0 x)"
proof -
  obtain s m where s: "s0 = Fin s m" "-1 \<le> fval s0" "fval s0 \<le> 0" using assms(2) by (auto elim: fin_in_cases)
  obtain t f where f: "fadd fone (fclamp fzero fone x) = Fin t f" "1 \<le> fval (Fin t f)" "fval (Fin t f) \<le> 2"
    using ramp_factor [OF assms(3)] by (elim fin_in_cases)
  have e: "exact (- 2)" "exact (fval s0)" using assms(1) s(1) by (code_simp, simp add: exact_def)
  have lo: "- 2 \<le> fval s0 * fval (Fin t f)"
  proof -
    have "fval s0 * fval (Fin t f) \<ge> - 1 * fval (Fin t f)" using s(2) f(2) by (intro mult_right_mono) linarith+
    with f(3) show ?thesis by linarith
  qed
  have "fval s0 * fval (Fin t f) \<le> fval s0 * 1" using s(3) f(2) by (intro mult_left_mono_neg)
  with lo e show ?thesis
    unfolding ramp_def f(1) s(1) fmul.simps by (intro fround_fin_in) (simp_all add: s(1) del: fval.simps)
qed

lemma ramp_antimono:
  assumes "fin_in (-1) 0 s0" "y \<noteq> NaN" "fle x y"
  shows "fle (ramp s0 y) (ramp s0 x)"
proof -
  have "x \<noteq> NaN" using assms(3) by auto
  then have "is_finite (fadd fone (fclamp fzero fone x))" "is_finite (fadd fone (fclamp fzero fone y))"
    using ramp_factor assms(2) fin_in_finite by blast+
  moreover have "fle (fadd fone (fclamp fzero fone x)) (fadd fone (fclamp fzero fone y))"
    using assms(3) by (intro fadd_mono fclamp_mono) simp_all
  ultimately show ?thesis
    using assms(1) unfolding ramp_def by (intro fmul_antimono) (simp_all add: fin_in_def)
qed

lemma severity_unfold:
  "severity_scaled_score m axis =
     (let tf = threshold_fn axis; s0 = score_at_threshold tf; t = threshold_value tf in
      if concern_direction tf = AtOrBelow
      then if fle t fzero then s0 else ramp s0 (fdiv (fsub t m) t)
      else if fle (ceiling_of tf) t then s0 else ramp s0 (fdiv (fsub m t) (fsub (ceiling_of tf) t)))"
  by (simp add: severity_scaled_score_def Let_def ramp_def split: concern_direction.split)

text \<open>The head-room is a positive finite number after rounding.\<close>

lemma wf_ceiling: "wf_f64 (ceiling_of tf)"
proof -
  have two: "flit 2 = Fin False 2" by code_simp
  have "wf_f64 fone" by code_simp
  moreover have "wf_f64 (fmul (flit 2) x)" for x by (cases x) (simp_all add: two)
  ultimately show ?thesis by (simp add: ceiling_of_def)
qed

lemma headroom:
  assumes "calibrated tf" "\<not> fle (ceiling_of tf) (threshold_value tf)"
  shows "is_finite (fsub (ceiling_of tf) (threshold_value tf)) \<and> 0 < fval (fsub (ceiling_of tf) (threshold_value tf))
    \<and> wf_f64 (fsub (ceiling_of tf) (threshold_value tf))"
proof -
  obtain s c t v where c: "ceiling_of tf = Fin s c" and v: "threshold_value tf = Fin t v"
    using assms(1) by (cases "ceiling_of tf"; cases "threshold_value tf") (auto simp: calibrated_def)
  define d where "d = fval (Fin s c) - fval (Fin t v)"
  have d: "tiny \<le> d" using assms by (simp add: calibrated_def c v d_def del: fval.simps)
  have "0 \<le> fval (Fin t v)" using assms(1) by (simp add: calibrated_def v)
  then have le: "d \<le> fval (Fin s c)" by (simp add: d_def)
  have "wf_f64 (Fin s c)" using wf_ceiling [of tf] by (simp only: c)
  then have e: "exact (fval (Fin s c))" by (simp add: exact_def)
  have eq: "fsub (ceiling_of tf) (threshold_value tf) = fround (s \<and> \<not> t) d"
    by (simp add: c v fsub_def d_def)
  have "fin_in tiny (fval (Fin s c)) (fround (s \<and> \<not> t) d)"
    by (rule fround_fin_in [OF exact_tiny e d le])
  then have "is_finite (fround (s \<and> \<not> t) d)" "tiny \<le> fval (fround (s \<and> \<not> t) d)"
    by (simp_all add: fin_in_def)
  then show ?thesis unfolding eq using less_le_trans [OF tiny_pos] wf_fround by blast
qed

text \<open>The argument of the ramp is a number, and the order of metrics is its order.\<close>

lemma fsub_finite_not_nan: "is_finite x \<Longrightarrow> is_finite y \<Longrightarrow> fsub x y \<noteq> NaN"
  by (cases x; cases y) (simp_all add: fsub_def)

lemma fdiv_positive_not_nan: "x \<noteq> NaN \<Longrightarrow> is_finite z \<Longrightarrow> 0 < fval z \<Longrightarrow> fdiv x z \<noteq> NaN"
  by (cases x; cases z) (auto split: if_splits)

lemma fsub_antimono: "is_finite z \<Longrightarrow> is_finite x \<Longrightarrow> is_finite y \<Longrightarrow> fle x y \<Longrightarrow> fle (fsub z y) (fsub z x)"
  by (cases x; cases y; cases z) (auto simp: fsub_def intro!: fround_mono)

lemma severity_cases:
  assumes "calibrated (threshold_fn axis)" "is_finite m"
  obtains (flat) "\<And>x. severity_scaled_score x axis = score_at_threshold (threshold_fn axis)"
  | (ramped) arg where "\<And>x. severity_scaled_score x axis = ramp (score_at_threshold (threshold_fn axis)) (arg x)"
      "\<And>x. is_finite x \<Longrightarrow> arg x \<noteq> NaN"
      "\<And>x y. is_finite x \<Longrightarrow> is_finite y \<Longrightarrow> fle x y \<Longrightarrow>
         (if concern_direction (threshold_fn axis) = AtOrBelow then fle (arg y) (arg x) else fle (arg x) (arg y))"
proof -
  let ?tf = "threshold_fn axis"
  let ?t = "threshold_value ?tf"
  have t: "is_finite ?t" "wf_f64 ?t" using assms(1) by (simp_all add: calibrated_def)
  show thesis
  proof (cases "concern_direction ?tf = AtOrBelow")
    case True
    show thesis
    proof (cases "fle ?t fzero")
      case False
      then have pos: "0 < fval ?t" using t(1) by (cases ?t) (simp_all add: not_le)
      show thesis
        by (rule ramped [of "\<lambda>x. fdiv (fsub ?t x) ?t"])
          (use True False t pos in \<open>auto simp: severity_unfold Let_def fdiv_positive_not_nan fsub_finite_not_nan
             intro!: fdiv_mono fsub_antimono\<close>)
    qed (rule flat, use True in \<open>simp add: severity_unfold\<close>)
  next
    case False
    show thesis
    proof (cases "fle (ceiling_of ?tf) ?t")
      case no: False
      note h = headroom [OF assms(1) no]
      show thesis
        by (rule ramped [of "\<lambda>x. fdiv (fsub x ?t) (fsub (ceiling_of ?tf) ?t)"])
          (use False no t h in \<open>auto simp: severity_unfold Let_def fdiv_positive_not_nan fsub_finite_not_nan
             intro!: fdiv_mono fsub_mono\<close>)
    qed (rule flat, use False in \<open>simp add: severity_unfold\<close>)
  qed
qed

section \<open>Counting distinct tuples and positions below the median\<close>

lemma distinct_remdups_adj_sorted: "sorted xs \<Longrightarrow> distinct (remdups_adj (xs :: 'a :: linorder list))"
  by (induction xs rule: remdups_adj.induct) (auto simp: less_le)

lemma length_remdups_adj_sort: "length (remdups_adj (sort xs)) = card (set (xs :: 'a :: linorder list))"
  using distinct_card [OF distinct_remdups_adj_sorted [of "sort xs"]] by simp

section \<open>Properties\<close>

text \<open>
  C27: the published severity is bounded and monotone despite every rounding. For a
  calibrated threshold and finite metrics the score lies between \<open>-2\<close> and the calibrated
  anchor, and a worse metric never gets a milder score: larger is worse on the upper-tail
  axes, smaller on the lower-tail ones.
\<close>

theorem severity_bounded_and_monotone:
  assumes "calibrated (threshold_fn axis)" "is_finite m" "is_finite m'" "fle m m'"
  shows "fin_in (-2) (fval (score_at_threshold (threshold_fn axis))) (severity_scaled_score m axis)
    \<and> (if concern_direction (threshold_fn axis) = AtOrBelow
       then fle (severity_scaled_score m axis) (severity_scaled_score m' axis)
       else fle (severity_scaled_score m' axis) (severity_scaled_score m axis))"
proof -
  let ?s0 = "score_at_threshold (threshold_fn axis)"
  have s0: "wf_f64 ?s0" "fin_in (-1) 0 ?s0" using assms(1) by (simp_all add: calibrated_def)
  from assms(1,2) show ?thesis
  proof (cases rule: severity_cases)
    case flat
    have "fin_in (-2) (fval ?s0) ?s0" "fle ?s0 ?s0"
      using s0(2) by (auto simp: fin_in_def intro: fle_refl)
    then show ?thesis by (simp add: flat)
  next
    case (ramped arg)
    with ramp_range [OF s0] ramp_antimono [OF s0(2)] assms(2-4) show ?thesis by (simp split: if_splits)
  qed
qed

text \<open>
  The axis verdict is fail-secure and complete. A zero-variance axis with a metric that
  is not positive awaits calibration; otherwise the verdict is a number, zero on the healthy
  side and the severity score beyond a calibrated bound (for a corridor, beyond either pole,
  the lower one only when calibrated); a missing metric awaits calibration; a calibrated
  axis never yields a positive number.
\<close>

lemma axis_verdict_complete:
  "(score_against_axis m axis family = Indeterminate (AxisAwaitingCalibration family) \<longleftrightarrow>
      is_zero_variance_baseline axis \<and> fle m fzero)
   \<and> (\<not> (is_zero_variance_baseline axis \<and> fle m fzero) \<longrightarrow>
        score_against_axis m axis family =
          Numeric (if crosses (threshold_fn axis) m then severity_scaled_score m axis else fzero))
   \<and> as_conformity (axis_score None axis family) = Indeterminate (AxisAwaitingCalibration family)
   \<and> (\<forall>x. calibrated (threshold_fn axis) \<longrightarrow> is_finite m \<longrightarrow>
        score_against_axis m axis family = Numeric x \<longrightarrow> fin_in (-2) 0 x)"
proof -
  have "fin_in (-2) 0 (severity_scaled_score m axis)" if c: "calibrated (threshold_fn axis)" "is_finite m"
  proof -
    have "fin_in (-2) (fval (score_at_threshold (threshold_fn axis))) (severity_scaled_score m axis)"
      using c
    proof (cases rule: severity_cases)
      case flat
      then show ?thesis using c by (auto simp: calibrated_def fin_in_def)
    next
      case (ramped arg)
      then show ?thesis using c ramp_range by (simp add: calibrated_def)
    qed
    then show ?thesis using c by (auto simp: calibrated_def fin_in_def)
  qed
  moreover have "fin_in (-2) 0 fzero" by (simp add: fin_in_def)
  ultimately show ?thesis
    by (auto simp: score_against_axis_def is_zero_variance_baseline_def axis_score_def Let_def)
qed

text \<open>
  Every rate is a share. The pooled rate of a part and its whole, the fraction of a
  population below its median and the capability diversity are values of the unit interval
  for any population a 64-bit length can count, and are undefined exactly for an empty
  population; the diversity divides the number of distinct tuples.
\<close>

theorem rates_are_shares:
  "(pooled_rate a b = None \<longleftrightarrow> b = 0)
   \<and> (\<forall>r. a \<le> b \<longrightarrow> pooled_rate a b = Some r \<longrightarrow> in_unit r)
   \<and> (fraction_below_median values = None \<longleftrightarrow> values = [])
   \<and> (\<forall>r. length values \<le> 2 ^ 64 \<longrightarrow> fraction_below_median values = Some r \<longrightarrow> in_unit r)
   \<and> (\<forall>r. length tuples \<le> 2 ^ 64 \<longrightarrow> capability_diversity tuples = Some r \<longrightarrow>
        in_unit r \<and> r = fdiv (f_of_nat (card (set tuples))) (f_of_nat (length tuples)))"
proof -
  have "in_unit r" if "a \<le> b" "pooled_rate a b = Some r" for r
  proof -
    have "b \<noteq> 0" "r = fdiv (f_of_nat (unat a)) (f_of_nat (unat b))"
      using that(2) by (auto simp: pooled_rate_def split: if_splits)
    moreover have "unat a \<le> unat b" using that(1) by (simp add: word_le_nat_alt)
    moreover have "unat b \<le> 2 ^ 64" using unsigned_less [of b, where ?'a = nat] by simp
    ultimately show ?thesis by (simp add: share_in_unit unsigned_eq_0_iff)
  qed
  moreover have "in_unit r" if "length values \<le> 2 ^ 64" "fraction_below_median values = Some r" for r
  proof -
    have "length (filter (\<lambda>v. flt v (median values)) values) \<le> length values" by (rule length_filter_le)
    then show ?thesis
      using that by (auto simp: fraction_below_median_def Let_def intro!: share_in_unit split: if_splits)
  qed
  moreover have "in_unit r \<and> r = fdiv (f_of_nat (card (set tuples))) (f_of_nat (length tuples))"
    if "length tuples \<le> 2 ^ 64" "capability_diversity tuples = Some r" for r
    using that by (auto simp: capability_diversity_def length_remdups_adj_sort card_length
        intro!: share_in_unit split: if_splits)
  ultimately show ?thesis by (auto simp: pooled_rate_def fraction_below_median_def Let_def)
qed

text \<open>A concrete axis and the witnesses.\<close>

definition sample_axis :: axis_entry where
  "sample_axis = \<lparr>axis_label = ''distributive:access:compute'', tier = 1, measurement_procedure = [],
     threshold_fn = \<lparr>metric = ''compute_gini'', threshold_value = Fin False (1/4), threshold_pctile = Fin False (3/4),
       tf_polarity = PositiveWhenDistributed, score_at_threshold = Fin True (1/2), scaling = [],
       tf_outcome = None, concern_field = None, tf_corridor = None\<rparr>,
     floor_of = \<lparr>min_cohort_size_events = 100, min_cluster_size_agents = 3, min_window_days = 7,
       power_target = fone\<rparr>,
     evidence_required = [''gini_value'']\<rparr>"

lemma tiny_le_half: "tiny \<le> 1 / 2"
proof -
  have "tiny \<le> pow2 (- 1)" unfolding tiny_def by (simp only: pow2_le_iff)
  then show ?thesis by simp
qed

lemma sample_axis_calibrated: "calibrated (threshold_fn sample_axis)"
proof -
  have wf: "wf_f64 (Fin True (1/2))" "wf_f64 (Fin False (1/4))" by code_simp+
  then show ?thesis
    using tiny_le_half by (simp add: calibrated_def sample_axis_def ceiling_of_def fin_in_def)
qed

lemma severity_bounded_and_monotone_witness:
  "fin_in (-2) (-1/2) (severity_scaled_score (Fin False (1/2)) sample_axis)
   \<and> fle (severity_scaled_score (Fin False (3/4)) sample_axis) (severity_scaled_score (Fin False (1/2)) sample_axis)"
proof -
  have "concern_direction (threshold_fn sample_axis) = AtOrAbove" by code_simp
  moreover have "fval (score_at_threshold (threshold_fn sample_axis)) = -1/2" by (simp add: sample_axis_def)
  ultimately show ?thesis
    using severity_bounded_and_monotone [OF sample_axis_calibrated, of "Fin False (1/2)" "Fin False (3/4)"]
    by simp
qed

lemma axis_verdict_complete_witness:
  "\<exists>x. score_against_axis (Fin False (1/2)) sample_axis DistributiveAccess = Numeric x \<and> fin_in (-2) 0 x
     \<and> x = severity_scaled_score (Fin False (1/2)) sample_axis"
proof -
  have "\<not> is_zero_variance_baseline sample_axis" "crosses (threshold_fn sample_axis) (Fin False (1/2))" by code_simp+
  then show ?thesis
    using axis_verdict_complete [of "Fin False (1/2)" sample_axis DistributiveAccess] sample_axis_calibrated by simp
qed

lemma rates_are_shares_witness:
  "\<exists>r. pooled_rate 1 4 = Some r \<and> in_unit r"
  using rates_are_shares [of 1 4 "[]" "[]"] by (simp add: pooled_rate_def)

text \<open>What the scorer lets through: a NaN metric is judged to be on the healthy side.\<close>

lemma nan_metric_conforms:
  "score_against_axis NaN axis family = Numeric fzero"
  by (simp add: score_against_axis_def crosses_def Let_def split: concern_direction.split option.split)

end
