(* ===== verification/AxisDetectors.thy ===== *)
theory AxisDetectors
  imports AxisMetrics Signing
begin

text \<open>
  The two population detectors, \<open>src/src/detector/distributive_access.rs\<close> and
  \<open>detector/correlated_action.rs\<close>, the closed detector vocabulary of
  \<open>detector/coherence_ratchet.rs\<close>, and the evidence references of an axis attestation
  (\<open>signing/event.rs\<close>, \<open>build_axis_evidence_refs\<close>).

  A corpus is a list of JSON objects, one per agent. Sums of counts are \<open>u64\<close> and wrap. The
  \<open>unreachable!\<close> arm of the distributive detector is the outer \<open>None\<close>.
\<close>

section \<open>Closed vocabularies\<close>

datatype distributive_resource =
  Compute | Models | TrainingData | AgentCapabilities | FederationMembership

fun resource_suffix :: "distributive_resource \<Rightarrow> string" where
  "resource_suffix Compute = ''compute''"
| "resource_suffix Models = ''models''"
| "resource_suffix TrainingData = ''training_data''"
| "resource_suffix AgentCapabilities = ''agent_capabilities''"
| "resource_suffix FederationMembership = ''federation_membership''"

fun resource_axis_label :: "distributive_resource \<Rightarrow> string" where
  "resource_axis_label Compute = ''distributive:access:compute''"
| "resource_axis_label Models = ''distributive:access:models''"
| "resource_axis_label TrainingData = ''distributive:access:training_data''"
| "resource_axis_label AgentCapabilities = ''distributive:access:agent_capabilities''"
| "resource_axis_label FederationMembership = ''distributive:access:federation_membership''"

definition resource_dimension :: "distributive_resource \<Rightarrow> string" where
  "resource_dimension r = ''detection:distributive:access:'' @ resource_suffix r"

definition all_resources :: "distributive_resource list" where
  "all_resources = [Compute, Models, TrainingData, AgentCapabilities, FederationMembership]"

datatype coherence_ratchet =
  CrossAgentDivergence | IntraAgentConsistency | HashChainIntegrity | TemporalDrift | ConscienceOverrideRate

fun ratchet_dimension :: "coherence_ratchet \<Rightarrow> string" where
  "ratchet_dimension CrossAgentDivergence = ''detection:cross_agent_divergence''"
| "ratchet_dimension IntraAgentConsistency = ''detection:intra_agent_consistency''"
| "ratchet_dimension HashChainIntegrity = ''detection:hash_chain_integrity''"
| "ratchet_dimension TemporalDrift = ''detection:temporal_drift''"
| "ratchet_dimension ConscienceOverrideRate = ''detection:conscience_override_rate''"

definition all_ratchets :: "coherence_ratchet list" where
  "all_ratchets = [CrossAgentDivergence, IntraAgentConsistency, HashChainIntegrity, TemporalDrift,
     ConscienceOverrideRate]"

interpretation res: wire_enum resource_dimension all_resources
proof
  fix r s :: distributive_resource
  show "r \<in> set all_resources" by (cases r) (simp_all add: all_resources_def)
  show "distinct all_resources" by (simp add: all_resources_def)
  show "resource_dimension r = resource_dimension s \<Longrightarrow> r = s"
    by (cases r; cases s) (simp_all add: resource_dimension_def)
qed

interpretation rat: wire_enum ratchet_dimension all_ratchets
proof
  fix r s :: coherence_ratchet
  show "r \<in> set all_ratchets" by (cases r) (simp_all add: all_ratchets_def)
  show "distinct all_ratchets" by (simp add: all_ratchets_def)
  show "ratchet_dimension r = ratchet_dimension s \<Longrightarrow> r = s" by (cases r; cases s) simp_all
qed

datatype correlated_axis =
    RightsAsymmetry string
  | ParticipationExclusion string
  | ParticipationInclusion string
  | InformationalAsymmetry string
  | InformationalSymmetry string
  | AggregateFootprint string
  | AggregateBenefit string
  | EcologyOfCommunication string
  | CustomAxis string

fun correlated_suffix :: "correlated_axis \<Rightarrow> string" where
  "correlated_suffix (RightsAsymmetry population) = ''rights_asymmetry:'' @ population"
| "correlated_suffix (ParticipationExclusion cohort) = ''participation_exclusion:'' @ cohort"
| "correlated_suffix (ParticipationInclusion cohort) = ''participation_inclusion:'' @ cohort"
| "correlated_suffix (InformationalAsymmetry scope) = ''informational_asymmetry:'' @ scope"
| "correlated_suffix (InformationalSymmetry scope) = ''informational_symmetry:'' @ scope"
| "correlated_suffix (AggregateFootprint harm_class) = ''aggregate_footprint:'' @ harm_class"
| "correlated_suffix (AggregateBenefit cls) = ''aggregate_benefit:'' @ cls"
| "correlated_suffix (EcologyOfCommunication aspect) = ''ecology_of_communication:'' @ aspect"
| "correlated_suffix (CustomAxis axis) = axis"

definition correlated_dimension :: "correlated_axis \<Rightarrow> string" where
  "correlated_dimension a = ''detection:correlated_action:'' @ correlated_suffix a"

fun calibration_axis_label :: "correlated_axis \<Rightarrow> string option" where
  "calibration_axis_label (RightsAsymmetry _) = Some ''correlated_action:rights_asymmetry''"
| "calibration_axis_label (ParticipationExclusion _) = Some ''correlated_action:participation_exclusion''"
| "calibration_axis_label (InformationalAsymmetry _) = Some ''correlated_action:informational_asymmetry''"
| "calibration_axis_label (AggregateFootprint _) = Some ''correlated_action:aggregate_footprint''"
| "calibration_axis_label _ = None"

section \<open>Reading the corpus\<close>

definition num_field :: "string \<Rightarrow> json \<Rightarrow> f64" where
  "num_field k a = (case jget a k of None \<Rightarrow> fzero | Some v \<Rightarrow> (case as_f64 v of None \<Rightarrow> fzero | Some x \<Rightarrow> x))"

definition count_field :: "string \<Rightarrow> json \<Rightarrow> u64" where
  "count_field k a = (case jget a k of None \<Rightarrow> 0 | Some v \<Rightarrow> (case as_u64 v of None \<Rightarrow> 0 | Some n \<Rightarrow> n))"

definition str_field :: "string \<Rightarrow> json \<Rightarrow> string" where
  "str_field k a = (case jget a k of None \<Rightarrow> [] | Some v \<Rightarrow> (case as_str v of None \<Rightarrow> [] | Some s \<Rightarrow> s))"

definition obj_field :: "string \<Rightarrow> json \<Rightarrow> fields option" where
  "obj_field k a = (case jget a k of Some (JObj fs) \<Rightarrow> Some fs | _ \<Rightarrow> None)"

definition u64_or_zero :: "json \<Rightarrow> u64" where
  "u64_or_zero v = (case as_u64 v of None \<Rightarrow> 0 | Some n \<Rightarrow> n)"

text \<open>The pooled model counts: \<open>*pooled.entry(model).or_insert(0) += c\<close>.\<close>

definition pool_one :: "(string \<times> json) \<Rightarrow> (string \<times> u64) list \<Rightarrow> (string \<times> u64) list" where
  "pool_one = (\<lambda>(model, c) pooled.
     bt_put model ((case bt_get pooled model of None \<Rightarrow> 0 | Some n \<Rightarrow> n) + u64_or_zero c) pooled)"

definition pool_models :: "json list \<Rightarrow> (string \<times> u64) list" where
  "pool_models corpus =
     fold (\<lambda>a pooled. case obj_field ''llm_model_counts'' a of None \<Rightarrow> pooled | Some fs \<Rightarrow> fold pool_one fs pooled)
       corpus []"

definition flag_total :: "json \<Rightarrow> u64" where
  "flag_total a =
     (case obj_field ''dsdma_flags_count'' a of
        None \<Rightarrow> 0
      | Some fs \<Rightarrow> sum_list (map (\<lambda>(_, v). u64_or_zero v) (filter (\<lambda>(_, v). as_u64 v \<noteq> None) fs)))"

definition non_member :: "json \<Rightarrow> bool" where
  "non_member a =
     (\<not> (case jget a ''federation_member'' of None \<Rightarrow> True | Some v \<Rightarrow> (case as_bool v of None \<Rightarrow> True | Some b \<Rightarrow> b)))"

section \<open>Detectors\<close>

definition awaiting :: "axis_family \<Rightarrow> conformity" where
  "awaiting family = Indeterminate (AxisAwaitingCalibration family)"

definition distributive_score :: "distributive_resource \<Rightarrow> json list \<Rightarrow> conformity" where
  "distributive_score resource corpus = awaiting DistributiveAccess"

fun distributive_metric :: "distributive_resource \<Rightarrow> json list \<Rightarrow> f64 option option" where
  "distributive_metric Compute corpus = Some (gini (map (num_field ''cost_usd_sum'') corpus))"
| "distributive_metric Models corpus = Some (hhi (map snd (pool_models corpus)))"
| "distributive_metric AgentCapabilities corpus =
     Some (capability_diversity (map (\<lambda>a. (str_field ''cognitive_state_dominant'' a, str_field ''agent_role'' a)) corpus))"
| "distributive_metric FederationMembership corpus =
     Some (pooled_rate (of_nat (length (filter non_member corpus))) (of_nat (length corpus)))"
| "distributive_metric TrainingData corpus = None"

definition distributive_score_calibrated ::
    "distributive_resource \<Rightarrow> json list \<Rightarrow> axis_calibration \<Rightarrow> conformity option" where
  "distributive_score_calibrated resource corpus cal =
     (case axis_of cal (resource_axis_label resource) of
        None \<Rightarrow> Some (awaiting DistributiveAccess)
      | Some axis \<Rightarrow>
          map_option (\<lambda>m. as_conformity (axis_score m axis DistributiveAccess)) (distributive_metric resource corpus))"

definition correlated_score :: "correlated_axis \<Rightarrow> json list \<Rightarrow> conformity" where
  "correlated_score axis corpus = awaiting F3CorrelatedAction"

fun correlated_metric :: "(f64 \<Rightarrow> f64) \<Rightarrow> correlated_axis \<Rightarrow> json list \<Rightarrow> f64 option" where
  "correlated_metric log10 (RightsAsymmetry _) corpus =
     pooled_rate (sum_list (map (count_field ''pdma_conflict_count'') corpus)) (sum_list (map (count_field ''pdma_total'') corpus))"
| "correlated_metric log10 (ParticipationExclusion _) corpus =
     fraction_below_median (map (num_field ''n_distinct_domains'') corpus)"
| "correlated_metric log10 (InformationalAsymmetry _) corpus =
     coefficient_of_variation (map (\<lambda>a. f_of_nat (unat (flag_total a))) corpus)"
| "correlated_metric log10 (AggregateFootprint _) corpus =
     aggregate_footprint log10 (sum_list (map (count_field ''n_action'') corpus)) (length corpus)"
| "correlated_metric log10 _ corpus = None"

definition correlated_score_calibrated ::
    "(f64 \<Rightarrow> f64) \<Rightarrow> correlated_axis \<Rightarrow> json list \<Rightarrow> axis_calibration \<Rightarrow> conformity" where
  "correlated_score_calibrated log10 axis corpus cal =
     (case calibration_axis_label axis of
        None \<Rightarrow> awaiting F3CorrelatedAction
      | Some label \<Rightarrow>
          (case axis_of cal label of
             None \<Rightarrow> awaiting F3CorrelatedAction
           | Some entry \<Rightarrow> as_conformity (axis_score (correlated_metric log10 axis corpus) entry F3CorrelatedAction)))"

section \<open>Evidence references\<close>

datatype cohort_delineation =
    Members string "string list"
  | AlgorithmVersion string

definition build_axis_evidence_refs ::
    "axis_calibration \<Rightarrow> axis_entry \<Rightarrow> string \<Rightarrow> string option \<Rightarrow> string \<Rightarrow> cohort_delineation \<Rightarrow> string list" where
  "build_axis_evidence_refs cal axis bundle_sha prior_sha corpus_sha cohort =
     [bundle_evidence_ref cal bundle_sha]
     @ (case prior_sha of
          None \<Rightarrow> []
        | Some prior \<Rightarrow>
            [(case supersedes cal of None \<Rightarrow> ''crc-prior'' | Some v \<Rightarrow> v) @ '':bundle.sha256:'' @ prior])
     @ [''0612_prod_traces:trace_events.jsonl.gz:'' @ trace_events_sha256 (ac_corpus cal)]
     @ [''corpus_trace_events:'' @ corpus_sha]
     @ (case cohort of
          Members cohort_id members \<Rightarrow>
            (''cohort_delineation:cohort_id:'' @ cohort_id) # map (\<lambda>m. ''cohort_member:'' @ m) members
        | AlgorithmVersion v \<Rightarrow> [''cohort_derivation_algorithm:'' @ v])
     @ map (\<lambda>f. ''evidence_required:'' @ f) (evidence_required axis)"

section \<open>Facts\<close>

lemma distributive_metric_panics: "distributive_metric r corpus = None \<longleftrightarrow> r = TrainingData"
  by (cases r) simp_all

lemma empty_metrics:
  "distributive_metric r [] = Some m \<Longrightarrow> m = None" "correlated_metric log10 a [] = None"
  by (cases r; simp add: gini_def pool_models_def hhi_def capability_diversity_def pooled_rate_def)
    (cases a; simp add: pooled_rate_def fraction_below_median_def coefficient_of_variation_def aggregate_footprint_def)

text \<open>Every axis score awaits calibration or is a number: the detectors are never unavailable.\<close>

lemma axis_score_shape:
  "as_conformity (axis_score m entry family) = awaiting family \<or> (\<exists>x. as_conformity (axis_score m entry family) = Numeric x)"
  by (cases m) (auto simp: axis_score_def score_against_axis_def awaiting_def Let_def)

lemma axis_score_None [simp]: "as_conformity (axis_score None entry family) = awaiting family"
  by (simp add: axis_score_def awaiting_def)

lemma map_prefix_inj: "map ((@) p) xs = map ((@) p) ys \<Longrightarrow> xs = ys"
  using inj_map_eq_map [of "(@) p" xs ys] by (simp add: inj_def)

section \<open>Properties\<close>


definition sample_calibration :: axis_calibration where
  "sample_calibration = \<lparr>ac_version = 2, ac_projection_version = ''crc-v2'', ac_calibrated_at = None,
     supersedes = Some ''crc-v1'', ac_corpus = \<lparr>trace_events_sha256 = ''aa'', trace_llm_calls_sha256 = None\<rparr>,
     axes = [(''distributive:access:compute'', sample_axis)]\<rparr>"


text \<open>
  The evidence references bind what the verdict was computed from. For one calibration
  and axis, two reference lists are equal exactly when they cite the same active bundle
  hash, the same superseded hash or none, the same live corpus and the same cohort
  delineation, member by member; the active bundle is cited first, and during a transition
  the superseded one second.
\<close>

lemma evidence_refs_bind:
  "(build_axis_evidence_refs cal axis b1 p1 c1 h1 = build_axis_evidence_refs cal axis b2 p2 c2 h2
      \<longleftrightarrow> b1 = b2 \<and> p1 = p2 \<and> c1 = c2 \<and> h1 = h2)
   \<and> build_axis_evidence_refs cal axis b1 p1 c1 h1 ! 0 = bundle_evidence_ref cal b1
   \<and> build_axis_evidence_refs cal axis b1 (Some q) c1 h1 ! 1
       = (case supersedes cal of None \<Rightarrow> ''crc-prior'' | Some v \<Rightarrow> v) @ '':bundle.sha256:'' @ q"
  by (cases p1; cases p2; cases h1; cases h2)
    (auto simp: build_axis_evidence_refs_def bundle_evidence_ref_def dest: map_prefix_inj)

end
