(* ===== verification/Ner.thy ===== *)
theory Ner
  imports Json
begin

text \<open>
  The post-inference half of \<open>src/patterns_from_cirislens_core/scrubber/ner.rs\<close> with the
  result types of \<open>scrubber/mod.rs\<close>: turning per-token labels into spans and replacing spans
  by numbered placeholders. A Rust string is its list of UTF-8 bytes, so that byte offsets
  are list positions; a slice out of range or off a character boundary panics.
\<close>

section \<open>Results\<close>

datatype scrub_error =
    InvalidLevel string
  | NerFailed string
  | WalkerDepthExceeded nat
  | YearResidue nat
  | ProbeMatch
  | NerNotConfigured

datatype 'a scrub = Done 'a | Rejected scrub_error | Panic

record scrub_stats =
  entities_redacted :: nat
  regex_redactions :: nat
  fields_modified :: nat
  walker_max_depth :: nat
  ner_ran :: bool
  ner_cache_hits :: nat
  ner_cache_misses :: nat

definition stats_default :: scrub_stats where
  "stats_default = \<lparr>entities_redacted = 0, regex_redactions = 0, fields_modified = 0,
     walker_max_depth = 0, ner_ran = False, ner_cache_hits = 0, ner_cache_misses = 0\<rparr>"

fun sc_bind :: "'a scrub \<Rightarrow> ('a \<Rightarrow> 'b scrub) \<Rightarrow> 'b scrub" where
  "sc_bind (Done a) f = f a"
| "sc_bind (Rejected e) f = Rejected e"
| "sc_bind Panic f = Panic"

lemma sc_bind_Done_iff: "sc_bind r f = Done b \<longleftrightarrow> (\<exists>a. r = Done a \<and> f a = Done b)"
  by (cases r) simp_all

section \<open>Text\<close>

abbreviation byte :: "char \<Rightarrow> nat" where
  "byte c \<equiv> of_char c"

abbreviation continuation :: "char \<Rightarrow> bool" where
  "continuation c \<equiv> 128 \<le> byte c \<and> byte c < 192"

text \<open>Well-formed UTF-8 (\<open>str::from_utf8\<close>).\<close>

fun valid_utf8 :: "string \<Rightarrow> bool" where
  "valid_utf8 [] = True"
| "valid_utf8 (a # r) =
     (if byte a < 128 then valid_utf8 r
      else if 194 \<le> byte a \<and> byte a < 224 then
        (case r of b # r' \<Rightarrow> continuation b \<and> valid_utf8 r' | _ \<Rightarrow> False)
      else if 224 \<le> byte a \<and> byte a < 240 then
        (case r of b # c # r' \<Rightarrow>
           continuation b \<and> continuation c \<and> (byte a = 224 \<longrightarrow> 160 \<le> byte b) \<and> (byte a = 237 \<longrightarrow> byte b < 160)
           \<and> valid_utf8 r' | _ \<Rightarrow> False)
      else if 240 \<le> byte a \<and> byte a < 245 then
        (case r of b # c # d # r' \<Rightarrow>
           continuation b \<and> continuation c \<and> continuation d
           \<and> (byte a = 240 \<longrightarrow> 144 \<le> byte b) \<and> (byte a = 244 \<longrightarrow> byte b < 144) \<and> valid_utf8 r' | _ \<Rightarrow> False)
      else False)"

definition utf8_or_empty :: "string \<Rightarrow> string" where
  "utf8_or_empty s = (if valid_utf8 s then s else [])"

definition sub :: "nat \<Rightarrow> nat \<Rightarrow> string \<Rightarrow> string" where
  "sub i j t = take (j - i) (drop i t)"

definition char_boundary :: "string \<Rightarrow> nat \<Rightarrow> bool" where
  "char_boundary t i = (i = 0 \<or> i = length t \<or> (i < length t \<and> \<not> continuation (t ! i)))"

definition str_slice :: "string \<Rightarrow> nat \<Rightarrow> nat \<Rightarrow> string scrub" where
  "str_slice t i j =
     (if i \<le> j \<and> j \<le> length t \<and> char_boundary t i \<and> char_boundary t j then Done (sub i j t) else Panic)"

section \<open>Labels to spans\<close>

type_synonym span = "nat \<times> nat \<times> string"

text \<open>\<open>split_once('-')\<close>, with the whole label as an inside tag when there is no dash.\<close>

definition split_label :: "string \<Rightarrow> string \<times> string" where
  "split_label l =
     (let p = takeWhile (\<lambda>c. c \<noteq> CHR ''-'') l
      in if length p < length l then (p, drop (length p + 1) l) else (''I'', l))"

definition flush :: "span list \<times> span option \<Rightarrow> span list" where
  "flush st = (case snd st of None \<Rightarrow> fst st | Some sp \<Rightarrow> fst st @ [sp])"

definition label_of :: "string list \<Rightarrow> nat \<Rightarrow> string" where
  "label_of labels i = (if i < length labels then labels ! i else ''O'')"

definition bio_step ::
    "string list \<Rightarrow> nat \<times> nat \<times> nat \<Rightarrow> span list \<times> span option \<Rightarrow> span list \<times> span option" where
  "bio_step labels tok st =
     (case tok of (lid, s, e) \<Rightarrow>
        if s = e then (flush st, None)
        else if label_of labels lid = ''O'' then (flush st, None)
        else (case split_label (label_of labels lid) of (prefix, tag) \<Rightarrow>
          (case snd st of
             Some (cs, ce, ct) \<Rightarrow>
               if prefix = ''I'' \<and> ct = tag then (fst st, Some (cs, e, ct)) else (flush st, Some (s, e, tag))
           | None \<Rightarrow> (fst st, Some (s, e, tag)))))"

text \<open>Labels beyond the offsets are read with the empty offset.\<close>

definition tokens_of :: "nat list \<Rightarrow> (nat \<times> nat) list \<Rightarrow> (nat \<times> nat \<times> nat) list" where
  "tokens_of ids offsets = zip ids (offsets @ replicate (length ids - length offsets) (0, 0))"

definition collapse_bio :: "nat list \<Rightarrow> (nat \<times> nat) list \<Rightarrow> string list \<Rightarrow> span list" where
  "collapse_bio ids offsets labels = flush (fold (bio_step labels) (tokens_of ids offsets) ([], None))"

section \<open>Spans to placeholders\<close>

definition placeholder :: "string \<Rightarrow> nat \<Rightarrow> string" where
  "placeholder tag n = ''['' @ tag @ ''_'' @ show_nat n @ '']''"

fun replace_loop ::
    "string \<Rightarrow> span list \<Rightarrow> nat \<Rightarrow> (string, nat) hmap \<Rightarrow> scrub_stats \<Rightarrow> string scrub \<times> scrub_stats" where
  "replace_loop t [] cur counts st = (Done (if cur < length t then utf8_or_empty (drop cur t) else []), st)"
| "replace_loop t ((s, e, tag) # sps) cur counts st =
     (if s < cur \<or> e > length t then replace_loop t sps cur counts st
      else if s > length t then (Panic, st)
      else
        (let n = (case hm_get counts tag of None \<Rightarrow> 0 | Some k \<Rightarrow> k) + 1;
             gap = utf8_or_empty (sub cur s t)
         in case replace_loop t sps e (hm_put tag n counts) (st\<lparr>entities_redacted := entities_redacted st + 1\<rparr>) of
              (r, st') \<Rightarrow> (sc_bind r (\<lambda>out. Done (gap @ placeholder tag n @ out)), st')))"

definition replace_spans :: "string \<Rightarrow> span list \<Rightarrow> scrub_stats \<Rightarrow> string scrub \<times> scrub_stats" where
  "replace_spans t spans st =
     (if spans = [] then (Done t, st) else replace_loop t (sort_key fst spans) 0 [] st)"

section \<open>What the spans are\<close>

text \<open>The tag a token carries; the spans of a token sequence whose offsets grow.\<close>

definition token_tag :: "string list \<Rightarrow> nat \<Rightarrow> string option" where
  "token_tag labels lid =
     (if label_of labels lid = ''O'' then None else Some (snd (split_label (label_of labels lid))))"

definition in_order :: "span list \<Rightarrow> bool" where
  "in_order sps \<longleftrightarrow> sorted_wrt (\<lambda>(_, e, _) (s, _, _). e \<le> s) sps \<and> (\<forall>(s, e, _) \<in> set sps. s < e)"

definition growing :: "(nat \<times> nat) list \<Rightarrow> bool" where
  "growing offs \<longleftrightarrow> (\<forall>(s, e) \<in> set offs. s < e) \<and> sorted_wrt (\<lambda>(_, e) (s, _). e \<le> s) offs"

abbreviation solid :: "(nat \<times> nat \<times> nat) list \<Rightarrow> (nat \<times> nat \<times> nat) list" where
  "solid toks \<equiv> filter (\<lambda>(_, s, e). s \<noteq> e) toks"

text \<open>
  What has been collected after the (non-empty) tokens \<open>ts\<close>: every span ends with a token
  seen (\<open>ends\<close>), every tagged token is covered under its tag (\<open>covers\<close>), no untagged one
  is touched (\<open>avoids\<close>), and an open span starts after every untagged token (\<open>starts\<close>).
\<close>

type_synonym token = "nat \<times> nat \<times> nat"

definition ends :: "token list \<Rightarrow> span list \<Rightarrow> bool" where
  "ends ts sps \<longleftrightarrow> (\<forall>(s, e, t) \<in> set sps. \<exists>(l, s', e') \<in> set ts. e \<le> e')"

definition covers :: "string list \<Rightarrow> token list \<Rightarrow> span list \<Rightarrow> bool" where
  "covers labels ts sps \<longleftrightarrow>
     (\<forall>(l, s, e) \<in> set ts. \<forall>t. token_tag labels l = Some t \<longrightarrow> (\<exists>(s', e', t') \<in> set sps. t' = t \<and> s' \<le> s \<and> e \<le> e'))"

definition avoids :: "string list \<Rightarrow> token list \<Rightarrow> span list \<Rightarrow> bool" where
  "avoids labels ts sps \<longleftrightarrow>
     (\<forall>(l, s, e) \<in> set ts. token_tag labels l = None \<longrightarrow> (\<forall>(s', e', t) \<in> set sps. e' \<le> s \<or> e \<le> s'))"

definition starts :: "string list \<Rightarrow> token list \<Rightarrow> nat \<Rightarrow> bool" where
  "starts labels ts cs \<longleftrightarrow> (\<forall>(l, s, e) \<in> set ts. token_tag labels l = None \<longrightarrow> e \<le> cs)"

definition bio_inv :: "string list \<Rightarrow> token list \<Rightarrow> span list \<times> span option \<Rightarrow> bool" where
  "bio_inv labels ts st \<longleftrightarrow>
     in_order (flush st) \<and> ends ts (flush st) \<and> covers labels ts (flush st) \<and> avoids labels ts (flush st)
     \<and> (case snd st of None \<Rightarrow> True | Some (cs, _, _) \<Rightarrow> starts labels ts cs)"

lemma flush_None [simp]: "flush (sps, None) = sps"
  and flush_Some [simp]: "flush (sps, Some x) = sps @ [x]"
  by (simp_all add: flush_def)

lemma in_order_snoc:
  "in_order (sps @ [(s, e, t)]) \<longleftrightarrow> in_order sps \<and> s < e \<and> (\<forall>(s', e', t') \<in> set sps. e' \<le> s)"
  by (auto simp: in_order_def sorted_wrt_append)

lemma bio_inv_empty: "bio_inv labels [] ([], None)"
  by (simp add: bio_inv_def in_order_def ends_def covers_def avoids_def)

lemma bio_inv_flush: "bio_inv labels ts st \<Longrightarrow> bio_inv labels ts (flush st, None)"
  by (simp add: bio_inv_def)

definition before :: "token list \<Rightarrow> nat \<Rightarrow> bool" where
  "before ts s \<longleftrightarrow> (\<forall>(l, s', e') \<in> set ts. e' \<le> s)"

lemma ends_before: "ends ts sps \<Longrightarrow> before ts s \<Longrightarrow> \<forall>(s', e', t') \<in> set sps. e' \<le> s"
  unfolding ends_def before_def by fastforce

lemma starts_before: "before ts s \<Longrightarrow> starts labels ts s"
  by (auto simp: starts_def before_def)

lemma ends_token: "ends ts sps \<Longrightarrow> ends (ts @ [tok]) sps"
  unfolding ends_def by fastforce

lemma ends_snoc: "ends ts (sps @ [(s, e, t)]) \<longleftrightarrow> ends ts sps \<and> (\<exists>(l, s', e') \<in> set ts. e \<le> e')"
  by (auto simp: ends_def)

lemma covers_token:
  "covers labels (ts @ [(l, s, e)]) sps \<longleftrightarrow> covers labels ts sps
     \<and> (\<forall>t. token_tag labels l = Some t \<longrightarrow> (\<exists>(s', e', t') \<in> set sps. t' = t \<and> s' \<le> s \<and> e \<le> e'))"
  by (auto simp: covers_def)

lemma covers_grow:
  assumes "covers labels ts sps"
    and g: "\<And>s e t. (s, e, t) \<in> set sps \<Longrightarrow> \<exists>s' e'. (s', e', t) \<in> set sps' \<and> s' \<le> s \<and> e \<le> e'"
  shows "covers labels ts sps'"
  unfolding covers_def
proof clarify
  fix l s e t
  assume "(l, s, e) \<in> set ts" "token_tag labels l = Some t"
  with assms(1) obtain s1 e1 where 1: "(s1, e1, t) \<in> set sps" "s1 \<le> s" "e \<le> e1"
    unfolding covers_def by fast
  from g [OF 1(1)] obtain s2 e2 where 2: "(s2, e2, t) \<in> set sps'" "s2 \<le> s1" "e1 \<le> e2" by blast
  show "\<exists>(s', e', t') \<in> set sps'. t' = t \<and> s' \<le> s \<and> e \<le> e'"
    by (rule bexI [OF _ 2(1)]) (use 1 2 in simp)
qed

lemma avoids_token:
  "avoids labels (ts @ [(l, s, e)]) sps \<longleftrightarrow> avoids labels ts sps
     \<and> (token_tag labels l = None \<longrightarrow> (\<forall>(s', e', t) \<in> set sps. e' \<le> s \<or> e \<le> s'))"
  by (auto simp: avoids_def)

lemma avoids_snoc:
  "avoids labels ts (sps @ [(s, e, t)]) \<longleftrightarrow> avoids labels ts sps
     \<and> (\<forall>(l, s', e') \<in> set ts. token_tag labels l = None \<longrightarrow> e \<le> s' \<or> e' \<le> s)"
  by (auto simp: avoids_def)

lemma starts_avoids: "avoids labels ts sps \<Longrightarrow> starts labels ts s \<Longrightarrow> avoids labels ts (sps @ [(s, e, t)])"
  by (auto simp: avoids_snoc starts_def)

lemma starts_token: "token_tag labels l = Some t \<Longrightarrow> starts labels ts cs \<Longrightarrow> starts labels (ts @ [(l, s, e)]) cs"
  by (auto simp: starts_def)

lemma bio_inv_untagged:
  assumes inv: "bio_inv labels ts (sps, None)" and tok: "token_tag labels l = None" and b: "before ts s"
  shows "bio_inv labels (ts @ [(l, s, e)]) (sps, None)"
proof -
  have "ends ts sps" using inv by (simp add: bio_inv_def)
  from ends_before [OF this b] have "\<forall>(s', e', t) \<in> set sps. e' \<le> s \<or> e \<le> s'" by auto
  with inv tok show ?thesis by (simp add: bio_inv_def ends_token covers_token avoids_token)
qed

lemma bio_inv_open:
  assumes inv: "bio_inv labels ts (sps, None)" and tok: "s < e" "token_tag labels l = Some t" and b: "before ts s"
  shows "bio_inv labels (ts @ [(l, s, e)]) (sps, Some (s, e, t))"
proof -
  have i: "in_order sps" "ends ts sps" "covers labels ts sps" "avoids labels ts sps"
    using inv by (simp_all add: bio_inv_def)
  have st: "starts labels (ts @ [(l, s, e)]) s" using tok(2) starts_before [OF b] by (rule starts_token)
  have "avoids labels (ts @ [(l, s, e)]) sps" using i(4) tok(2) by (simp add: avoids_token)
  then have "avoids labels (ts @ [(l, s, e)]) (sps @ [(s, e, t)])" using st by (rule starts_avoids)
  moreover have "covers labels ts (sps @ [(s, e, t)])" using i(3) by (rule covers_grow) fastforce
  ultimately show ?thesis
    using i tok st ends_before [OF i(2) b]
    by (simp add: bio_inv_def in_order_snoc ends_snoc ends_token covers_token)
qed

lemma bio_inv_extend:
  assumes inv: "bio_inv labels ts (sps, Some (cs, ce, t))" and tok: "s < e" "token_tag labels l = Some t"
    and b: "before ts s"
  shows "bio_inv labels (ts @ [(l, s, e)]) (sps, Some (cs, e, t))"
proof -
  have i: "in_order sps" "\<forall>(s', e', t') \<in> set sps. e' \<le> cs" "cs < ce" "ends ts (sps @ [(cs, ce, t)])"
    "covers labels ts (sps @ [(cs, ce, t)])" "avoids labels ts sps" "starts labels ts cs"
    using inv by (simp_all add: bio_inv_def in_order_snoc avoids_snoc)
  have ce: "ce \<le> s" using ends_before [OF i(4) b] by simp
  have st: "starts labels (ts @ [(l, s, e)]) cs" using tok(2) i(7) by (rule starts_token)
  have "avoids labels (ts @ [(l, s, e)]) sps" using i(6) tok(2) by (simp add: avoids_token)
  then have "avoids labels (ts @ [(l, s, e)]) (sps @ [(cs, e, t)])" using st by (rule starts_avoids)
  moreover have "covers labels ts (sps @ [(cs, e, t)])"
    using i(5) by (rule covers_grow) (use ce tok(1) in fastforce)
  ultimately show ?thesis
    using i tok st ce
    by (simp add: bio_inv_def in_order_snoc ends_snoc ends_token covers_token)
qed

lemma bio_step_inv:
  assumes inv: "bio_inv labels ts st" and tok: "s < e" and b: "before ts s"
  shows "bio_inv labels (ts @ [(l, s, e)]) (bio_step labels (l, s, e) st)"
proof (cases "label_of labels l = ''O''")
  case True
  then show ?thesis
    using tok bio_inv_untagged [OF bio_inv_flush [OF inv] _ b] by (simp add: bio_step_def token_tag_def)
next
  case False
  obtain p t where pt: "split_label (label_of labels l) = (p, t)" by fastforce
  then have tt: "token_tag labels l = Some t" using False by (simp add: token_tag_def)
  note op = bio_inv_open [OF bio_inv_flush [OF inv] tok tt b]
  show ?thesis
  proof (cases "snd st")
    case None
    then show ?thesis using op tok False pt by (cases st) (simp add: bio_step_def)
  next
    case (Some sp)
    obtain cs ce ct where sp: "sp = (cs, ce, ct)" by (cases sp)
    show ?thesis
    proof (cases "p = ''I'' \<and> ct = t")
      case True
      then have "bio_inv labels ts (fst st, Some (cs, ce, t))" using inv Some sp by (cases st) simp
      from bio_inv_extend [OF this tok tt b] show ?thesis
        using Some sp tok False pt True by (cases st) (simp add: bio_step_def)
    next
      case other: False
      then show ?thesis using op Some sp tok False pt by (cases st) (auto simp: bio_step_def)
    qed
  qed
qed

lemma growing_snoc: "growing (offs @ (s, e) # rest) \<Longrightarrow> s < e \<and> (\<forall>(s', e') \<in> set offs. e' \<le> s)"
  by (auto simp: growing_def sorted_wrt_append)

lemma bio_fold_inv:
  "bio_inv labels ts st \<Longrightarrow> growing (map snd (ts @ solid toks)) \<Longrightarrow>
     bio_inv labels (ts @ solid toks) (fold (bio_step labels) toks st)"
proof (induction toks arbitrary: ts st)
  case (Cons tok toks)
  obtain l s e where tok: "tok = (l, s, e)" by (cases tok)
  show ?case
  proof (cases "s = e")
    case True
    then have "bio_step labels tok st = (flush st, None)" by (simp add: tok bio_step_def)
    then show ?thesis using Cons.IH [OF bio_inv_flush [OF Cons.prems(1)]] Cons.prems(2) True by (simp add: tok)
  next
    case False
    have g: "growing (map snd ts @ (s, e) # map snd (solid toks))"
      using Cons.prems(2) False by (simp add: tok)
    from growing_snoc [OF this] have "s < e" "before ts s" by (auto simp: before_def)
    from bio_step_inv [OF Cons.prems(1) this]
    have "bio_inv labels (ts @ [tok]) (bio_step labels tok st)" by (simp add: tok)
    from Cons.IH [OF this] g show ?thesis using False by (simp add: tok)
  qed
qed simp

lemma collapse_bio_spec:
  assumes "growing (map snd (solid (tokens_of ids offsets)))"
  shows "bio_inv labels (solid (tokens_of ids offsets)) (collapse_bio ids offsets labels, None)"
  unfolding collapse_bio_def
  using bio_fold_inv [OF bio_inv_empty, of "tokens_of ids offsets" labels] assms by (simp add: bio_inv_flush)

section \<open>What the placeholders hide\<close>

definition agree_outside :: "span list \<Rightarrow> nat \<Rightarrow> string \<Rightarrow> string \<Rightarrow> bool" where
  "agree_outside sps from t u \<longleftrightarrow> length u = length t
     \<and> (\<forall>i. from \<le> i \<longrightarrow> i < length t \<longrightarrow> (\<forall>(s, e, _) \<in> set sps. i < s \<or> e \<le> i) \<longrightarrow> u ! i = t ! i)"

lemma sub_agree:
  "length u = length t \<Longrightarrow> (\<And>k. i \<le> k \<Longrightarrow> k < j \<Longrightarrow> k < length t \<Longrightarrow> u ! k = t ! k) \<Longrightarrow> sub i j u = sub i j t"
  by (rule nth_equalityI) (auto simp: sub_def)

lemma in_order_Cons:
  "in_order ((s, e, t) # sps) \<longleftrightarrow> s < e \<and> in_order sps \<and> (\<forall>(s', e', t') \<in> set sps. e \<le> s')"
  by (auto simp: in_order_def)

lemma replace_loop_hides:
  assumes "in_order sps" "\<forall>(s, e, _) \<in> set sps. cur \<le> s \<and> e \<le> length t" "agree_outside sps cur t u"
  shows "\<exists>out. replace_loop t sps cur counts st = (Done out, st\<lparr>entities_redacted := entities_redacted st + length sps\<rparr>)
     \<and> replace_loop u sps cur counts st = (Done out, st\<lparr>entities_redacted := entities_redacted st + length sps\<rparr>)"
  using assms
proof (induction sps arbitrary: cur counts st)
  case Nil
  then have "drop cur u = drop cur t" "length u = length t"
    by (auto simp: agree_outside_def intro: nth_equalityI)
  then show ?case by simp
next
  case (Cons sp sps)
  obtain s e tag where sp: "sp = (s, e, tag)" by (cases sp)
  have o: "s < e" "in_order sps" "\<forall>(s', e', t') \<in> set sps. e \<le> s'"
    using Cons.prems(1) by (simp_all add: sp in_order_Cons)
  have b: "cur \<le> s" "e \<le> length t" "length u = length t"
    using Cons.prems by (simp_all add: sp agree_outside_def)
  have later: "\<forall>(s', e', _) \<in> set sps. e \<le> s' \<and> e' \<le> length t" using o(3) Cons.prems(2) by fastforce
  have gap: "sub cur s u = sub cur s t"
  proof (rule sub_agree [OF b(3)])
    fix k assume k: "cur \<le> k" "k < s" "k < length t"
    have "\<forall>(s', e', _) \<in> set (sp # sps). k < s' \<or> e' \<le> k" using k o by (fastforce simp: sp)
    then show "u ! k = t ! k" using Cons.prems(3) k unfolding agree_outside_def by blast
  qed
  have "agree_outside sps e t u"
    unfolding agree_outside_def
  proof (intro conjI allI impI b(3))
    fix i assume i: "e \<le> i" "i < length t" "\<forall>(s, e, _) \<in> set sps. i < s \<or> e \<le> i"
    then have "\<forall>(s', e', _) \<in> set (sp # sps). i < s' \<or> e' \<le> i" by (simp add: sp)
    then show "u ! i = t ! i" using Cons.prems(3) i o(1) b(1) unfolding agree_outside_def by fastforce
  qed
  note IH = Cons.IH [OF o(2) later this]
  define n where "n = (case hm_get counts tag of None \<Rightarrow> 0 | Some k \<Rightarrow> k) + 1"
  from IH [of "hm_put tag n counts" "st\<lparr>entities_redacted := entities_redacted st + 1\<rparr>"] obtain out where
    "replace_loop v sps e (hm_put tag n counts) (st\<lparr>entities_redacted := entities_redacted st + 1\<rparr>)
       = (Done out, st\<lparr>entities_redacted := entities_redacted st + length (sp # sps)\<rparr>)" if "v = t \<or> v = u" for v
    by auto
  then have "replace_loop v (sp # sps) cur counts st
      = (Done (utf8_or_empty (sub cur s t) @ placeholder tag n @ out),
         st\<lparr>entities_redacted := entities_redacted st + length (sp # sps)\<rparr>)" if "v = t \<or> v = u" for v
    using that b o(1) gap by (auto simp: sp Let_def n_def)
  then show ?case by blast
qed

lemma in_order_sorted: "in_order sps \<Longrightarrow> sorted (map fst sps)"
proof (induction sps)
  case (Cons sp sps)
  then show ?case by (cases sp) (fastforce simp: in_order_Cons)
qed simp

lemma replace_spans_hides:
  assumes "in_order sps" "\<forall>(s, e, _) \<in> set sps. e \<le> length t" "agree_outside sps 0 t u" "sps = [] \<longrightarrow> u = t"
  shows "\<exists>out. replace_spans t sps st = (Done out, st\<lparr>entities_redacted := entities_redacted st + length sps\<rparr>)
     \<and> replace_spans u sps st = (Done out, st\<lparr>entities_redacted := entities_redacted st + length sps\<rparr>)"
  using replace_loop_hides [of sps 0 t u "[]" st] assms in_order_sorted [OF assms(1)]
  by (auto simp: replace_spans_def sort_key_id_if_sorted)

section \<open>Properties of the spans\<close>

text \<open>
  C13: tagged text is hidden. When the token offsets grow and stay inside the text, the
  collapsed spans cover every tagged token, under its tag, and touch no untagged one, and
  replacing them never panics and counts them; the redacted text is the same for any two
  texts of the same length that differ only inside tagged tokens, so nothing of a tagged
  token shows in it.
\<close>

theorem tagged_text_is_hidden:
  assumes offs: "growing (map snd (solid (tokens_of ids offsets)))"
    and inside: "\<forall>(l, s, e) \<in> set (tokens_of ids offsets). e \<le> length t"
    and len: "length u = length t"
    and same: "\<forall>i < length t. (\<forall>(l, s, e) \<in> set (tokens_of ids offsets). s \<le> i \<and> i < e \<longrightarrow> token_tag labels l = None)
      \<longrightarrow> u ! i = t ! i"
  defines "sps \<equiv> collapse_bio ids offsets labels"
  shows "covers labels (solid (tokens_of ids offsets)) sps \<and> avoids labels (solid (tokens_of ids offsets)) sps
    \<and> (\<exists>out. replace_spans t sps st = (Done out, st\<lparr>entities_redacted := entities_redacted st + length sps\<rparr>)
        \<and> replace_spans u sps st = (Done out, st\<lparr>entities_redacted := entities_redacted st + length sps\<rparr>))"
proof -
  have inv: "in_order sps" "ends (solid (tokens_of ids offsets)) sps"
    "covers labels (solid (tokens_of ids offsets)) sps" "avoids labels (solid (tokens_of ids offsets)) sps"
    using collapse_bio_spec [OF offs, of labels] by (simp_all add: bio_inv_def sps_def)
  have fit: "\<forall>(s, e, _) \<in> set sps. e \<le> length t"
  proof clarify
    fix s e t'
    assume "(s, e, t') \<in> set sps"
    with inv(2) obtain l s' e' where "(l, s', e') \<in> set (solid (tokens_of ids offsets))" "e \<le> e'"
      unfolding ends_def by fast
    with inside show "e \<le> length t" by fastforce
  qed
  have hidden: "\<exists>(s', e', t') \<in> set sps. s' \<le> i \<and> i < e'"
    if tok: "(l, s, e) \<in> set (tokens_of ids offsets)" "s \<le> i" "i < e" "token_tag labels l \<noteq> None" for l s e i
  proof -
    obtain tg where tg: "token_tag labels l = Some tg" using tok(4) by auto
    have "(l, s, e) \<in> set (solid (tokens_of ids offsets))" using tok by auto
    with inv(3) tg obtain s' e' where "(s', e', tg) \<in> set sps" "s' \<le> s" "e \<le> e'"
      unfolding covers_def by fast
    then show ?thesis using tok by (auto intro!: bexI [of _ "(s', e', tg)"])
  qed
  have agree: "agree_outside sps 0 t u"
    unfolding agree_outside_def
  proof (intro conjI allI impI len)
    fix i assume i: "i < length t" "\<forall>(s, e, _) \<in> set sps. i < s \<or> e \<le> i"
    then have "\<forall>(l, s, e) \<in> set (tokens_of ids offsets). s \<le> i \<and> i < e \<longrightarrow> token_tag labels l = None"
      using hidden by fastforce
    with i(1) same show "u ! i = t ! i" by blast
  qed
  moreover have "u = t" if "sps = []"
    using agree that len by (auto simp: agree_outside_def intro: nth_equalityI)
  ultimately show ?thesis using inv(3,4) replace_spans_hides [OF inv(1) fit] by blast
qed

lemma tagged_text_is_hidden_witness:
  "replace_spans ''Bob ran'' (collapse_bio [0, 1, 0] [(0, 0), (0, 3), (4, 7)] [''O'', ''B-PER'']) stats_default
   = replace_spans ''Ann ran'' (collapse_bio [0, 1, 0] [(0, 0), (0, 3), (4, 7)] [''O'', ''B-PER'']) stats_default"
proof -
  let ?toks = "tokens_of [0, 1, 0] [(0, 0), (0, 3), (4, 7)]"
  have toks: "?toks = [(0, 0, 0), (1, 0, 3), (0, 4, 7)]" by (simp add: tokens_of_def)
  have tags: "token_tag [''O'', ''B-PER''] 0 = None" "token_tag [''O'', ''B-PER''] 1 \<noteq> None"
    by (simp_all add: token_tag_def label_of_def)
  have 1: "growing (map snd (solid ?toks))" unfolding toks by (simp add: growing_def)
  have 2: "\<forall>(l, s, e) \<in> set ?toks. e \<le> length ''Ann ran''" unfolding toks by simp
  have 3: "\<forall>i < length ''Ann ran''. (\<forall>(l, s, e) \<in> set ?toks. s \<le> i \<and> i < e \<longrightarrow> token_tag [''O'', ''B-PER''] l = None)
      \<longrightarrow> ''Bob ran'' ! i = ''Ann ran'' ! i"
    using tags unfolding toks by (auto simp: less_Suc_eq numeral_eq_Suc)
  from tagged_text_is_hidden [OF 1 2 _ 3, of stats_default] show ?thesis by auto
qed

end
