(* ===== verification/NerBatch.thy ===== *)
theory NerBatch
  imports Ner
begin

text \<open>
  The inference half of \<open>scrubber/ner.rs\<close>: chunking a text by tokens, batching chunks of
  many texts by length, and the content cache in front of the backend. The tokenizer and
  the model are not in the repository: they are the parameters \<open>tokenize\<close> (offsets of the
  tokens of a text) and \<open>infer\<close> (label ids and offsets for each chunk of a mini-batch).
\<close>

section \<open>The batched backend\<close>

definition max_tokens_per_chunk :: nat where
  "max_tokens_per_chunk = 192"

definition max_batch_chunks :: nat where
  "max_batch_chunks = 64"

text \<open>\<open>slice::chunks\<close>.\<close>

function groups_of :: "nat \<Rightarrow> 'a list \<Rightarrow> 'a list list" where
  "groups_of n xs = (if xs = [] \<or> n = 0 then [] else take n xs # groups_of n (drop n xs))"
  by pat_completeness auto

termination by (relation "measure (length \<circ> snd)") auto

declare groups_of.simps [simp del]

fun sc_map :: "('a \<Rightarrow> 'b scrub) \<Rightarrow> 'a list \<Rightarrow> 'b list scrub" where
  "sc_map f [] = Done []"
| "sc_map f (x # xs) = sc_bind (f x) (\<lambda>y. sc_bind (sc_map f xs) (\<lambda>ys. Done (y # ys)))"

fun sc_fold :: "('a \<Rightarrow> 'b \<Rightarrow> 'b scrub) \<Rightarrow> 'a list \<Rightarrow> 'b \<Rightarrow> 'b scrub" where
  "sc_fold f [] s = Done s"
| "sc_fold f (x # xs) s = sc_bind (f x s) (sc_fold f xs)"

type_synonym tokenizer = "string \<Rightarrow> string + (nat \<times> nat) list"
type_synonym inference = "string list \<Rightarrow> string + (nat list \<times> (nat \<times> nat) list) list"

definition pre_chunk :: "tokenizer \<Rightarrow> string \<Rightarrow> (nat \<times> string) list scrub" where
  "pre_chunk tokenize text =
     (case tokenize text of
        Inl e \<Rightarrow> Rejected (NerFailed (''tokenize: '' @ e))
      | Inr offsets \<Rightarrow>
          sc_bind (sc_map (\<lambda>g. let i = fst (hd g); j = snd (last g)
                             in if j > i then sc_bind (str_slice text i j) (\<lambda>c. Done [(i, c)]) else Done [])
                    (groups_of max_tokens_per_chunk offsets))
            (\<lambda>cs. Done (concat cs)))"

type_synonym chunk = "nat \<times> nat \<times> string"

definition shift :: "nat \<Rightarrow> span list \<Rightarrow> span list" where
  "shift off sps = map (\<lambda>(s, e, tag). (s + off, e + off, tag)) sps"

definition push_spans :: "nat \<Rightarrow> span list \<Rightarrow> span list list \<Rightarrow> span list list" where
  "push_spans i sps per = per[i := per ! i @ sps]"

definition run_batch :: "inference \<Rightarrow> string list \<Rightarrow> chunk list \<Rightarrow> span list list \<Rightarrow> span list list scrub" where
  "run_batch infer labels batch per =
     (if batch = [] then Done per
      else (case infer (map (\<lambda>(_, _, c). c) batch) of
              Inl e \<Rightarrow> Rejected (NerFailed e)
            | Inr res \<Rightarrow>
                if length res < length batch then Panic
                else Done (fold (\<lambda>((i, off, _), (ids, offs)). push_spans i (shift off (collapse_bio ids offs labels)))
                       (zip batch res) per)))"

fun replace_all :: "(string \<times> span list) list \<Rightarrow> scrub_stats \<Rightarrow> string list scrub \<times> scrub_stats" where
  "replace_all [] st = (Done [], st)"
| "replace_all ((t, sps) # r) st =
     (case replace_spans t sps st of
        (Done out, st') \<Rightarrow> (case replace_all r st' of (outs, st'') \<Rightarrow> (sc_bind outs (\<lambda>os. Done (out # os)), st''))
      | (Rejected e, st') \<Rightarrow> (Rejected e, st')
      | (Panic, st') \<Rightarrow> (Panic, st'))"

definition flat_chunks :: "tokenizer \<Rightarrow> string list \<Rightarrow> chunk list scrub" where
  "flat_chunks tokenize texts =
     sc_bind (sc_map (\<lambda>(i, t). sc_bind (pre_chunk tokenize t) (\<lambda>cs. Done (map (Pair i) cs))) (enumerate 0 texts))
       (\<lambda>css. Done (concat css))"

definition chunk_length :: "chunk \<Rightarrow> nat" where
  "chunk_length = (\<lambda>(_, _, c). length c)"

definition backend_scrub_batch ::
    "tokenizer \<Rightarrow> inference \<Rightarrow> string list \<Rightarrow> string list \<Rightarrow> scrub_stats \<Rightarrow> string list scrub \<times> scrub_stats" where
  "backend_scrub_batch tokenize infer labels texts st =
     (if texts = [] then (Done [], st)
      else (case sc_bind (flat_chunks tokenize texts) (\<lambda>flat.
                   sc_fold (run_batch infer labels) (groups_of max_batch_chunks (sort_key chunk_length flat))
                     (replicate (length texts) [])) of
              Done per \<Rightarrow> replace_all (zip texts per) st
            | Rejected e \<Rightarrow> (Rejected e, st)
            | Panic \<Rightarrow> (Panic, st)))"

section \<open>The content cache\<close>

type_synonym ner_cache = "(string, string) hmap"
type_synonym ner_backend = "string list \<Rightarrow> scrub_stats \<Rightarrow> string list scrub \<times> scrub_stats"

record scan =
  sn_out :: "string option list"
  sn_slots :: "nat option list"
  sn_misses :: "string list"
  sn_lookup :: "(string, nat) hmap"
  sn_hits :: nat

definition scan_step :: "ner_cache \<Rightarrow> string \<Rightarrow> scan \<Rightarrow> scan" where
  "scan_step cache t s =
     (case hm_get cache t of
        Some v \<Rightarrow> s\<lparr>sn_out := sn_out s @ [Some v], sn_slots := sn_slots s @ [None], sn_hits := sn_hits s + 1\<rparr>
      | None \<Rightarrow>
          (case hm_get (sn_lookup s) t of
             Some i \<Rightarrow> s\<lparr>sn_out := sn_out s @ [None], sn_slots := sn_slots s @ [Some i]\<rparr>
           | None \<Rightarrow>
               s\<lparr>sn_out := sn_out s @ [None], sn_slots := sn_slots s @ [Some (length (sn_misses s))],
                 sn_lookup := hm_put t (length (sn_misses s)) (sn_lookup s), sn_misses := sn_misses s @ [t]\<rparr>))"

definition scan_start :: scan where
  "scan_start = \<lparr>sn_out = [], sn_slots = [], sn_misses = [], sn_lookup = [], sn_hits = 0\<rparr>"

definition or_empty :: "string option \<Rightarrow> string" where
  "or_empty o' = (case o' of None \<Rightarrow> [] | Some v \<Rightarrow> v)"

definition ner_scrub_batch ::
    "bool \<Rightarrow> ner_backend \<Rightarrow> string list \<Rightarrow> ner_cache \<Rightarrow> scrub_stats \<Rightarrow> string list scrub \<times> ner_cache \<times> scrub_stats" where
  "ner_scrub_batch configured backend texts cache st =
     (if \<not> configured then (Rejected NerNotConfigured, cache, st)
      else if texts = [] then (Done [], cache, st)
      else
        (let s = fold (scan_step cache) texts scan_start;
             st1 = st\<lparr>ner_cache_hits := ner_cache_hits st + sn_hits s\<rparr>
         in if sn_misses s = [] then (Done (map or_empty (sn_out s)), cache, st1)
            else
              (case backend (sn_misses s) (st1\<lparr>ner_cache_misses := ner_cache_misses st1 + length (sn_misses s)\<rparr>) of
                 (Done computed, st2) \<Rightarrow>
                   (let cache' = fold (\<lambda>(t, v). hm_put t v) (zip (sn_misses s) computed) cache
                    in if list_ex (\<lambda>sl. case sl of Some i \<Rightarrow> i \<ge> length computed | None \<Rightarrow> False) (sn_slots s)
                       then (Panic, cache', st2)
                       else (Done (map2 (\<lambda>o' sl. case sl of Some i \<Rightarrow> computed ! i | None \<Rightarrow> or_empty o')
                                    (sn_out s) (sn_slots s)), cache', st2))
               | (Rejected e, st2) \<Rightarrow> (Rejected e, cache, st2)
               | (Panic, st2) \<Rightarrow> (Panic, cache, st2))))"

text \<open>The single-text entry point bypasses the cache.\<close>

definition scrub_with_ner :: "bool \<Rightarrow> ner_backend \<Rightarrow> string \<Rightarrow> scrub_stats \<Rightarrow> string scrub \<times> scrub_stats" where
  "scrub_with_ner configured backend text st =
     (if \<not> configured then (Rejected NerNotConfigured, st)
      else (case backend [text] st of
              (r, st') \<Rightarrow> (sc_bind r (\<lambda>outs. Done (if outs = [] then [] else last outs)), st')))"

section \<open>Batching and caching\<close>

lemma concat_groups_of: "0 < n \<Longrightarrow> concat (groups_of n xs) = xs"
  by (induction n xs rule: groups_of.induct) (subst groups_of.simps, simp)

lemma groups_of_nonempty: "[] \<notin> set (groups_of n xs)"
  by (induction n xs rule: groups_of.induct) (subst groups_of.simps, auto)

text \<open>The redaction of a text depends on nothing but the text and its spans.\<close>

lemma replace_loop_pure:
  assumes "\<forall>(s, e, _) \<in> set sps. s \<le> e"
  shows "\<exists>out k. \<forall>st. replace_loop t sps cur counts st = (Done out, st\<lparr>entities_redacted := entities_redacted st + k\<rparr>)"
  using assms
proof (induction sps arbitrary: cur counts)
  case Nil
  show ?case by (rule exI, rule exI [of _ 0]) simp
next
  case (Cons sp sps)
  obtain s e tag where sp: "sp = (s, e, tag)" by (cases sp)
  define n where "n = (case hm_get counts tag of None \<Rightarrow> 0 | Some k \<Rightarrow> k) + 1"
  have "\<forall>(s, e, _) \<in> set sps. s \<le> e" using Cons.prems by simp
  note IH = Cons.IH [OF this]
  obtain out k where 1: "\<And>st. replace_loop t sps cur counts st = (Done out, st\<lparr>entities_redacted := entities_redacted st + k\<rparr>)"
    using IH [of cur counts] by blast
  obtain out' k' where 2: "\<And>st. replace_loop t sps e (hm_put tag n counts) st = (Done out', st\<lparr>entities_redacted := entities_redacted st + k'\<rparr>)"
    using IH [of e "hm_put tag n counts"] by blast
  have "s \<le> e" using Cons.prems by (simp add: sp)
  show ?case
  proof (cases "s < cur \<or> e > length t")
    case True
    then show ?thesis using 1 by (auto simp: sp)
  next
    case False
    then have "replace_loop t (sp # sps) cur counts st
        = (Done (utf8_or_empty (sub cur s t) @ placeholder tag n @ out'), st\<lparr>entities_redacted := entities_redacted st + (k' + 1)\<rparr>)" for st
      using \<open>s \<le> e\<close> 2 by (simp add: sp Let_def n_def)
    then show ?thesis by blast
  qed
qed

subsection \<open>The cache\<close>

definition cache_ok :: "(string \<Rightarrow> string) \<Rightarrow> ner_cache \<Rightarrow> bool" where
  "cache_ok one cache \<longleftrightarrow> hm_inv cache \<and> (\<forall>t v. hm_get cache t = Some v \<longrightarrow> v = one t)"

definition pointwise :: "(string \<Rightarrow> string) \<Rightarrow> ner_backend \<Rightarrow> bool" where
  "pointwise one backend \<longleftrightarrow>
     (\<forall>ts st. \<exists>k. backend ts st = (Done (map one ts), st\<lparr>entities_redacted := entities_redacted st + k\<rparr>))"

abbreviation cached :: "ner_cache \<Rightarrow> string \<Rightarrow> bool" where
  "cached cache t \<equiv> hm_get cache t \<noteq> None"

definition slot_ok :: "ner_cache \<Rightarrow> string list \<Rightarrow> string \<Rightarrow> nat option \<Rightarrow> bool" where
  "slot_ok cache misses t slot \<longleftrightarrow>
     (if cached cache t then slot = None else (\<exists>i. slot = Some i \<and> i < length misses \<and> misses ! i = t))"

definition scan_inv :: "ner_cache \<Rightarrow> string list \<Rightarrow> scan \<Rightarrow> bool" where
  "scan_inv cache ts s \<longleftrightarrow>
     sn_out s = map (hm_get cache) ts
     \<and> list_all2 (slot_ok cache (sn_misses s)) ts (sn_slots s)
     \<and> distinct (sn_misses s) \<and> set (sn_misses s) = {t \<in> set ts. \<not> cached cache t}
     \<and> hm_inv (sn_lookup s)
     \<and> (\<forall>t i. hm_get (sn_lookup s) t = Some i \<longleftrightarrow> i < length (sn_misses s) \<and> sn_misses s ! i = t)
     \<and> sn_hits s = length (filter (cached cache) ts)"

lemma slot_ok_more: "slot_ok cache ms t slot \<Longrightarrow> slot_ok cache (ms @ [x]) t slot"
proof (cases "cached cache t")
  case False
  moreover assume "slot_ok cache ms t slot"
  ultimately obtain i where "slot = Some i" "i < length ms" "ms ! i = t" by (auto simp: slot_ok_def)
  then have "slot = Some i \<and> i < length (ms @ [x]) \<and> (ms @ [x]) ! i = t" by (simp add: nth_append)
  with False show ?thesis by (auto simp: slot_ok_def)
qed (simp add: slot_ok_def)

lemma scan_inv_start: "scan_inv cache [] scan_start"
  by (simp add: scan_inv_def scan_start_def hm_get_def hm_inv_def)

lemma slots_snoc:
  "list_all2 (slot_ok cache ms) ts slots \<Longrightarrow> slot_ok cache ms t slot \<Longrightarrow> list_all2 (slot_ok cache ms) (ts @ [t]) (slots @ [slot])"
  by (simp add: list_all2_appendI)

lemma scan_inv_hit:
  assumes inv: "scan_inv cache ts s" and v: "hm_get cache t = Some v"
  shows "scan_inv cache (ts @ [t]) (scan_step cache t s)"
proof -
  have eq: "scan_step cache t s = s\<lparr>sn_out := sn_out s @ [Some v], sn_slots := sn_slots s @ [None], sn_hits := sn_hits s + 1\<rparr>"
    by (simp add: scan_step_def v)
  have "slot_ok cache (sn_misses s) t None" by (simp add: slot_ok_def v)
  with inv have l: "list_all2 (slot_ok cache (sn_misses s)) (ts @ [t]) (sn_slots s @ [None])"
    unfolding scan_inv_def by (blast intro: slots_snoc)
  have m: "{x \<in> set (ts @ [t]). \<not> cached cache x} = {x \<in> set ts. \<not> cached cache x}" using v by auto
  show ?thesis using inv unfolding scan_inv_def m eq by (simp add: l v)
qed

lemma scan_inv_again:
  assumes inv: "scan_inv cache ts s" and t: "hm_get cache t = None" and i: "hm_get (sn_lookup s) t = Some i"
  shows "scan_inv cache (ts @ [t]) (scan_step cache t s)"
proof -
  have eq: "scan_step cache t s = s\<lparr>sn_out := sn_out s @ [None], sn_slots := sn_slots s @ [Some i]\<rparr>"
    by (simp add: scan_step_def t i)
  have it: "i < length (sn_misses s)" "sn_misses s ! i = t" using inv i unfolding scan_inv_def by blast+
  then have "slot_ok cache (sn_misses s) t (Some i)" by (simp add: slot_ok_def t)
  with inv have l: "list_all2 (slot_ok cache (sn_misses s)) (ts @ [t]) (sn_slots s @ [Some i])"
    unfolding scan_inv_def by (blast intro: slots_snoc)
  have "t \<in> set ts" using it inv nth_mem unfolding scan_inv_def by blast
  then have m: "{x \<in> set (ts @ [t]). \<not> cached cache x} = {x \<in> set ts. \<not> cached cache x}" by auto
  show ?thesis using inv unfolding scan_inv_def m eq by (simp add: l t)
qed

lemma scan_inv_miss:
  assumes inv: "scan_inv cache ts s" and t: "hm_get cache t = None" and new: "hm_get (sn_lookup s) t = None"
  shows "scan_inv cache (ts @ [t]) (scan_step cache t s)"
proof -
  let ?ms = "sn_misses s"
  have eq: "scan_step cache t s = s\<lparr>sn_out := sn_out s @ [None], sn_slots := sn_slots s @ [Some (length ?ms)],
      sn_lookup := hm_put t (length ?ms) (sn_lookup s), sn_misses := ?ms @ [t]\<rparr>"
    by (simp add: scan_step_def t new)
  have lk: "hm_inv (sn_lookup s)" "hm_get (sn_lookup s) t' = Some i \<longleftrightarrow> i < length ?ms \<and> ?ms ! i = t'" for t' i
    using inv by (simp_all add: scan_inv_def)
  have nt: "t \<notin> set ?ms"
  proof
    assume "t \<in> set ?ms"
    then obtain i where "i < length ?ms" "?ms ! i = t" by (auto simp: in_set_conv_nth)
    then show False using lk(2) [of t i] new by simp
  qed
  have "slot_ok cache (?ms @ [t]) t (Some (length ?ms))" by (simp add: slot_ok_def t)
  moreover have "list_all2 (slot_ok cache (?ms @ [t])) ts (sn_slots s)"
    using inv unfolding scan_inv_def by (blast intro: list_all2_mono slot_ok_more)
  ultimately have l: "list_all2 (slot_ok cache (?ms @ [t])) (ts @ [t]) (sn_slots s @ [Some (length ?ms)])"
    by (rule slots_snoc [rotated])
  have k: "hm_get (hm_put t (length ?ms) (sn_lookup s)) t' = Some i \<longleftrightarrow> i < Suc (length ?ms) \<and> (?ms @ [t]) ! i = t'" for t' i
    using nt lk(2) [of t' i] by (auto simp: hm.get_put [OF lk(1)] nth_append less_Suc_eq)
  have m: "{x \<in> set (ts @ [t]). \<not> cached cache x} = insert t {x \<in> set ts. \<not> cached cache x}" using t by auto
  show ?thesis
    using inv nt unfolding scan_inv_def m eq by (simp add: l t k hm.inv_put)
qed

lemma scan_inv_step:
  "scan_inv cache ts s \<Longrightarrow> scan_inv cache (ts @ [t]) (scan_step cache t s)"
  by (cases "hm_get cache t"; cases "hm_get (sn_lookup s) t") (auto intro: scan_inv_hit scan_inv_again scan_inv_miss)

lemma scan_inv_fold: "scan_inv cache ts s \<Longrightarrow> scan_inv cache (ts @ us) (fold (scan_step cache) us s)"
proof (induction us arbitrary: ts s)
  case (Cons t us)
  from Cons.IH [OF scan_inv_step [OF Cons.prems, of t]] show ?case by simp
qed simp

lemma cache_ok_put: "cache_ok one cache \<Longrightarrow> cache_ok one (hm_put t (one t) cache)"
  by (auto simp: cache_ok_def hm.inv_put hm.get_put)

lemma cache_fill:
  "cache_ok one cache \<Longrightarrow>
     cache_ok one (fold (\<lambda>(t, v). hm_put t v) (zip ts (map one ts)) cache)
     \<and> {t. cached (fold (\<lambda>(t, v). hm_put t v) (zip ts (map one ts)) cache) t} = {t. cached cache t} \<union> set ts"
proof (induction ts arbitrary: cache)
  case (Cons t ts)
  have "hm_inv cache" using Cons.prems by (simp add: cache_ok_def)
  with Cons.IH [OF cache_ok_put [OF Cons.prems, of t]] show ?case by (auto simp: hm.get_put)
qed simp

lemma slots_in_range:
  assumes "list_all2 (slot_ok cache misses) texts slots"
  shows "\<not> list_ex (\<lambda>sl. case sl of Some i \<Rightarrow> i \<ge> length misses | None \<Rightarrow> False) slots"
proof -
  have "i < length misses" if "Some i \<in> set slots" for i
  proof -
    from that obtain n where n: "n < length slots" "slots ! n = Some i" by (auto simp: in_set_conv_nth)
    with assms have "slot_ok cache misses (texts ! n) (Some i)" by (metis list_all2_nthD2)
    then show ?thesis by (auto simp: slot_ok_def split: if_splits)
  qed
  then show ?thesis by (fastforce simp: list_ex_iff split: option.splits)
qed

lemma slots_filled:
  assumes slots: "list_all2 (slot_ok cache misses) texts slots"
    and hit: "\<And>t v. hm_get cache t = Some v \<Longrightarrow> v = one t"
  shows "map2 (\<lambda>o' sl. case sl of Some i \<Rightarrow> map one misses ! i | None \<Rightarrow> or_empty o') (map (hm_get cache) texts) slots
        = map one texts"
proof (rule nth_equalityI)
  fix i assume "i < length (map2 (\<lambda>o' sl. case sl of Some i \<Rightarrow> map one misses ! i | None \<Rightarrow> or_empty o') (map (hm_get cache) texts) slots)"
  then have i: "i < length texts" "i < length slots" by simp_all
  have "slot_ok cache misses (texts ! i) (slots ! i)"
    using slots i by (simp add: list_all2_conv_all_nth)
  then show "map2 (\<lambda>o' sl. case sl of Some i \<Rightarrow> map one misses ! i | None \<Rightarrow> or_empty o') (map (hm_get cache) texts) slots ! i
      = map one texts ! i"
    using i by (auto simp: slot_ok_def or_empty_def dest: hit split: if_splits)
qed (use slots in \<open>simp add: list_all2_lengthD\<close>)

lemma cached_scrub_pointwise:
  assumes one: "pointwise one backend" and cache: "cache_ok one cache"
  shows "\<exists>cache' k. ner_scrub_batch True backend texts cache st =
      (Done (map one texts), cache',
       st\<lparr>ner_cache_hits := ner_cache_hits st + length (filter (cached cache) texts),
          ner_cache_misses := ner_cache_misses st + card {t \<in> set texts. \<not> cached cache t},
          entities_redacted := entities_redacted st + k\<rparr>)
    \<and> cache_ok one cache' \<and> {t. cached cache' t} = {t. cached cache t} \<union> set texts"
proof (cases "texts = []")
  case True
  then show ?thesis using cache by (intro exI [of _ cache] exI [of _ 0]) (simp add: ner_scrub_batch_def)
next
  case False
  define s where "s = fold (scan_step cache) texts scan_start"
  have inv: "scan_inv cache texts s"
    unfolding s_def using scan_inv_fold [OF scan_inv_start, of cache texts] by simp
  then have s: "sn_out s = map (hm_get cache) texts" "list_all2 (slot_ok cache (sn_misses s)) texts (sn_slots s)"
    "distinct (sn_misses s)" "set (sn_misses s) = {t \<in> set texts. \<not> cached cache t}"
    "sn_hits s = length (filter (cached cache) texts)"
    by (simp_all add: scan_inv_def)
  have card: "card {t \<in> set texts. \<not> cached cache t} = length (sn_misses s)"
    using distinct_card [OF s(3)] s(4) by simp
  have hit: "v = one t" if "hm_get cache t = Some v" for t v
    using cache that by (simp add: cache_ok_def)
  show ?thesis
  proof (cases "sn_misses s = []")
    case True
    then have all: "cached cache t" if "t \<in> set texts" for t using s(4) that by auto
    then have "map or_empty (sn_out s) = map one texts"
      unfolding s(1) map_map using hit by (intro map_cong) (fastforce simp: or_empty_def)+
    moreover have "{t. cached cache t} = {t. cached cache t} \<union> set texts" using all by auto
    ultimately show ?thesis
      using False True cache card s(5)
      by (intro exI [of _ cache] exI [of _ 0]) (simp add: ner_scrub_batch_def s_def [symmetric] Let_def)
  next
    case miss: False
    define st1 where "st1 = st\<lparr>ner_cache_hits := ner_cache_hits st + sn_hits s,
      ner_cache_misses := ner_cache_misses st + length (sn_misses s)\<rparr>"
    obtain k where k: "backend (sn_misses s) st1 = (Done (map one (sn_misses s)), st1\<lparr>entities_redacted := entities_redacted st1 + k\<rparr>)"
      using one unfolding pointwise_def by blast
    have "map2 (\<lambda>o' sl. case sl of Some i \<Rightarrow> map one (sn_misses s) ! i | None \<Rightarrow> or_empty o') (sn_out s) (sn_slots s)
        = map one texts"
      unfolding s(1) using slots_filled [OF s(2)] hit by blast
    then show ?thesis
      using False miss k slots_in_range [OF s(2)] cache_fill [OF cache, of "sn_misses s"] card s(4,5)
      by (intro exI [of _ "fold (\<lambda>(t, v). hm_put t v) (zip (sn_misses s) (map one (sn_misses s))) cache"] exI [of _ k])
        (auto simp: ner_scrub_batch_def s_def [symmetric] Let_def st1_def)
  qed
qed

subsection \<open>The backend\<close>

text \<open>
  What the recognizer is relied on for: every text can be chunked, the model labels each
  chunk of a mini-batch on its own, and the offsets it reports for a chunk grow.
\<close>

type_synonym labelling = "string \<Rightarrow> nat list \<times> (nat \<times> nat) list"

text \<open>Label ids beyond the offsets belong to the padding of the mini-batch.\<close>

definition own_labels :: "nat list \<times> (nat \<times> nat) list \<Rightarrow> nat list \<times> (nat \<times> nat) list" where
  "own_labels r = (take (length (snd r)) (fst r), snd r)"

lemma padding_labels_ignored:
  "collapse_bio (take (length offs) ids) offs labels = collapse_bio ids offs labels"
proof (cases "length ids \<le> length offs")
  case False
  have "flush (fold (bio_step labels) (map (\<lambda>x. (x, 0, 0)) xs) st) = flush st" for xs st
    by (induction xs arbitrary: st) (simp_all add: bio_step_def)
  then have skip: "flush (fold (bio_step labels) (zip xs (replicate n (0, 0))) st) = flush st" for n xs st
    by (simp add: zip_replicate2)
  have "tokens_of ids offs = zip (take (length offs) ids) offs
      @ zip (drop (length offs) ids) (replicate (length (drop (length offs) ids)) (0, 0))"
    by (simp add: tokens_of_def zip_append2)
  then show ?thesis using False by (simp add: collapse_bio_def skip) (simp add: tokens_of_def)
qed simp

definition recognizer_ok :: "tokenizer \<Rightarrow> inference \<Rightarrow> labelling \<Rightarrow> bool" where
  "recognizer_ok tokenize infer label \<longleftrightarrow>
     (\<forall>t. \<exists>cs. pre_chunk tokenize t = Done cs)
     \<and> (\<forall>cs. \<exists>res. infer cs = Inr res \<and> map own_labels res = map label cs)
     \<and> (\<forall>c. growing (map snd (solid (tokens_of (fst (label c)) (snd (label c))))))"

text \<open>The chunks, the spans and the redaction of one text on its own.\<close>

definition text_chunks :: "tokenizer \<Rightarrow> string \<Rightarrow> (nat \<times> string) list" where
  "text_chunks tokenize t = (case pre_chunk tokenize t of Done cs \<Rightarrow> cs | _ \<Rightarrow> [])"

definition all_chunks :: "tokenizer \<Rightarrow> string list \<Rightarrow> chunk list" where
  "all_chunks tokenize texts = concat (map (\<lambda>(i, t). map (Pair i) (text_chunks tokenize t)) (enumerate 0 texts))"

definition chunk_spans :: "labelling \<Rightarrow> string list \<Rightarrow> nat \<times> string \<Rightarrow> span list" where
  "chunk_spans label labels oc = shift (fst oc) (collapse_bio (fst (label (snd oc))) (snd (label (snd oc))) labels)"

definition text_spans :: "tokenizer \<Rightarrow> labelling \<Rightarrow> string list \<Rightarrow> string \<Rightarrow> span list" where
  "text_spans tokenize label labels t =
     concat (map (chunk_spans label labels) (sort_key (length \<circ> snd) (text_chunks tokenize t)))"

definition redact :: "tokenizer \<Rightarrow> labelling \<Rightarrow> string list \<Rightarrow> string \<Rightarrow> string" where
  "redact tokenize label labels t =
     (case fst (replace_spans t (text_spans tokenize label labels t) stats_default) of Done out \<Rightarrow> out | _ \<Rightarrow> [])"

lemma sc_map_Done: "(\<And>x. x \<in> set xs \<Longrightarrow> f x = Done (g x)) \<Longrightarrow> sc_map f xs = Done (map g xs)"
  by (induction xs) simp_all

lemma flat_chunks_Done:
  assumes "recognizer_ok tokenize infer label"
  shows "flat_chunks tokenize texts = Done (all_chunks tokenize texts)"
proof -
  have "pre_chunk tokenize t = Done (text_chunks tokenize t)" for t
  proof -
    obtain cs where "pre_chunk tokenize t = Done cs" using assms unfolding recognizer_ok_def by blast
    then show ?thesis by (simp add: text_chunks_def)
  qed
  then have "sc_map (\<lambda>(i, t). sc_bind (pre_chunk tokenize t) (\<lambda>cs. Done (map (Pair i) cs))) (enumerate 0 texts)
      = Done (map (\<lambda>(i, t). map (Pair i) (text_chunks tokenize t)) (enumerate 0 texts))"
    by (intro sc_map_Done) auto
  then show ?thesis by (simp add: flat_chunks_def all_chunks_def)
qed

definition push_chunk :: "labelling \<Rightarrow> string list \<Rightarrow> chunk \<Rightarrow> span list list \<Rightarrow> span list list" where
  "push_chunk label labels ch = push_spans (fst ch) (chunk_spans label labels (snd ch))"

lemma fold_zip_map: "fold f (zip xs (map g xs)) s = fold (\<lambda>x. f (x, g x)) xs s"
  by (induction xs arbitrary: s) simp_all

lemma run_batch_Done:
  assumes "recognizer_ok tokenize infer label"
  shows "run_batch infer labels batch per = Done (fold (push_chunk label labels) batch per)"
proof -
  obtain res where res: "infer (map (snd \<circ> snd) batch) = Inr res" "map own_labels res = map label (map (snd \<circ> snd) batch)"
    using assms unfolding recognizer_ok_def by blast
  have "push_chunk label labels ch per = push_spans (fst ch) (shift (fst (snd ch)) (collapse_bio (fst r) (snd r) labels)) per"
    if "own_labels r = label (snd (snd ch))" for ch r per
    using that [symmetric] padding_labels_ignored [of "snd r" "fst r" labels]
    by (auto simp: push_chunk_def chunk_spans_def own_labels_def)
  then have "fold (\<lambda>(ch, r). push_spans (fst ch) (shift (fst (snd ch)) (collapse_bio (fst r) (snd r) labels))) (zip chs rs) per
      = fold (push_chunk label labels) chs per"
    if "map own_labels rs = map label (map (snd \<circ> snd) chs)" for chs rs per
    using that by (induction chs arbitrary: rs per) (auto simp: map_eq_Cons_conv)
  note this [OF res(2), of per]
  moreover have "length res = length batch" using arg_cong [OF res(2), of length] by simp
  ultimately show ?thesis
    using res(1) by (simp add: run_batch_def split_def comp_def)
qed

lemma run_batches_Done:
  assumes "recognizer_ok tokenize infer label"
  shows "sc_fold (run_batch infer labels) bs per = Done (fold (push_chunk label labels) (concat bs) per)"
  by (induction bs arbitrary: per) (simp_all add: run_batch_Done [OF assms])

lemma push_chunk_nth:
  "i < length per \<Longrightarrow> fold (push_chunk label labels) chs per ! i =
     per ! i @ concat (map (chunk_spans label labels \<circ> snd) (filter (\<lambda>ch. fst ch = i) chs))"
proof (induction chs arbitrary: per)
  case (Cons ch chs)
  have "length (push_chunk label labels ch per) = length per" by (simp add: push_chunk_def push_spans_def)
  with Cons show ?case by (auto simp: push_chunk_def push_spans_def nth_list_update)
qed simp

lemma push_chunk_length: "length (fold (push_chunk label labels) chs per) = length per"
  by (induction chs arbitrary: per) (simp_all add: push_chunk_def push_spans_def)

lemma filter_origin:
  "filter (\<lambda>ch. fst ch = n + i) (concat (map (\<lambda>(i, t). map (Pair i) (f t)) (enumerate n texts)))
     = (if i < length texts then map (Pair (n + i)) (f (texts ! i)) else [])"
proof (induction texts arbitrary: n i)
  case (Cons t texts)
  show ?case
  proof (cases i)
    case 0
    have "filter (\<lambda>ch. fst ch = n) (concat (map (\<lambda>(i, t). map (Pair i) (f t)) (enumerate (Suc n) texts))) = []"
      by (auto simp: filter_empty_conv in_set_enumerate_eq)
    then show ?thesis using 0 by (simp add: filter_map comp_def)
  next
    case (Suc j)
    have "filter (\<lambda>ch. fst ch = n + i) (map (Pair n) (f t)) = []" using Suc by (auto simp: filter_empty_conv)
    then show ?thesis using Cons.IH [of "Suc n" j] Suc by simp
  qed
qed simp

lemma sort_key_map: "sort_key f (map g xs) = map g (sort_key (f \<circ> g) xs)"
proof -
  have "insort_key f (g x) (map g ys) = map g (insort_key (f \<circ> g) x ys)" for x ys
    by (induction ys) simp_all
  then show ?thesis by (induction xs) simp_all
qed

text \<open>
  Sorting the chunks of all texts by length and cutting them into mini-batches leaves the
  spans of each text as they are for the text alone.
\<close>

lemma batched_spans:
  "fold (push_chunk label labels) (sort_key chunk_length (all_chunks tokenize texts)) (replicate (length texts) [])
    = map (text_spans tokenize label labels) texts"
proof (rule nth_equalityI)
  fix i
  assume "i < length (fold (push_chunk label labels) (sort_key chunk_length (all_chunks tokenize texts)) (replicate (length texts) []))"
  then have i: "i < length texts" by (simp add: push_chunk_length)
  have len: "chunk_length \<circ> Pair i = length \<circ> snd" by (auto simp: chunk_length_def fun_eq_iff)
  have "filter (\<lambda>ch. fst ch = i) (sort_key chunk_length (all_chunks tokenize texts))
      = map (Pair i) (sort_key (length \<circ> snd) (text_chunks tokenize (texts ! i)))"
    using filter_origin [of 0 i "text_chunks tokenize" texts] i
    by (simp add: filter_sort all_chunks_def sort_key_map len)
  then show "fold (push_chunk label labels) (sort_key chunk_length (all_chunks tokenize texts)) (replicate (length texts) []) ! i
      = map (text_spans tokenize label labels) texts ! i"
    using i by (simp add: push_chunk_nth text_spans_def comp_def)
qed (simp add: push_chunk_length)

lemma in_order_forward: "in_order sps \<Longrightarrow> \<forall>(s, e, _) \<in> set sps. s \<le> e"
  by (fastforce simp: in_order_def)

lemma redact_pure:
  assumes "recognizer_ok tokenize infer label"
  shows "\<exists>k. \<forall>st. replace_spans t (text_spans tokenize label labels t) st
    = (Done (redact tokenize label labels t), st\<lparr>entities_redacted := entities_redacted st + k\<rparr>)"
proof -
  let ?sps = "text_spans tokenize label labels t"
  have chunk: "\<forall>(s, e, _) \<in> set (chunk_spans label labels oc). s \<le> e" for oc
  proof -
    have "growing (map snd (solid (tokens_of (fst (label (snd oc))) (snd (label (snd oc))))))"
      using assms unfolding recognizer_ok_def by blast
    from collapse_bio_spec [OF this, of labels] in_order_forward show ?thesis
      by (fastforce simp: chunk_spans_def shift_def bio_inv_def)
  qed
  then have "\<forall>(s, e, _) \<in> set (sort_key fst ?sps). s \<le> e"
    by (fastforce simp: text_spans_def)
  from replace_loop_pure [OF this, of t 0 "[]"] obtain out k where
    l: "\<And>st. replace_loop t (sort_key fst ?sps) 0 [] st = (Done out, st\<lparr>entities_redacted := entities_redacted st + k\<rparr>)"
    by blast
  show ?thesis
  proof (cases "?sps = []")
    case True
    then have "replace_spans t ?sps st = (Done t, st\<lparr>entities_redacted := entities_redacted st + 0\<rparr>)" for st
      by (simp add: replace_spans_def)
    then show ?thesis by (auto simp: redact_def intro!: exI [of _ 0])
  next
    case False
    then show ?thesis using l by (auto simp: replace_spans_def redact_def)
  qed
qed

lemma replace_all_Done:
  assumes "recognizer_ok tokenize infer label"
  shows "\<exists>k. replace_all (zip texts (map (text_spans tokenize label labels) texts)) st
    = (Done (map (redact tokenize label labels) texts), st\<lparr>entities_redacted := entities_redacted st + k\<rparr>)"
proof (induction texts arbitrary: st)
  case Nil
  show ?case by (intro exI [of _ 0]) simp
next
  case (Cons t texts)
  obtain k where "replace_spans t (text_spans tokenize label labels t) st
      = (Done (redact tokenize label labels t), st\<lparr>entities_redacted := entities_redacted st + k\<rparr>)"
    using redact_pure [OF assms] by blast
  moreover obtain k' where "replace_all (zip texts (map (text_spans tokenize label labels) texts))
        (st\<lparr>entities_redacted := entities_redacted st + k\<rparr>)
      = (Done (map (redact tokenize label labels) texts), st\<lparr>entities_redacted := entities_redacted st + (k + k')\<rparr>)"
    using Cons.IH [of "st\<lparr>entities_redacted := entities_redacted st + k\<rparr>"] by (auto simp: add.assoc)
  ultimately show ?case by (auto intro: exI [of _ "k + k'"])
qed

lemma backend_pointwise:
  assumes ok: "recognizer_ok tokenize infer label"
  shows "pointwise (redact tokenize label labels) (backend_scrub_batch tokenize infer labels)"
  unfolding pointwise_def
proof (intro allI)
  fix texts st
  show "\<exists>k. backend_scrub_batch tokenize infer labels texts st
      = (Done (map (redact tokenize label labels) texts), st\<lparr>entities_redacted := entities_redacted st + k\<rparr>)"
  proof (cases "texts = []")
    case True
    then show ?thesis by (intro exI [of _ 0]) (simp add: backend_scrub_batch_def)
  next
    case False
    have "0 < max_batch_chunks" by (simp add: max_batch_chunks_def)
    then have "sc_fold (run_batch infer labels)
        (groups_of max_batch_chunks (sort_key chunk_length (all_chunks tokenize texts))) (replicate (length texts) [])
      = Done (map (text_spans tokenize label labels) texts)"
      by (simp add: run_batches_Done [OF ok] concat_groups_of batched_spans)
    then show ?thesis
      using replace_all_Done [OF ok] False by (simp add: backend_scrub_batch_def flat_chunks_Done [OF ok])
  qed
qed

section \<open>Properties of the recognizer\<close>

text \<open>
  C16: caching, de-duplication and batching are invisible. Whatever texts share a call,
  whatever order their chunks are batched in, and whatever sound cache is in front, each
  text is redacted exactly as on its own; the call succeeds, leaves a sound cache that
  holds the texts of the call beside the old ones, and counts as hits the texts found in
  the cache and as misses the distinct texts sent to the model.
\<close>

theorem batching_is_transparent:
  assumes ok: "recognizer_ok tokenize infer label"
    and cache: "cache_ok (redact tokenize label labels) cache"
  shows "\<exists>cache' k. ner_scrub_batch True (backend_scrub_batch tokenize infer labels) texts cache st =
      (Done (map (redact tokenize label labels) texts), cache',
       st\<lparr>ner_cache_hits := ner_cache_hits st + length (filter (cached cache) texts),
          ner_cache_misses := ner_cache_misses st + card {t \<in> set texts. \<not> cached cache t},
          entities_redacted := entities_redacted st + k\<rparr>)
    \<and> cache_ok (redact tokenize label labels) cache'
    \<and> {t. cached cache' t} = {t. cached cache t} \<union> set texts
    \<and> (\<forall>t. \<exists>k'. scrub_with_ner True (backend_scrub_batch tokenize infer labels) t st =
        (Done (redact tokenize label labels t), st\<lparr>entities_redacted := entities_redacted st + k'\<rparr>))"
proof -
  note p = backend_pointwise [OF ok, of labels]
  have "\<exists>k'. scrub_with_ner True (backend_scrub_batch tokenize infer labels) t st =
      (Done (redact tokenize label labels t), st\<lparr>entities_redacted := entities_redacted st + k'\<rparr>)" for t
  proof -
    obtain k where "backend_scrub_batch tokenize infer labels [t] st
        = (Done (map (redact tokenize label labels) [t]), st\<lparr>entities_redacted := entities_redacted st + k\<rparr>)"
      using p unfolding pointwise_def by blast
    then show ?thesis by (auto simp: scrub_with_ner_def)
  qed
  with cached_scrub_pointwise [OF p cache, of texts st] show ?thesis by fast
qed

text \<open>A recognizer that takes every non-empty text for one person's name.\<close>

definition toy_tokenize :: tokenizer where
  "toy_tokenize t = Inr (if t = [] then [] else [(0, length t)])"

definition toy_label :: labelling where
  "toy_label c = (if c = [] then ([], []) else ([1], [(0, length c)]))"

lemma toy_pre_chunk: "pre_chunk toy_tokenize t = Done (if t = [] then [] else [(0, t)])"
proof -
  have g: "groups_of 192 [(0 :: nat, length t)] = [[(0, length t)]]" "groups_of 192 ([] :: (nat \<times> nat) list) = []"
    by (subst groups_of.simps, simp add: groups_of.simps [of _ "[]"])+
  then show ?thesis
    by (simp add: pre_chunk_def toy_tokenize_def max_tokens_per_chunk_def str_slice_def char_boundary_def sub_def)
qed

lemma toy_recognizer_ok: "recognizer_ok toy_tokenize (\<lambda>cs. Inr (map toy_label cs)) toy_label"
  by (simp add: recognizer_ok_def toy_pre_chunk toy_label_def own_labels_def tokens_of_def growing_def comp_def)

lemma batching_is_transparent_witness:
  "fst (ner_scrub_batch True
      (backend_scrub_batch toy_tokenize (\<lambda>cs. Inr (map toy_label cs)) [''O'', ''B-PER''])
      [''Ann'', ''Bob'', ''Ann''] [(''Bob'', ''[PER_1]'')] stats_default) = Done [''[PER_1]'', ''[PER_1]'', ''[PER_1]'']"
proof -
  have s: "text_spans toy_tokenize toy_label [''O'', ''B-PER''] t = [(0, length t, ''PER'')]" if "t \<noteq> []" for t
    using that
    by (simp add: text_spans_def text_chunks_def toy_pre_chunk chunk_spans_def toy_label_def shift_def collapse_bio_def
        tokens_of_def bio_step_def label_of_def split_label_def)
  have "replace_spans ''Ann'' [(0, 3, ''PER'')] stats_default = (Done ''[PER_1]'', stats_default\<lparr>entities_redacted := 1\<rparr>)"
    "replace_spans ''Bob'' [(0, 3, ''PER'')] stats_default = (Done ''[PER_1]'', stats_default\<lparr>entities_redacted := 1\<rparr>)"
    by code_simp+
  then have r: "redact toy_tokenize toy_label [''O'', ''B-PER''] ''Ann'' = ''[PER_1]''"
    "redact toy_tokenize toy_label [''O'', ''B-PER''] ''Bob'' = ''[PER_1]''"
    by (simp_all add: redact_def s numeral_3_eq_3)
  have "cache_ok (redact toy_tokenize toy_label [''O'', ''B-PER'']) [(''Bob'', ''[PER_1]'')]"
    by (simp add: cache_ok_def hm_inv_def hm_get_def r)
  from batching_is_transparent [OF toy_recognizer_ok this, of "[''Ann'', ''Bob'', ''Ann'']" stats_default]
  show ?thesis by (elim exE conjE) (simp only: fst_conv list.map r)
qed

end
