(* ===== verification/ScrubWalk.thy ===== *)
theory ScrubWalk
  imports NerBatch
begin

text \<open>
  The tree walk of the text scrubber, \<open>src/patterns_from_cirislens_core/scrubber\<close>: the regex
  pass (\<open>regex.rs\<close>), the field list (\<open>fields.rs\<close>) and the two-phase walk (\<open>walker.rs\<close>),
  which collects the strings for the recognizer, sends them in one call and injects the
  results on a second pass. The regex engine is not in the repository: \<open>rx_count\<close> and
  \<open>rx_replace\<close> give, per pattern of the source, the number of matches in a text and the text
  with all matches replaced. \<open>lower\<close> is Unicode lower-casing; the probe list is the value of
  the environment variable. A rebuilt object has the keys of the old one in the same order.
\<close>

section \<open>Regex pass\<close>

datatype pattern = YEAR_IDENTIFIER | HISTORICAL_YEAR | EMAIL | PHONE | IPV4 | URL | SSN | CREDIT_CARD

record regex_engine =
  rx_count :: "pattern \<Rightarrow> string \<Rightarrow> nat"
  rx_replace :: "pattern \<Rightarrow> string \<Rightarrow> string \<Rightarrow> string"

definition replacements :: "(pattern \<times> string) list" where
  "replacements =
     [(YEAR_IDENTIFIER, ''[IDENTIFIER]''), (HISTORICAL_YEAR, ''[YEAR]''), (EMAIL, ''[EMAIL]''),
      (PHONE, ''[PHONE]''), (IPV4, ''[IP_ADDRESS]''), (URL, ''[URL]''), (SSN, ''[SSN]''),
      (CREDIT_CARD, ''[CREDIT_CARD]'')]"

definition regex_step :: "regex_engine \<Rightarrow> pattern \<times> string \<Rightarrow> string \<times> scrub_stats \<Rightarrow> string \<times> scrub_stats" where
  "regex_step rx r ts =
     (case (r, ts) of ((pat, rep), (text, st)) \<Rightarrow>
        (let n = rx_count rx pat text
         in if n > 0 then (rx_replace rx pat rep text, st\<lparr>regex_redactions := regex_redactions st + n\<rparr>)
            else (text, st)))"

definition scrub_string :: "regex_engine \<Rightarrow> string \<Rightarrow> scrub_stats \<Rightarrow> string \<times> scrub_stats" where
  "scrub_string rx s st = fold (regex_step rx) replacements (s, st)"

fun strings_of :: "json \<Rightarrow> string list"
  and strings_items :: "json list \<Rightarrow> string list"
  and strings_fields :: "fields \<Rightarrow> string list" where
  "strings_of (JStr s) = [s]"
| "strings_of (JArr xs) = strings_items xs"
| "strings_of (JObj fs) = strings_fields fs"
| "strings_of _ = []"
| "strings_items [] = []"
| "strings_items (x # xs) = strings_of x @ strings_items xs"
| "strings_fields [] = []"
| "strings_fields ((k, v) # fs) = strings_of v @ strings_fields fs"

definition count_year_residue :: "regex_engine \<Rightarrow> json \<Rightarrow> nat" where
  "count_year_residue rx v = sum_list (map (rx_count rx HISTORICAL_YEAR) (strings_of v))"

text \<open>\<open>s.trim().is_empty()\<close>: only the code points with property \<open>White_Space\<close>, in UTF-8.\<close>

fun blank :: "string \<Rightarrow> bool" where
  "blank [] = True"
| "blank (a # r) =
     (if 9 \<le> byte a \<and> byte a \<le> 13 \<or> byte a = 32 then blank r
      else (case r of
          [] \<Rightarrow> False
        | b # r' \<Rightarrow>
            if byte a = 194 \<and> (byte b = 133 \<or> byte b = 160) then blank r'
            else (case r' of
                [] \<Rightarrow> False
              | c # r'' \<Rightarrow>
                  (byte a = 225 \<and> byte b = 154 \<and> byte c = 128
                   \<or> byte a = 226 \<and> byte b = 128
                       \<and> (128 \<le> byte c \<and> byte c \<le> 138 \<or> byte c = 168 \<or> byte c = 169 \<or> byte c = 175)
                   \<or> byte a = 226 \<and> byte b = 129 \<and> byte c = 159
                   \<or> byte a = 227 \<and> byte b = 128 \<and> byte c = 128) \<and> blank r'')))"

fun is_prefix :: "string \<Rightarrow> string \<Rightarrow> bool" where
  "is_prefix [] s = True"
| "is_prefix (a # p) [] = False"
| "is_prefix (a # p) (b # s) = (a = b \<and> is_prefix p s)"

fun contains :: "string \<Rightarrow> string \<Rightarrow> bool" where
  "contains p [] = (p = [])"
| "contains p (a # s) = (is_prefix p (a # s) \<or> contains p s)"

fun split_lines :: "string \<Rightarrow> string list" where
  "split_lines [] = [[]]"
| "split_lines (c # s) =
     (if byte c = 10 then [] # split_lines s
      else (case split_lines s of [] \<Rightarrow> [[c]] | l # ls \<Rightarrow> (c # l) # ls))"

definition probe_match :: "(string \<Rightarrow> string) \<Rightarrow> string option \<Rightarrow> json \<Rightarrow> bool" where
  "probe_match lower env v =
     (case env of
        None \<Rightarrow> False
      | Some s \<Rightarrow>
          if s = [] then False
          else (let probes = map lower (filter (\<lambda>p. \<not> blank p) (split_lines s))
                in list_ex (\<lambda>t. list_ex (\<lambda>p. contains p (lower t)) probes) (strings_of v)))"

section \<open>Walker\<close>

definition max_depth :: nat where
  "max_depth = 30"

definition scrub_fields :: "string list" where
  "scrub_fields =
     [''task_description'', ''initial_context'', ''thought_content'',
      ''system_snapshot'', ''gathered_context'', ''relevant_memories'', ''conversation_history'',
      ''current_thought_summary'',
      ''reasoning'', ''prompt_used'', ''combined_analysis'', ''flags'', ''alignment_check'',
      ''conflicts'', ''stakeholders'',
      ''action_rationale'', ''reasoning_summary'', ''action_parameters'', ''aspdma_prompt'',
      ''questions'', ''completion_reason'',
      ''conscience_override_reason'', ''epistemic_data'', ''updated_status_content'', ''entropy_reason'',
      ''coherence_reason'', ''optimization_veto_justification'', ''epistemic_humility_justification'',
      ''epistemic_humility_uncertainties'',
      ''execution_error'',
      ''intervention_recommendation'', ''next_best_recovery_step'', ''correlation_factors'',
      ''top_correlation_factors'', ''common_cause_flags'', ''sources_identified'', ''source_ids'',
      ''source_clusters'', ''source_types'', ''source_type_counts'', ''pairwise_correlation_summary'',
      ''reasoning_state'']"

definition looks_like_schema_label :: "string \<Rightarrow> bool" where
  "looks_like_schema_label s =
     (length s \<le> 24
      \<and> list_all (\<lambda>c. byte c < 128 \<and> \<not> (65 \<le> byte c \<and> byte c \<le> 90)
                     \<and> byte c \<notin> {9, 10, 12, 13, 32}) s)"

definition eligible :: "bool \<Rightarrow> string \<Rightarrow> bool" where
  "eligible in_scope s = (in_scope \<and> \<not> blank s \<and> \<not> looks_like_schema_label s)"

text \<open>The depth check every visit of a node starts with.\<close>

definition at_depth :: "nat \<Rightarrow> 'a scrub \<Rightarrow> 'a scrub" where
  "at_depth d r = (if d > max_depth then Rejected (WalkerDepthExceeded d) else r)"

fun collect :: "string list \<Rightarrow> bool \<Rightarrow> nat \<Rightarrow> json \<Rightarrow> string list scrub"
  and collect_items :: "string list \<Rightarrow> bool \<Rightarrow> nat \<Rightarrow> json list \<Rightarrow> string list scrub"
  and collect_fields :: "string list \<Rightarrow> bool \<Rightarrow> nat \<Rightarrow> fields \<Rightarrow> string list scrub" where
  "collect sf sc d (JStr s) = at_depth d (Done (if eligible sc s then [s] else []))"
| "collect sf sc d (JArr xs) = at_depth d (collect_items sf sc (d + 1) xs)"
| "collect sf sc d (JObj fs) = at_depth d (collect_fields sf sc (d + 1) fs)"
| "collect sf sc d JNull = at_depth d (Done [])"
| "collect sf sc d (JBool b) = at_depth d (Done [])"
| "collect sf sc d (JNum n) = at_depth d (Done [])"
| "collect_items sf sc d [] = Done []"
| "collect_items sf sc d (x # xs) =
     sc_bind (collect sf sc d x) (\<lambda>a. sc_bind (collect_items sf sc d xs) (\<lambda>b. Done (a @ b)))"
| "collect_fields sf sc d [] = Done []"
| "collect_fields sf sc d ((k, v) # fs) =
     sc_bind (collect sf (sc \<or> k \<in> set sf) d v) (\<lambda>a. sc_bind (collect_fields sf sc d fs) (\<lambda>b. Done (a @ b)))"

definition note_depth :: "nat \<Rightarrow> scrub_stats \<Rightarrow> scrub_stats" where
  "note_depth d st = (if d > walker_max_depth st then st\<lparr>walker_max_depth := d\<rparr> else st)"

type_synonym walk_state = "scrub_stats \<times> string list"

definition inject_string :: "regex_engine \<Rightarrow> bool \<Rightarrow> string \<Rightarrow> walk_state \<Rightarrow> json \<times> walk_state" where
  "inject_string rx sc s w =
     (case w of (st, outs) \<Rightarrow>
        (let (after, rest) = (if eligible sc s
               then (case outs of [] \<Rightarrow> (s, []) | x # r \<Rightarrow> (x, r)) else (s, outs));
             (out, st') = (if blank after then (after, st) else scrub_string rx after st)
         in (JStr out, st'\<lparr>fields_modified := fields_modified st' + 1\<rparr>, rest)))"

definition noted :: "nat \<Rightarrow> walk_state \<Rightarrow> walk_state" where
  "noted d w = (note_depth d (fst w), snd w)"

fun inject :: "regex_engine \<Rightarrow> string list \<Rightarrow> bool \<Rightarrow> nat \<Rightarrow> json \<Rightarrow> walk_state \<Rightarrow> (json \<times> walk_state) scrub"
  and inject_items :: "regex_engine \<Rightarrow> string list \<Rightarrow> bool \<Rightarrow> nat \<Rightarrow> json list \<Rightarrow> walk_state \<Rightarrow> (json list \<times> walk_state) scrub"
  and inject_fields :: "regex_engine \<Rightarrow> string list \<Rightarrow> bool \<Rightarrow> nat \<Rightarrow> fields \<Rightarrow> walk_state \<Rightarrow> (fields \<times> walk_state) scrub" where
  "inject rx sf sc d (JStr s) w = at_depth d (Done (inject_string rx sc s (noted d w)))"
| "inject rx sf sc d (JArr xs) w =
     at_depth d (sc_bind (inject_items rx sf sc (d + 1) xs (noted d w)) (\<lambda>r. Done (JArr (fst r), snd r)))"
| "inject rx sf sc d (JObj fs) w =
     at_depth d (sc_bind (inject_fields rx sf sc (d + 1) fs (noted d w)) (\<lambda>r. Done (JObj (fst r), snd r)))"
| "inject rx sf sc d JNull w = at_depth d (Done (JNull, noted d w))"
| "inject rx sf sc d (JBool b) w = at_depth d (Done (JBool b, noted d w))"
| "inject rx sf sc d (JNum n) w = at_depth d (Done (JNum n, noted d w))"
| "inject_items rx sf sc d [] w = Done ([], w)"
| "inject_items rx sf sc d (x # xs) w =
     sc_bind (inject rx sf sc d x w) (\<lambda>r.
     sc_bind (inject_items rx sf sc d xs (snd r)) (\<lambda>rs. Done (fst r # fst rs, snd rs)))"
| "inject_fields rx sf sc d [] w = Done ([], w)"
| "inject_fields rx sf sc d ((k, v) # fs) w =
     sc_bind (inject rx sf (sc \<or> k \<in> set sf) d v w) (\<lambda>r.
     sc_bind (inject_fields rx sf sc d fs (snd r)) (\<lambda>rs. Done ((k, fst r) # fst rs, snd rs)))"

definition regex_leaf :: "regex_engine \<Rightarrow> string \<Rightarrow> scrub_stats \<Rightarrow> json \<times> scrub_stats" where
  "regex_leaf rx s st =
     (if blank s then (JStr s, st)
      else (case scrub_string rx s st of (out, st') \<Rightarrow>
        (JStr out, if out \<noteq> s then st'\<lparr>fields_modified := fields_modified st' + 1\<rparr> else st')))"

fun walk_regex_only :: "regex_engine \<Rightarrow> nat \<Rightarrow> json \<Rightarrow> scrub_stats \<Rightarrow> (json \<times> scrub_stats) scrub"
  and regex_items :: "regex_engine \<Rightarrow> nat \<Rightarrow> json list \<Rightarrow> scrub_stats \<Rightarrow> (json list \<times> scrub_stats) scrub"
  and regex_fields :: "regex_engine \<Rightarrow> nat \<Rightarrow> fields \<Rightarrow> scrub_stats \<Rightarrow> (fields \<times> scrub_stats) scrub" where
  "walk_regex_only rx d (JStr s) st = at_depth d (Done (regex_leaf rx s (note_depth d st)))"
| "walk_regex_only rx d (JArr xs) st =
     at_depth d (sc_bind (regex_items rx (d + 1) xs (note_depth d st)) (\<lambda>r. Done (JArr (fst r), snd r)))"
| "walk_regex_only rx d (JObj fs) st =
     at_depth d (sc_bind (regex_fields rx (d + 1) fs (note_depth d st)) (\<lambda>r. Done (JObj (fst r), snd r)))"
| "walk_regex_only rx d JNull st = at_depth d (Done (JNull, note_depth d st))"
| "walk_regex_only rx d (JBool b) st = at_depth d (Done (JBool b, note_depth d st))"
| "walk_regex_only rx d (JNum n) st = at_depth d (Done (JNum n, note_depth d st))"
| "regex_items rx d [] st = Done ([], st)"
| "regex_items rx d (x # xs) st =
     sc_bind (walk_regex_only rx d x st) (\<lambda>r.
     sc_bind (regex_items rx d xs (snd r)) (\<lambda>rs. Done (fst r # fst rs, snd rs)))"
| "regex_fields rx d [] st = Done ([], st)"
| "regex_fields rx d ((k, v) # fs) st =
     sc_bind (walk_regex_only rx d v st) (\<lambda>r.
     sc_bind (regex_fields rx d fs (snd r)) (\<lambda>rs. Done ((k, fst r) # fst rs, snd rs)))"

record ner_env =
  ne_configured :: bool
  ne_backend :: ner_backend

definition ner_call ::
    "ner_env \<Rightarrow> string list \<Rightarrow> ner_cache \<Rightarrow> scrub_stats \<Rightarrow> string list scrub \<times> ner_cache \<times> scrub_stats" where
  "ner_call env inputs cache st =
     (if inputs = [] then (Done [], cache, st)
      else ner_scrub_batch (ne_configured env) (ne_backend env) inputs cache st)"

definition walk ::
    "regex_engine \<Rightarrow> ner_env \<Rightarrow> string list \<Rightarrow> bool \<Rightarrow> json \<Rightarrow> ner_cache \<Rightarrow> scrub_stats \<Rightarrow>
       (json \<times> scrub_stats) scrub \<times> ner_cache" where
  "walk rx env sf run_ner v cache st =
     (if \<not> run_ner then (walk_regex_only rx 0 v st, cache)
      else (case collect sf False 0 v of
          Rejected e \<Rightarrow> (Rejected e, cache)
        | Panic \<Rightarrow> (Panic, cache)
        | Done inputs \<Rightarrow>
            (case ner_call env inputs cache st of (r, cache', st') \<Rightarrow>
               (sc_bind r (\<lambda>outs. sc_bind (inject rx sf False 0 v (st', outs)) (\<lambda>(out, st'', rest).
                  Done (out, st''))), cache'))))"

fun collect_batch :: "string list \<Rightarrow> json list \<Rightarrow> nat list \<Rightarrow> string list \<Rightarrow> (nat list \<times> string list) scrub" where
  "collect_batch sf [] bounds inputs = Done (bounds, inputs)"
| "collect_batch sf (v # vs) bounds inputs =
     sc_bind (collect sf False 0 v) (\<lambda>a.
       collect_batch sf vs (bounds @ [length (inputs @ a)]) (inputs @ a))"

definition list_slice :: "'a list \<Rightarrow> nat \<Rightarrow> nat \<Rightarrow> 'a list scrub" where
  "list_slice xs i j = (if i \<le> j \<and> j \<le> length xs then Done (take (j - i) (drop i xs)) else Panic)"

fun inject_batch ::
    "regex_engine \<Rightarrow> string list \<Rightarrow> nat list \<Rightarrow> string list \<Rightarrow> json list \<Rightarrow> scrub_stats \<Rightarrow> (json list \<times> scrub_stats) scrub" where
  "inject_batch rx sf (i # j # bounds) outs (v # vs) st =
     sc_bind (list_slice outs i j) (\<lambda>slice.
     sc_bind (inject rx sf False 0 v (st, slice)) (\<lambda>(out, st', rest).
     sc_bind (inject_batch rx sf (j # bounds) outs vs st') (\<lambda>(res, st''). Done (out # res, st''))))"
| "inject_batch rx sf bounds outs [] st = Done ([], st)"
| "inject_batch rx sf bounds outs vs st = Panic"

fun regex_batch :: "regex_engine \<Rightarrow> json list \<Rightarrow> scrub_stats \<Rightarrow> (json list \<times> scrub_stats) scrub" where
  "regex_batch rx [] st = Done ([], st)"
| "regex_batch rx (v # vs) st =
     sc_bind (walk_regex_only rx 0 v st) (\<lambda>(out, st').
     sc_bind (regex_batch rx vs st') (\<lambda>(res, st''). Done (out # res, st'')))"

definition walk_batch ::
    "regex_engine \<Rightarrow> ner_env \<Rightarrow> string list \<Rightarrow> bool \<Rightarrow> json list \<Rightarrow> ner_cache \<Rightarrow> scrub_stats \<Rightarrow>
       (json list \<times> scrub_stats) scrub \<times> ner_cache" where
  "walk_batch rx env sf run_ner vs cache st =
     (if \<not> run_ner then (regex_batch rx vs st, cache)
      else (case collect_batch sf vs [0] [] of
          Rejected e \<Rightarrow> (Rejected e, cache)
        | Panic \<Rightarrow> (Panic, cache)
        | Done (bounds, inputs) \<Rightarrow>
            (case ner_call env inputs cache st of (r, cache', st') \<Rightarrow>
               (sc_bind r (\<lambda>outs. inject_batch rx sf bounds outs vs st'), cache'))))"

section \<open>The walk as one pass\<close>

text \<open>
  What the walk computes, without errors, counters and phases: every string goes through
  the recognizer when it is eligible where it stands, then through the regexes unless it is
  blank. \<open>jdepth\<close> is the nesting depth of a value.
\<close>

definition regexed :: "regex_engine \<Rightarrow> string \<Rightarrow> string" where
  "regexed rx s = (if blank s then s else fst (scrub_string rx s stats_default))"

fun scrubbed :: "(string \<Rightarrow> string) \<Rightarrow> (string \<Rightarrow> string) \<Rightarrow> string list \<Rightarrow> bool \<Rightarrow> json \<Rightarrow> json"
  and scrubbed_items :: "(string \<Rightarrow> string) \<Rightarrow> (string \<Rightarrow> string) \<Rightarrow> string list \<Rightarrow> bool \<Rightarrow> json list \<Rightarrow> json list"
  and scrubbed_fields :: "(string \<Rightarrow> string) \<Rightarrow> (string \<Rightarrow> string) \<Rightarrow> string list \<Rightarrow> bool \<Rightarrow> fields \<Rightarrow> fields" where
  "scrubbed rg one sf sc (JStr s) = JStr (rg (if eligible sc s then one s else s))"
| "scrubbed rg one sf sc (JArr xs) = JArr (scrubbed_items rg one sf sc xs)"
| "scrubbed rg one sf sc (JObj fs) = JObj (scrubbed_fields rg one sf sc fs)"
| "scrubbed rg one sf sc v = v"
| "scrubbed_items rg one sf sc [] = []"
| "scrubbed_items rg one sf sc (x # xs) = scrubbed rg one sf sc x # scrubbed_items rg one sf sc xs"
| "scrubbed_fields rg one sf sc [] = []"
| "scrubbed_fields rg one sf sc ((k, v) # fs) =
     (k, scrubbed rg one sf (sc \<or> k \<in> set sf) v) # scrubbed_fields rg one sf sc fs"

fun jdepth :: "json \<Rightarrow> nat" and jdepth_items :: "json list \<Rightarrow> nat" and jdepth_fields :: "fields \<Rightarrow> nat" where
  "jdepth (JArr xs) = jdepth_items xs"
| "jdepth (JObj fs) = jdepth_fields fs"
| "jdepth JNull = 0"
| "jdepth (JBool b) = 0"
| "jdepth (JNum n) = 0"
| "jdepth (JStr s) = 0"
| "jdepth_items [] = 0"
| "jdepth_items (x # xs) = max (Suc (jdepth x)) (jdepth_items xs)"
| "jdepth_fields [] = 0"
| "jdepth_fields ((k, v) # fs) = max (Suc (jdepth v)) (jdepth_fields fs)"

fun inputs_of :: "string list \<Rightarrow> bool \<Rightarrow> json \<Rightarrow> string list"
  and inputs_items :: "string list \<Rightarrow> bool \<Rightarrow> json list \<Rightarrow> string list"
  and inputs_fields :: "string list \<Rightarrow> bool \<Rightarrow> fields \<Rightarrow> string list" where
  "inputs_of sf sc (JStr s) = (if eligible sc s then [s] else [])"
| "inputs_of sf sc (JArr xs) = inputs_items sf sc xs"
| "inputs_of sf sc (JObj fs) = inputs_fields sf sc fs"
| "inputs_of sf sc _ = []"
| "inputs_items sf sc [] = []"
| "inputs_items sf sc (x # xs) = inputs_of sf sc x @ inputs_items sf sc xs"
| "inputs_fields sf sc [] = []"
| "inputs_fields sf sc ((k, v) # fs) = inputs_of sf (sc \<or> k \<in> set sf) v @ inputs_fields sf sc fs"

text \<open>The text after the regexes does not depend on the counters.\<close>

lemma regex_step_apply:
  "regex_step rx (pat, rep) (text, st) =
     (if rx_count rx pat text > 0
      then (rx_replace rx pat rep text, st\<lparr>regex_redactions := regex_redactions st + rx_count rx pat text\<rparr>)
      else (text, st))"
  by (simp add: regex_step_def)

lemma scrub_string_pure: "\<exists>k. \<forall>st. scrub_string rx s st =
    (fst (scrub_string rx s stats_default), st\<lparr>regex_redactions := regex_redactions st + k\<rparr>)"
proof -
  have "\<exists>out k. \<forall>st. fold (regex_step rx) rs (s, st) = (out, st\<lparr>regex_redactions := regex_redactions st + k\<rparr>)" for rs
  proof (induction rs arbitrary: s)
    case Nil
    show ?case by (rule exI, rule exI [of _ 0]) simp
  next
    case (Cons r rs)
    obtain pat rep where r: "r = (pat, rep)" by (cases r)
    obtain out k where "fold (regex_step rx) rs (if rx_count rx pat s > 0 then rx_replace rx pat rep s else s, st)
       = (out, st\<lparr>regex_redactions := regex_redactions st + k\<rparr>)" for st
      using Cons.IH [of "if rx_count rx pat s > 0 then rx_replace rx pat rep s else s"] by blast
    then have "fold (regex_step rx) (r # rs) (s, st)
        = (out, st\<lparr>regex_redactions := regex_redactions st + (rx_count rx pat s + k)\<rparr>)" for st
      by (cases "rx_count rx pat s > 0") (simp_all add: r regex_step_apply add.assoc)
    then show ?case by blast
  qed
  then obtain out k where "scrub_string rx s st = (out, st\<lparr>regex_redactions := regex_redactions st + k\<rparr>)" for st
    unfolding scrub_string_def by blast
  then show ?thesis by auto
qed

abbreviation too_deep :: "'a scrub" where
  "too_deep \<equiv> Rejected (WalkerDepthExceeded (Suc max_depth))"

lemma collect_spec:
  "d \<le> Suc max_depth \<Longrightarrow> collect sf sc d v = (if d + jdepth v \<le> max_depth then Done (inputs_of sf sc v) else too_deep)"
  "d \<le> Suc max_depth \<Longrightarrow> collect_items sf sc d xs =
     (if d + jdepth_items xs \<le> Suc max_depth then Done (inputs_items sf sc xs) else too_deep)"
  "d \<le> Suc max_depth \<Longrightarrow> collect_fields sf sc d fs =
     (if d + jdepth_fields fs \<le> Suc max_depth then Done (inputs_fields sf sc fs) else too_deep)"
  by (induction sf sc d v and sf sc d xs and sf sc d fs rule: collect_collect_items_collect_fields.induct)
    (auto simp: at_depth_def max_depth_def)

lemma regexed_leaf: "\<exists>st'. regex_leaf rx s st = (JStr (regexed rx s), st')"
proof -
  obtain k where "\<And>st. scrub_string rx s st =
      (fst (scrub_string rx s stats_default), st\<lparr>regex_redactions := regex_redactions st + k\<rparr>)"
    using scrub_string_pure by blast
  from this [of st] show ?thesis by (auto simp: regex_leaf_def regexed_def split: prod.splits)
qed

lemma string_pass:
  "\<exists>st'. (if blank a then (a, st) else scrub_string rx a st) = (regexed rx a, st') \<and> fields_modified st' = fields_modified st"
proof -
  obtain k where "\<And>st. scrub_string rx a st =
      (fst (scrub_string rx a stats_default), st\<lparr>regex_redactions := regex_redactions st + k\<rparr>)"
    using scrub_string_pure by blast
  from this [of st] show ?thesis by (auto simp: regexed_def)
qed

lemma inject_string_eq:
  "\<exists>st'. inject_string rx sc s (st, (if eligible sc s then [one s] else []) @ rest) =
     (JStr (regexed rx (if eligible sc s then one s else s)), st', rest)
     \<and> fields_modified st' = fields_modified st + 1"
proof -
  define a where "a = (if eligible sc s then one s else s)"
  obtain st' where st': "(if blank a then (a, st) else scrub_string rx a st) = (regexed rx a, st')"
    "fields_modified st' = fields_modified st"
    using string_pass by blast
  have "inject_string rx sc s (st, (if eligible sc s then [one s] else []) @ rest)
      = (case (if blank a then (a, st) else scrub_string rx a st) of
           (out, st') \<Rightarrow> (JStr out, st'\<lparr>fields_modified := fields_modified st' + 1\<rparr>, rest))"
    by (cases "eligible sc s") (simp_all add: inject_string_def a_def)
  then show ?thesis by (simp add: st' a_def [symmetric])
qed

lemma noted_pair: "noted d (st, outs) = (note_depth d st, outs)"
  by (simp add: noted_def)

lemma fields_modified_note [simp]: "fields_modified (note_depth d st) = fields_modified st"
  by (simp add: note_depth_def)

lemma inject_spec:
  "d + jdepth v \<le> max_depth \<Longrightarrow>
     \<exists>st'. inject rx sf sc d v (st, map one (inputs_of sf sc v) @ rest) = Done (scrubbed (regexed rx) one sf sc v, st', rest)
       \<and> fields_modified st' = fields_modified st + length (strings_of v)"
  "d + jdepth_items xs \<le> Suc max_depth \<Longrightarrow>
     \<exists>st'. inject_items rx sf sc d xs (st, map one (inputs_items sf sc xs) @ rest)
         = Done (scrubbed_items (regexed rx) one sf sc xs, st', rest)
       \<and> fields_modified st' = fields_modified st + length (strings_items xs)"
  "d + jdepth_fields fs \<le> Suc max_depth \<Longrightarrow>
     \<exists>st'. inject_fields rx sf sc d fs (st, map one (inputs_fields sf sc fs) @ rest)
         = Done (scrubbed_fields (regexed rx) one sf sc fs, st', rest)
       \<and> fields_modified st' = fields_modified st + length (strings_fields fs)"
proof (induction sf sc v and sf sc xs and sf sc fs arbitrary: d st rest and d st rest and d st rest
    rule: inputs_of_inputs_items_inputs_fields.induct)
  case (1 sf sc s)
  obtain st' where "inject_string rx sc s (note_depth d st, (if eligible sc s then [one s] else []) @ rest) =
     (JStr (regexed rx (if eligible sc s then one s else s)), st', rest)"
     "fields_modified st' = fields_modified st + 1"
    using inject_string_eq [of rx sc s "note_depth d st" one rest] by auto
  moreover have "map one (inputs_of sf sc (JStr s)) = (if eligible sc s then [one s] else [])" by simp
  ultimately show ?case using 1 by (simp add: at_depth_def noted_pair)
next
  case (2 sf sc xs)
  from 2(1) [of "d + 1" "note_depth d st" rest] 2(2) show ?case by (auto simp: at_depth_def noted_pair)
next
  case (3 sf sc fs)
  from 3(1) [of "d + 1" "note_depth d st" rest] 3(2) show ?case by (auto simp: at_depth_def noted_pair)
next
  case (6 sf sc x xs)
  have x: "d + jdepth x \<le> max_depth" "d + jdepth_items xs \<le> Suc max_depth" using 6(3) by simp_all
  obtain st1 where 1: "inject rx sf sc d x (st, map one (inputs_of sf sc x) @ map one (inputs_items sf sc xs) @ rest)
      = Done (scrubbed (regexed rx) one sf sc x, st1, map one (inputs_items sf sc xs) @ rest)"
    "fields_modified st1 = fields_modified st + length (strings_of x)"
    using 6(1) [OF x(1)] by blast
  from 6(2) [OF x(2), of st1 rest] 1 show ?case by auto
next
  case (8 sf sc k v fs)
  have x: "d + jdepth v \<le> max_depth" "d + jdepth_fields fs \<le> Suc max_depth" using 8(3) by simp_all
  obtain st1 where 1: "inject rx sf (sc \<or> k \<in> set sf) d v
        (st, map one (inputs_of sf (sc \<or> k \<in> set sf) v) @ map one (inputs_fields sf sc fs) @ rest)
      = Done (scrubbed (regexed rx) one sf (sc \<or> k \<in> set sf) v, st1, map one (inputs_fields sf sc fs) @ rest)"
    "fields_modified st1 = fields_modified st + length (strings_of v)"
    using 8(1) [OF x(1)] by blast
  from 8(2) [OF x(2), of st1 rest] 1 show ?case by auto
qed (simp_all add: at_depth_def noted_pair)

lemma not_eligible [simp]: "\<not> eligible False s"
  by (simp add: eligible_def)

text \<open>Without the recognizer the walk is the same pass with no field in scope.\<close>

lemma regex_spec:
  "d \<le> Suc max_depth \<Longrightarrow> \<exists>st'. walk_regex_only rx d v st =
     (if d + jdepth v \<le> max_depth then Done (scrubbed (regexed rx) one [] False v, st') else too_deep)"
  "d \<le> Suc max_depth \<Longrightarrow> \<exists>st'. regex_items rx d xs st =
     (if d + jdepth_items xs \<le> Suc max_depth then Done (scrubbed_items (regexed rx) one [] False xs, st') else too_deep)"
  "d \<le> Suc max_depth \<Longrightarrow> \<exists>st'. regex_fields rx d fs st =
     (if d + jdepth_fields fs \<le> Suc max_depth then Done (scrubbed_fields (regexed rx) one [] False fs, st') else too_deep)"
proof (induction v and xs and fs arbitrary: d st and d st and d st rule: jdepth_jdepth_items_jdepth_fields.induct)
  case (1 xs)
  from 1(1) [of "d + 1" "note_depth d st"] 1(2) show ?case by (auto simp: at_depth_def max_depth_def)
next
  case (2 fs)
  from 2(1) [of "d + 1" "note_depth d st"] 2(2) show ?case by (auto simp: at_depth_def max_depth_def)
next
  case (6 s)
  then show ?case using regexed_leaf [of rx s "note_depth d st"] by (auto simp: at_depth_def)
next
  case (8 x xs)
  from 8(1) [OF 8(3), of st] obtain st1 where
    1: "walk_regex_only rx d x st = (if d + jdepth x \<le> max_depth then Done (scrubbed (regexed rx) one [] False x, st1) else too_deep)" ..
  from 8(2) [OF 8(3), of st1] 1 show ?case by (auto simp: nat_add_max_right)
next
  case (10 k v fs)
  from 10(1) [OF 10(3), of st] obtain st1 where
    1: "walk_regex_only rx d v st = (if d + jdepth v \<le> max_depth then Done (scrubbed (regexed rx) one [] False v, st1) else too_deep)" ..
  from 10(2) [OF 10(3), of st1] 1 show ?case by (auto simp: nat_add_max_right)
qed (auto simp: at_depth_def)

end
