(* ===== verification/Scrubber.thy ===== *)
theory Scrubber
  imports ScrubWalk
begin

text \<open>
  The entry points of the text scrubber (\<open>src/patterns_from_cirislens_core/scrubber/mod.rs\<close>)
  and what the two-phase walk below them computes: one independent rewriting per string.
  The environment of a call is the record \<open>scrub_env\<close>: the regex engine, lower-casing, the
  probe variable and the recognizer.
\<close>

section \<open>Entry points\<close>

datatype scrub_level = LGeneric | LDetailed | LFullTraces

definition scrub_level_from_str :: "string \<Rightarrow> scrub_level scrub" where
  "scrub_level_from_str s =
     (if s = ''generic'' then Done LGeneric
      else if s = ''detailed'' then Done LDetailed
      else if s = ''full_traces'' then Done LFullTraces
      else Rejected (InvalidLevel s))"

record scrubbed_trace =
  sct_value :: json
  sct_stats :: scrub_stats
  sct_level :: scrub_level

record scrub_env =
  se_regex :: regex_engine
  se_lower :: "string \<Rightarrow> string"
  se_probes :: "string option"
  se_ner :: ner_env

text \<open>The invariant check on one scrubbed value.\<close>

definition residue_check :: "scrub_env \<Rightarrow> json \<Rightarrow> json scrub" where
  "residue_check env v =
     (if count_year_residue (se_regex env) v > 0 then Rejected (YearResidue (count_year_residue (se_regex env) v))
      else if probe_match (se_lower env) (se_probes env) v then Rejected ProbeMatch
      else Done v)"

definition scrub_trace :: "scrub_env \<Rightarrow> json \<Rightarrow> scrub_level \<Rightarrow> ner_cache \<Rightarrow> scrubbed_trace scrub \<times> ner_cache" where
  "scrub_trace env trace level cache =
     (case (case level of
          LGeneric \<Rightarrow> (Done (trace, stats_default), cache)
        | LDetailed \<Rightarrow> walk (se_regex env) (se_ner env) scrub_fields False trace cache stats_default
        | LFullTraces \<Rightarrow>
            (let st = stats_default\<lparr>ner_ran := ne_configured (se_ner env)\<rparr>
             in if \<not> ner_ran st then (Rejected NerNotConfigured, cache)
                else walk (se_regex env) (se_ner env) scrub_fields True trace cache st)) of
        (r, cache') \<Rightarrow>
          (sc_bind r (\<lambda>(v, st).
             sc_bind (if level = LGeneric then Done v else residue_check env v) (\<lambda>v.
               Done \<lparr>sct_value = v, sct_stats = st, sct_level = level\<rparr>)), cache'))"

definition scrub_traces_batch ::
    "scrub_env \<Rightarrow> json list \<Rightarrow> scrub_level \<Rightarrow> ner_cache \<Rightarrow> scrubbed_trace list scrub \<times> ner_cache" where
  "scrub_traces_batch env traces level cache =
     (if traces = [] then (Done [], cache)
      else (case (case level of
          LGeneric \<Rightarrow> (Done (traces, stats_default), cache)
        | LDetailed \<Rightarrow> walk_batch (se_regex env) (se_ner env) scrub_fields False traces cache stats_default
        | LFullTraces \<Rightarrow>
            (let st = stats_default\<lparr>ner_ran := ne_configured (se_ner env)\<rparr>
             in if \<not> ner_ran st then (Rejected NerNotConfigured, cache)
                else walk_batch (se_regex env) (se_ner env) scrub_fields True traces cache st)) of
        (r, cache') \<Rightarrow>
          (sc_bind r (\<lambda>(vs, st).
             sc_bind (if level = LGeneric then Done vs else sc_map (residue_check env) vs) (\<lambda>vs.
               Done (map (\<lambda>v. \<lparr>sct_value = v, sct_stats = st, sct_level = level\<rparr>) vs))), cache')))"

section \<open>The walk, string by string\<close>

text \<open>A recognizer behind the cache that redacts each text by \<open>one\<close>.\<close>

definition ner_ok :: "(string \<Rightarrow> string) \<Rightarrow> ner_env \<Rightarrow> ner_cache \<Rightarrow> bool" where
  "ner_ok one env cache \<longleftrightarrow> ne_configured env \<and> pointwise one (ne_backend env) \<and> cache_ok one cache"

lemma ner_call_ok:
  assumes "ner_ok one env cache"
  shows "\<exists>cache' st'. ner_call env inputs cache st = (Done (map one inputs), cache', st') \<and> cache_ok one cache'"
proof (cases "inputs = []")
  case True
  then show ?thesis using assms by (simp add: ner_call_def ner_ok_def)
next
  case False
  then show ?thesis
    using assms cached_scrub_pointwise [of one "ne_backend env" cache inputs st]
    by (fastforce simp: ner_call_def ner_ok_def)
qed

lemma walk_spec:
  assumes ok: "ner_ok one env cache"
  shows "jdepth v \<le> max_depth \<Longrightarrow> \<exists>st' cache'. walk rx env sf True v cache st
        = (Done (scrubbed (regexed rx) one sf False v, st'), cache') \<and> cache_ok one cache'"
    and "jdepth v > max_depth \<Longrightarrow> walk rx env sf True v cache st = (too_deep, cache)"
proof -
  assume v: "jdepth v \<le> max_depth"
  obtain cache' st' where n: "ner_call env (inputs_of sf False v) cache st = (Done (map one (inputs_of sf False v)), cache', st')"
    "cache_ok one cache'"
    using ner_call_ok [OF ok] by blast
  obtain st'' where "inject rx sf False 0 v (st', map one (inputs_of sf False v))
      = Done (scrubbed (regexed rx) one sf False v, st'', [])"
    using inject_spec(1) [of 0 v rx sf False st' one "[]"] v by auto
  then show "\<exists>st' cache'. walk rx env sf True v cache st
        = (Done (scrubbed (regexed rx) one sf False v, st'), cache') \<and> cache_ok one cache'"
    using n v by (auto simp: walk_def collect_spec(1))
next
  assume "jdepth v > max_depth"
  then show "walk rx env sf True v cache st = (too_deep, cache)"
    by (simp add: walk_def collect_spec(1))
qed

lemma walk_regex_spec: "\<exists>st'. walk rx env sf False v cache st =
    (if jdepth v \<le> max_depth then Done (scrubbed (regexed rx) one [] False v, st') else too_deep, cache)"
  using regex_spec(1) [of 0 rx v st one] by (auto simp: walk_def)

fun marks :: "nat \<Rightarrow> 'a list list \<Rightarrow> nat list" where
  "marks n [] = []"
| "marks n (l # ls) = (n + length l) # marks (n + length l) ls"

lemma collect_batch_spec:
  "collect_batch sf vs bounds inputs =
     (if \<forall>v \<in> set vs. jdepth v \<le> max_depth
      then Done (bounds @ marks (length inputs) (map (inputs_of sf False) vs), inputs @ concat (map (inputs_of sf False) vs))
      else too_deep)"
  by (induction vs arbitrary: bounds inputs) (auto simp: collect_spec(1) not_le)

lemma inject_batch_spec:
  assumes "\<forall>v \<in> set vs. jdepth v \<le> max_depth"
  shows "\<exists>st'. inject_batch rx sf (length pre # marks (length pre) (map (inputs_of sf False) vs))
        (pre @ map one (concat (map (inputs_of sf False) vs))) vs st
      = Done (map (scrubbed (regexed rx) one sf False) vs, st')"
  using assms
proof (induction vs arbitrary: pre st)
  case (Cons v vs)
  let ?a = "map one (inputs_of sf False v)" and ?rest = "map one (concat (map (inputs_of sf False) vs))"
  have slice: "list_slice (pre @ ?a @ ?rest) (length pre) (length pre + length (inputs_of sf False v)) = Done ?a"
    by (simp add: list_slice_def)
  obtain st1 where inj: "inject rx sf False 0 v (st, ?a) = Done (scrubbed (regexed rx) one sf False v, st1, [])"
    using inject_spec(1) [of 0 v rx sf False st one "[]"] Cons.prems by auto
  obtain st2 where "inject_batch rx sf (length (pre @ ?a) # marks (length (pre @ ?a)) (map (inputs_of sf False) vs))
      ((pre @ ?a) @ ?rest) vs st1 = Done (map (scrubbed (regexed rx) one sf False) vs, st2)"
    using Cons.IH [of "pre @ ?a" st1] Cons.prems by auto
  then show ?case using slice inj by simp
qed simp

lemma walk_batch_spec:
  assumes ok: "ner_ok one env cache"
  shows "\<forall>v \<in> set vs. jdepth v \<le> max_depth \<Longrightarrow> \<exists>st' cache'. walk_batch rx env sf True vs cache st
        = (Done (map (scrubbed (regexed rx) one sf False) vs, st'), cache') \<and> cache_ok one cache'"
    and "\<not> (\<forall>v \<in> set vs. jdepth v \<le> max_depth) \<Longrightarrow> walk_batch rx env sf True vs cache st = (too_deep, cache)"
proof -
  assume v: "\<forall>v \<in> set vs. jdepth v \<le> max_depth"
  let ?in = "concat (map (inputs_of sf False) vs)"
  obtain cache' st' where n: "ner_call env ?in cache st = (Done (map one ?in), cache', st')" "cache_ok one cache'"
    using ner_call_ok [OF ok] by blast
  obtain st'' where "inject_batch rx sf (0 # marks 0 (map (inputs_of sf False) vs)) (map one ?in) vs st'
      = Done (map (scrubbed (regexed rx) one sf False) vs, st'')"
    using inject_batch_spec [OF v, of rx sf "[]" one st'] by auto
  then show "\<exists>st' cache'. walk_batch rx env sf True vs cache st
        = (Done (map (scrubbed (regexed rx) one sf False) vs, st'), cache') \<and> cache_ok one cache'"
    using n v by (auto simp: walk_batch_def collect_batch_spec)
next
  assume "\<not> (\<forall>v \<in> set vs. jdepth v \<le> max_depth)"
  then have "collect_batch sf vs [0] [] = too_deep" by (simp only: collect_batch_spec if_False)
  then show "walk_batch rx env sf True vs cache st = (too_deep, cache)" by (simp add: walk_batch_def)
qed

lemma walk_batch_regex_spec:
  "\<exists>st'. walk_batch rx env sf False vs cache st =
    (if \<forall>v \<in> set vs. jdepth v \<le> max_depth then Done (map (scrubbed (regexed rx) one [] False) vs, st') else too_deep, cache)"
proof -
  have "\<exists>st'. regex_batch rx vs st =
    (if \<forall>v \<in> set vs. jdepth v \<le> max_depth then Done (map (scrubbed (regexed rx) one [] False) vs, st') else too_deep)"
  proof (induction vs arbitrary: st)
    case (Cons v vs)
    obtain st1 where 1: "walk_regex_only rx 0 v st =
        (if jdepth v \<le> max_depth then Done (scrubbed (regexed rx) one [] False v, st1) else too_deep)"
      using regex_spec(1) [of 0 rx v st one] by auto
    from Cons.IH [of st1] 1 show ?case by auto
  qed simp
  then show ?thesis by (auto simp: walk_batch_def)
qed

section \<open>Properties\<close>


text \<open>What a call may let through, per trace.\<close>

definition verdict :: "scrub_env \<Rightarrow> (string \<Rightarrow> string) \<Rightarrow> scrub_level \<Rightarrow> json \<Rightarrow> json scrub" where
  "verdict env one level v =
     (case level of
        LGeneric \<Rightarrow> Done v
      | LDetailed \<Rightarrow> if jdepth v > max_depth then too_deep
                     else residue_check env (scrubbed (regexed (se_regex env)) one [] False v)
      | LFullTraces \<Rightarrow> if \<not> ne_configured (se_ner env) then Rejected NerNotConfigured
                       else if jdepth v > max_depth then too_deep
                       else residue_check env (scrubbed (regexed (se_regex env)) one scrub_fields False v))"

definition scrubbed_value :: "scrubbed_trace scrub \<Rightarrow> json scrub" where
  "scrubbed_value r = sc_bind r (\<lambda>t. Done (sct_value t))"

lemma residue_check_Done: "residue_check env v = Done w \<longleftrightarrow>
    w = v \<and> count_year_residue (se_regex env) v = 0 \<and> \<not> probe_match (se_lower env) (se_probes env) v"
  by (auto simp: residue_check_def)

lemma value_after [simp]:
  "sc_bind (sc_bind r (\<lambda>v. Done \<lparr>sct_value = v, sct_stats = st, sct_level = l\<rparr>)) (\<lambda>t. Done (sct_value t)) = r"
  by (cases r) simp_all

lemma trace_verdict:
  assumes ok: "ne_configured (se_ner env) \<longrightarrow> ner_ok one (se_ner env) cache"
  shows "scrubbed_value (fst (scrub_trace env v level cache)) = verdict env one level v"
proof (cases level)
  case LGeneric
  then show ?thesis by (simp add: scrub_trace_def scrubbed_value_def verdict_def)
next
  case LDetailed
  obtain st' where "walk (se_regex env) (se_ner env) scrub_fields False v cache stats_default =
    (if jdepth v \<le> max_depth then Done (scrubbed (regexed (se_regex env)) one [] False v, st') else too_deep, cache)"
    using walk_regex_spec by blast
  then show ?thesis
    using LDetailed by (simp add: scrub_trace_def scrubbed_value_def verdict_def)
next
  case LFullTraces
  show ?thesis
  proof (cases "ne_configured (se_ner env)")
    case True
    then have ner: "ner_ok one (se_ner env) cache" using ok by blast
    show ?thesis
    proof (cases "jdepth v \<le> max_depth")
      case d: True
      obtain st' cache' where "walk (se_regex env) (se_ner env) scrub_fields True v cache (stats_default\<lparr>ner_ran := True\<rparr>)
          = (Done (scrubbed (regexed (se_regex env)) one scrub_fields False v, st'), cache')"
        using walk_spec(1) [OF ner d] by blast
      then show ?thesis
        using LFullTraces True d by (simp add: scrub_trace_def scrubbed_value_def verdict_def Let_def)
    next
      case False
      then show ?thesis
        using LFullTraces True walk_spec(2) [OF ner, of v "se_regex env" scrub_fields "stats_default\<lparr>ner_ran := True\<rparr>"]
        by (simp add: scrub_trace_def scrubbed_value_def verdict_def Let_def)
    qed
  next
    case False
    then show ?thesis using LFullTraces by (simp add: scrub_trace_def scrubbed_value_def verdict_def stats_default_def)
  qed
qed

lemma sc_map_Done_iff: "sc_map f xs = Done ys \<longleftrightarrow> list_all2 (\<lambda>x y. f x = Done y) xs ys"
  by (induction xs arbitrary: ys) (auto simp: sc_bind_Done_iff list_all2_Cons1)

lemma verdicts_pointwise:
  assumes "\<And>v. v \<in> set vs \<Longrightarrow> f v = g (s v)"
  shows "list_all2 (\<lambda>v w. f v = Done w) vs ws \<longleftrightarrow> sc_map g (map s vs) = Done ws"
  unfolding sc_map_Done_iff list_all2_map1 using assms by (intro list.rel_cong) simp_all

text \<open>The batch at the two levels that rewrite, once it is known what its walk computes.\<close>

lemma no_verdict_too_deep:
  assumes "\<And>v. jdepth v > max_depth \<Longrightarrow> verdict env one level v = too_deep" "\<not> (\<forall>v \<in> set vs. jdepth v \<le> max_depth)"
  shows "\<not> list_all2 (\<lambda>v w. verdict env one level v = Done w) vs ws"
proof
  assume a: "list_all2 (\<lambda>v w. verdict env one level v = Done w) vs ws"
  obtain v where v: "v \<in> set vs" "jdepth v > max_depth" using assms(2) by (auto simp: not_le)
  then obtain n where "n < length vs" "vs ! n = v" by (auto simp: in_set_conv_nth)
  with list_all2_nthD [OF a, of n] obtain w where "verdict env one level v = Done w" by auto
  with assms(1) [OF v(2)] show False by simp
qed

lemma batch_verdict_detailed:
  assumes ne: "vs \<noteq> []"
  shows "(\<exists>outs. fst (scrub_traces_batch env vs LDetailed cache) = Done outs \<and> map sct_value outs = ws)
    \<longleftrightarrow> list_all2 (\<lambda>v w. verdict env one LDetailed v = Done w) vs ws"
proof -
  let ?s = "scrubbed (regexed (se_regex env)) one [] False"
  obtain st' where w: "walk_batch (se_regex env) (se_ner env) scrub_fields False vs cache stats_default =
    (if \<forall>v \<in> set vs. jdepth v \<le> max_depth then Done (map ?s vs, st') else too_deep, cache)"
    using walk_batch_regex_spec by blast
  show ?thesis
  proof (cases "\<forall>v \<in> set vs. jdepth v \<le> max_depth")
    case True
    then have "list_all2 (\<lambda>v w. verdict env one LDetailed v = Done w) vs ws
        \<longleftrightarrow> sc_map (residue_check env) (map ?s vs) = Done ws"
      by (intro verdicts_pointwise) (auto simp: verdict_def)
    then show ?thesis using True w ne
      by (auto simp: scrub_traces_batch_def sc_bind_Done_iff comp_def)
  next
    case False
    have "fst (scrub_traces_batch env vs LDetailed cache) = too_deep"
      using w False ne by (simp only: scrub_traces_batch_def if_False) simp
    with no_verdict_too_deep [OF _ False, of env one LDetailed] show ?thesis by (simp add: verdict_def)
  qed
qed

lemma batch_verdict_full:
  assumes ner: "ner_ok one (se_ner env) cache" and conf: "ne_configured (se_ner env)" and ne: "vs \<noteq> []"
  shows "(\<exists>outs. fst (scrub_traces_batch env vs LFullTraces cache) = Done outs \<and> map sct_value outs = ws)
    \<longleftrightarrow> list_all2 (\<lambda>v w. verdict env one LFullTraces v = Done w) vs ws"
proof (cases "\<forall>v \<in> set vs. jdepth v \<le> max_depth")
  case True
  let ?s = "scrubbed (regexed (se_regex env)) one scrub_fields False"
  obtain st' cache' where w: "walk_batch (se_regex env) (se_ner env) scrub_fields True vs cache (stats_default\<lparr>ner_ran := True\<rparr>)
      = (Done (map ?s vs, st'), cache')"
    using walk_batch_spec(1) [OF ner True] by blast
  have "list_all2 (\<lambda>v w. verdict env one LFullTraces v = Done w) vs ws
      \<longleftrightarrow> sc_map (residue_check env) (map ?s vs) = Done ws"
    using True by (intro verdicts_pointwise) (auto simp: verdict_def conf)
  then show ?thesis using w ne conf
    by (auto simp: scrub_traces_batch_def sc_bind_Done_iff comp_def)
next
  case False
  have "fst (scrub_traces_batch env vs LFullTraces cache) = too_deep"
    using walk_batch_spec(2) [OF ner False] ne conf by (simp add: scrub_traces_batch_def)
  with no_verdict_too_deep [OF _ False, of env one LFullTraces] show ?thesis by (simp add: verdict_def conf)
qed

lemma batch_verdict:
  assumes ok: "ne_configured (se_ner env) \<longrightarrow> ner_ok one (se_ner env) cache" and ne: "vs \<noteq> []"
  shows "(\<exists>outs. fst (scrub_traces_batch env vs level cache) = Done outs \<and> map sct_value outs = ws)
    \<longleftrightarrow> list_all2 (\<lambda>v w. verdict env one level v = Done w) vs ws"
proof (cases level)
  case LGeneric
  then show ?thesis
    using ne by (auto simp: scrub_traces_batch_def verdict_def list_all2_conv_all_nth comp_def intro: nth_equalityI)
next
  case LDetailed
  then show ?thesis using batch_verdict_detailed [OF ne] by simp
next
  case LFullTraces
  show ?thesis
  proof (cases "ne_configured (se_ner env)")
    case True
    then show ?thesis using batch_verdict_full [OF _ True ne] ok LFullTraces by blast
  next
    case False
    then have "\<not> list_all2 (\<lambda>v w. verdict env one level v = Done w) vs ws"
      using ne by (cases vs) (auto simp: verdict_def LFullTraces list_all2_Cons1)
    then show ?thesis using False LFullTraces ne by (simp add: scrub_traces_batch_def stats_default_def)
  qed
qed

lemma scrubbed_value_Done: "scrubbed_value r = Done w \<longleftrightarrow> (\<exists>t. r = Done t \<and> sct_value t = w)"
  by (cases r) (auto simp: scrubbed_value_def)

lemma verdict_above_generic:
  assumes "verdict env one level v = Done w" "level \<noteq> LGeneric"
  shows "jdepth v \<le> max_depth \<and> count_year_residue (se_regex env) w = 0
    \<and> \<not> probe_match (se_lower env) (se_probes env) w
    \<and> w = scrubbed (regexed (se_regex env)) one (if level = LFullTraces then scrub_fields else []) False v
    \<and> (level = LFullTraces \<longrightarrow> ne_configured (se_ner env))"
  using assms by (cases level) (auto simp: verdict_def residue_check_Done split: if_splits)


text \<open>
  A regex engine that knows one year, a recognizer that is not configured, and the toy
  recognizer that takes every text for a name.
\<close>

definition toy_regex :: regex_engine where
  "toy_regex = \<lparr>rx_count = (\<lambda>pat s. if pat = HISTORICAL_YEAR \<and> contains ''1989'' s then 1 else 0),
                rx_replace = (\<lambda>pat rep s. rep)\<rparr>"

definition toy_env :: "string option \<Rightarrow> scrub_env" where
  "toy_env probes = \<lparr>se_regex = toy_regex, se_lower = id, se_probes = probes,
     se_ner = \<lparr>ne_configured = False, ne_backend = backend_scrub_batch toy_tokenize (\<lambda>cs. Inr (map toy_label cs)) []\<rparr>\<rparr>"

lemma toy_regex_of: "se_regex (toy_env p) = toy_regex"
  by (simp add: toy_env_def)



end
