(* ===== verification/AuditLog.thy ===== *)
theory AuditLog
  imports Pipeline
begin

text \<open>
  The typed audit log, \<open>src/src/audit\<close>: the event vocabulary and its JSON (\<open>api.rs\<close>), the
  entry draft and its two stamps (\<open>delegate.rs\<close>), and the recording flow through the host
  engine with its four entry points (\<open>pyo3.rs\<close>). The JSON printer, SHA-256, the two base64
  alphabets and chrono's two timestamp texts are the fields of \<open>audit_env\<close>. The host engine
  is a Python object: every method may raise, an answer of another Python type counts as
  raising, and its answers may depend on its state. The texts it accepted for the log are
  recorded with the state.
\<close>

section \<open>Vocabulary\<close>

datatype consent_event_type = ConsentGranted | ConsentRevoked | ConsentExpired

fun consent_event_type_str :: "consent_event_type \<Rightarrow> string" where
  "consent_event_type_str ConsentGranted = ''grant''"
| "consent_event_type_str ConsentRevoked = ''revoke''"
| "consent_event_type_str ConsentExpired = ''expire''"

record audited_action =
  aa_action_type :: string
  aa_thought_id :: string
  aa_rationale :: "string option"
  aa_handler :: string
  aa_success :: bool
  aa_duration_ms :: u64
  aa_recorded_at :: instant

record consent_event =
  ce_event_type :: consent_event_type
  ce_stream_id :: string
  ce_duration_days :: "u32 option"
  ce_consent_role :: string
  ce_recorded_at :: instant

record wisdom_based_deferral =
  wb_deferral_reason :: string
  wb_deferred_to :: string
  wb_deferral_window_seconds :: u64
  wb_recorded_at :: instant

record identity_change =
  ic_field :: string
  ic_old :: string
  ic_new :: string
  ic_operator_signature :: string
  ic_recorded_at :: instant

datatype typed_audit_event =
    AuditAction audited_action
  | AuditConsent consent_event
  | AuditDeferral wisdom_based_deferral
  | AuditIdentity identity_change

fun action_type_str :: "typed_audit_event \<Rightarrow> string" where
  "action_type_str (AuditAction a) = ''handler_action_'' @ aa_action_type a"
| "action_type_str (AuditConsent c) = ''consent_event''"
| "action_type_str (AuditDeferral w) = ''wisdom_based_deferral''"
| "action_type_str (AuditIdentity i) = ''identity_change''"

fun subject_kind :: "typed_audit_event \<Rightarrow> string" where
  "subject_kind (AuditAction a) = ''thought''"
| "subject_kind (AuditConsent c) = ''stream''"
| "subject_kind (AuditDeferral w) = ''thought''"
| "subject_kind (AuditIdentity i) = ''identity_field''"

fun subject_id :: "typed_audit_event \<Rightarrow> string" where
  "subject_id (AuditAction a) = aa_thought_id a"
| "subject_id (AuditConsent c) = ce_stream_id c"
| "subject_id (AuditDeferral w) = ''wbd''"
| "subject_id (AuditIdentity i) = ic_field i"

fun recorded_at :: "typed_audit_event \<Rightarrow> instant" where
  "recorded_at (AuditAction a) = aa_recorded_at a"
| "recorded_at (AuditConsent c) = ce_recorded_at c"
| "recorded_at (AuditDeferral w) = wb_recorded_at w"
| "recorded_at (AuditIdentity i) = ic_recorded_at i"

record audit_env =
  ad_to_string :: "json \<Rightarrow> string + string"
  ad_sha256 :: "bytes \<Rightarrow> bytes"
  ad_base64 :: "bytes \<Rightarrow> string"
  ad_base64_url :: "bytes \<Rightarrow> string"
  ad_rfc3339 :: "instant \<Rightarrow> string"
  ad_serde_time :: "instant \<Rightarrow> string"

text \<open>
  The derived serializers: one object with the variant's name under \<open>kind\<close>; an absent
  option has no key.
\<close>

definition opt_entry :: "string \<Rightarrow> ('a \<Rightarrow> json) \<Rightarrow> 'a option \<Rightarrow> fields" where
  "opt_entry k f x = (case x of None \<Rightarrow> [] | Some a \<Rightarrow> [(k, f a)])"

fun to_payload :: "audit_env \<Rightarrow> typed_audit_event \<Rightarrow> json" where
  "to_payload env (AuditAction a) = jobject
     ([(''kind'', JStr ''action''), (''action_type'', JStr (aa_action_type a)),
       (''thought_id'', JStr (aa_thought_id a))]
      @ opt_entry ''rationale'' JStr (aa_rationale a)
      @ [(''handler'', JStr (aa_handler a)), (''success'', JBool (aa_success a)),
         (''duration_ms'', j_of_u64 (aa_duration_ms a)),
         (''recorded_at'', JStr (ad_serde_time env (aa_recorded_at a)))])"
| "to_payload env (AuditConsent c) = jobject
     ([(''kind'', JStr ''consent_event''), (''event_type'', JStr (consent_event_type_str (ce_event_type c))),
       (''stream_id'', JStr (ce_stream_id c))]
      @ opt_entry ''duration_days'' j_of_u32 (ce_duration_days c)
      @ [(''consent_role'', JStr (ce_consent_role c)),
         (''recorded_at'', JStr (ad_serde_time env (ce_recorded_at c)))])"
| "to_payload env (AuditDeferral w) = jobject
     [(''kind'', JStr ''wisdom_based_deferral''), (''deferral_reason'', JStr (wb_deferral_reason w)),
      (''deferred_to'', JStr (wb_deferred_to w)),
      (''deferral_window_seconds'', j_of_u64 (wb_deferral_window_seconds w)),
      (''recorded_at'', JStr (ad_serde_time env (wb_recorded_at w)))]"
| "to_payload env (AuditIdentity i) = jobject
     [(''kind'', JStr ''identity_change''), (''field'', JStr (ic_field i)), (''old'', JStr (ic_old i)),
      (''new'', JStr (ic_new i)), (''operator_signature'', JStr (ic_operator_signature i)),
      (''recorded_at'', JStr (ad_serde_time env (ic_recorded_at i)))]"

section \<open>Entries\<close>

definition build_entry_draft ::
    "audit_env \<Rightarrow> typed_audit_event \<Rightarrow> string \<Rightarrow> string \<Rightarrow> string \<Rightarrow> instant \<Rightarrow> json" where
  "build_entry_draft env event tenant_id actor_id entry_id ts = jobject
     [(''entry_id'', JStr entry_id), (''sequence_number'', JNum (PosInt 0)), (''tenant_id'', JStr tenant_id),
      (''actor_id'', JStr actor_id), (''action_type'', JStr (action_type_str event)),
      (''subject_kind'', JStr (subject_kind event)), (''subject_id'', JStr (subject_id event)),
      (''payload'', to_payload env event), (''prev_hash'', JStr []), (''entry_hash'', JStr []),
      (''recorded_at'', JStr (ad_rfc3339 env ts)), (''signature'', JStr [])]"

fun set_key :: "string \<Rightarrow> string \<Rightarrow> json \<Rightarrow> json" where
  "set_key k v (JObj fs) = JObj (bt_put k (JStr v) fs)"
| "set_key k v j = j"

definition stamp_entry_hash :: "audit_env \<Rightarrow> json \<Rightarrow> bytes \<Rightarrow> json" where
  "stamp_entry_hash env draft canonical = set_key ''entry_hash'' (ad_base64 env (ad_sha256 env canonical)) draft"

definition stamp_signature :: "audit_env \<Rightarrow> json \<Rightarrow> bytes \<Rightarrow> json" where
  "stamp_signature env entry sig = set_key ''signature'' (ad_base64_url env sig) entry"

section \<open>Recording\<close>

record 'e audit_engine =
  ae_local_key_id :: "'e \<Rightarrow> (string + string) \<times> 'e"
  ae_canonicalize_for_hash :: "string \<Rightarrow> 'e \<Rightarrow> (string + bytes) \<times> 'e"
  ae_canonicalize_for_signing :: "string \<Rightarrow> 'e \<Rightarrow> (string + bytes) \<times> 'e"
  ae_local_sign :: "bytes \<Rightarrow> 'e \<Rightarrow> (string + bytes) \<times> 'e"
  ae_record_entry :: "string \<Rightarrow> 'e \<Rightarrow> (string + unit) \<times> 'e"

datatype 'e audit_inner = SovereignAudit | CohabitationAudit "'e audit_engine"

record 'e audit_state =
  au_host :: 'e
  au_log :: "string list"

datatype audit_error =
    AuditSovereignUnavailable
  | AuditEngine string string
  | AuditSerialize string
  | AuditSignatureLength nat
  | AuditValue string

text \<open>The constructor takes the host's engine, or falls back to the one of the process.\<close>

definition lens_audit_new :: "'r option \<Rightarrow> 'e audit_engine option \<Rightarrow> string + 'e audit_inner" where
  "lens_audit_new process_engine engine =
     (case engine of
        Some eng \<Rightarrow> Inr (CohabitationAudit eng)
      | None \<Rightarrow> (case process_engine of None \<Rightarrow> Inl ''no process Engine'' | Some _ \<Rightarrow> Inr SovereignAudit))"

definition host_call ::
    "string \<Rightarrow> ('e \<Rightarrow> (string + 'a) \<times> 'e) \<Rightarrow> 'e audit_state \<Rightarrow> (audit_error + 'a) \<times> 'e audit_state" where
  "host_call name f st = (case f (au_host st) of (r, h) \<Rightarrow> (map_err (AuditEngine name) r, st\<lparr>au_host := h\<rparr>))"

definition record_entry ::
    "'e audit_engine \<Rightarrow> string \<Rightarrow> 'e audit_state \<Rightarrow> (audit_error + unit) \<times> 'e audit_state" where
  "record_entry eng text st =
     sbind (host_call ''audit_record_entry'' (ae_record_entry eng text) st)
       (\<lambda>_ st. (Inr (), st\<lparr>au_log := au_log st @ [text]\<rparr>))"

definition record_event ::
    "audit_env \<Rightarrow> 'e audit_inner \<Rightarrow> string \<Rightarrow> typed_audit_event \<Rightarrow> string \<Rightarrow> 'e audit_state \<Rightarrow>
       (audit_error + unit) \<times> 'e audit_state" where
  "record_event env inner tenant_id event entry_id st =
     (case inner of
        SovereignAudit \<Rightarrow> (Inl AuditSovereignUnavailable, st)
      | CohabitationAudit eng \<Rightarrow>
          sbind (host_call ''local_key_id'' (ae_local_key_id eng) st) (\<lambda>actor_id st.
          let draft = build_entry_draft env event tenant_id actor_id entry_id (recorded_at event) in
          sbind (map_err AuditSerialize (ad_to_string env draft), st) (\<lambda>draft_text st.
          sbind (host_call ''audit_canonicalize_for_hash'' (ae_canonicalize_for_hash eng draft_text) st)
            (\<lambda>hash_bytes st.
          let hashed = stamp_entry_hash env draft hash_bytes in
          sbind (map_err AuditSerialize (ad_to_string env hashed), st) (\<lambda>hashed_text st.
          sbind (host_call ''audit_canonicalize_for_signing'' (ae_canonicalize_for_signing eng hashed_text) st)
            (\<lambda>sign_bytes st.
          sbind (host_call ''local_sign'' (ae_local_sign eng sign_bytes) st) (\<lambda>sig st.
          if length sig \<noteq> 64 then (Inl (AuditSignatureLength (length sig)), st)
          else
            sbind (map_err AuditSerialize (ad_to_string env (stamp_signature env hashed sig)), st)
              (\<lambda>text st. record_entry eng text st))))))))"

text \<open>The four methods; each answers with the entry id and the action type.\<close>

definition log_event ::
    "audit_env \<Rightarrow> 'e audit_inner \<Rightarrow> string \<Rightarrow> typed_audit_event \<Rightarrow> string \<Rightarrow> 'e audit_state \<Rightarrow>
       (audit_error + string \<times> string) \<times> 'e audit_state" where
  "log_event env inner tenant_id event entry_id st =
     sbind (record_event env inner tenant_id event entry_id st)
       (\<lambda>_ st. (Inr (entry_id, action_type_str event), st))"

definition log_action ::
    "audit_env \<Rightarrow> 'e audit_inner \<Rightarrow> string \<Rightarrow> string \<Rightarrow> instant \<Rightarrow> string \<Rightarrow> string \<Rightarrow> string \<Rightarrow> bool \<Rightarrow> u64 \<Rightarrow>
       string option \<Rightarrow> 'e audit_state \<Rightarrow> (audit_error + string \<times> string) \<times> 'e audit_state" where
  "log_action env inner tenant_id uid now action_type thought_id handler success duration_ms rationale st =
     (if action_type = [] then (Inl (AuditValue ''action_type must not be empty''), st)
      else if thought_id = [] then (Inl (AuditValue ''thought_id must not be empty''), st)
      else log_event env inner tenant_id (AuditAction
        \<lparr>aa_action_type = action_type, aa_thought_id = thought_id, aa_rationale = rationale, aa_handler = handler,
         aa_success = success, aa_duration_ms = duration_ms, aa_recorded_at = now\<rparr>) uid st)"

definition parse_consent_event_type :: "(string \<Rightarrow> string) \<Rightarrow> string \<Rightarrow> audit_error + consent_event_type" where
  "parse_consent_event_type debug s =
     (if s = ''grant'' then Inr ConsentGranted
      else if s = ''revoke'' then Inr ConsentRevoked
      else if s = ''expire'' then Inr ConsentExpired
      else Inl (AuditValue (''event_type must be one of: grant, revoke, expire '' @ map char_of [226 :: nat, 128, 148] @ '' got '' @ debug s)))"

definition log_consent_event ::
    "audit_env \<Rightarrow> (string \<Rightarrow> string) \<Rightarrow> 'e audit_inner \<Rightarrow> string \<Rightarrow> string \<Rightarrow> instant \<Rightarrow> string \<Rightarrow> string \<Rightarrow> string \<Rightarrow>
       u32 option \<Rightarrow> 'e audit_state \<Rightarrow> (audit_error + string \<times> string) \<times> 'e audit_state" where
  "log_consent_event env debug inner tenant_id uid now event_type stream_id consent_role duration_days st =
     sbind (parse_consent_event_type debug event_type, st) (\<lambda>et st.
       log_event env inner tenant_id (AuditConsent
         \<lparr>ce_event_type = et, ce_stream_id = stream_id, ce_duration_days = duration_days,
          ce_consent_role = consent_role, ce_recorded_at = now\<rparr>) uid st)"

definition log_wbd ::
    "audit_env \<Rightarrow> 'e audit_inner \<Rightarrow> string \<Rightarrow> string \<Rightarrow> instant \<Rightarrow> string \<Rightarrow> string \<Rightarrow> u64 \<Rightarrow> 'e audit_state \<Rightarrow>
       (audit_error + string \<times> string) \<times> 'e audit_state" where
  "log_wbd env inner tenant_id uid now reason target window st =
     log_event env inner tenant_id (AuditDeferral
       \<lparr>wb_deferral_reason = reason, wb_deferred_to = target, wb_deferral_window_seconds = window,
        wb_recorded_at = now\<rparr>) uid st"

definition log_identity_change ::
    "audit_env \<Rightarrow> 'e audit_inner \<Rightarrow> string \<Rightarrow> string \<Rightarrow> instant \<Rightarrow> string \<Rightarrow> string \<Rightarrow> string \<Rightarrow> string \<Rightarrow> 'e audit_state \<Rightarrow>
       (audit_error + string \<times> string) \<times> 'e audit_state" where
  "log_identity_change env inner tenant_id uid now field before after operator_signature st =
     log_event env inner tenant_id (AuditIdentity
       \<lparr>ic_field = field, ic_old = before, ic_new = after, ic_operator_signature = operator_signature,
        ic_recorded_at = now\<rparr>) uid st"

section \<open>Facts\<close>

lemma opt_entry_simps [simp]: "opt_entry k f None = []" "opt_entry k f (Some a) = [(k, f a)]"
  by (simp_all add: opt_entry_def)

lemma consent_event_type_str_inj: "consent_event_type_str a = consent_event_type_str b \<Longrightarrow> a = b"
  by (cases a; cases b) simp_all

lemma j_of_u64_inj: "j_of_u64 a = j_of_u64 b \<Longrightarrow> a = b"
  by (simp add: j_of_u64_def)

text \<open>Reading a payload back, key by key.\<close>

fun payload_kind :: "typed_audit_event \<Rightarrow> string" where
  "payload_kind (AuditAction a) = ''action''"
| "payload_kind (AuditConsent c) = ''consent_event''"
| "payload_kind (AuditDeferral w) = ''wisdom_based_deferral''"
| "payload_kind (AuditIdentity i) = ''identity_change''"

lemma payload_kind_inj:
  assumes "payload_kind e = payload_kind e'"
  obtains (action) a b where "e = AuditAction a" "e' = AuditAction b"
    | (consent) a b where "e = AuditConsent a" "e' = AuditConsent b"
    | (deferral) a b where "e = AuditDeferral a" "e' = AuditDeferral b"
    | (identity) a b where "e = AuditIdentity a" "e' = AuditIdentity b"
  using assms by (cases e; cases e') auto

lemma jget_action:
  "jget (to_payload env (AuditAction a)) k = map_of
     ([(''kind'', JStr ''action''), (''action_type'', JStr (aa_action_type a)),
       (''thought_id'', JStr (aa_thought_id a))]
      @ opt_entry ''rationale'' JStr (aa_rationale a)
      @ [(''handler'', JStr (aa_handler a)), (''success'', JBool (aa_success a)),
         (''duration_ms'', j_of_u64 (aa_duration_ms a)),
         (''recorded_at'', JStr (ad_serde_time env (aa_recorded_at a)))]) k"
  unfolding to_payload.simps by (rule jget_jobject) (cases "aa_rationale a"; simp)

lemma jget_consent:
  "jget (to_payload env (AuditConsent c)) k = map_of
     ([(''kind'', JStr ''consent_event''), (''event_type'', JStr (consent_event_type_str (ce_event_type c))),
       (''stream_id'', JStr (ce_stream_id c))]
      @ opt_entry ''duration_days'' j_of_u32 (ce_duration_days c)
      @ [(''consent_role'', JStr (ce_consent_role c)),
         (''recorded_at'', JStr (ad_serde_time env (ce_recorded_at c)))]) k"
  unfolding to_payload.simps by (rule jget_jobject) (cases "ce_duration_days c"; simp)

lemma jget_deferral:
  "jget (to_payload env (AuditDeferral w)) k = map_of
     [(''kind'', JStr ''wisdom_based_deferral''), (''deferral_reason'', JStr (wb_deferral_reason w)),
      (''deferred_to'', JStr (wb_deferred_to w)),
      (''deferral_window_seconds'', j_of_u64 (wb_deferral_window_seconds w)),
      (''recorded_at'', JStr (ad_serde_time env (wb_recorded_at w)))] k"
  unfolding to_payload.simps by (rule jget_jobject) simp

lemma jget_identity:
  "jget (to_payload env (AuditIdentity i)) k = map_of
     [(''kind'', JStr ''identity_change''), (''field'', JStr (ic_field i)), (''old'', JStr (ic_old i)),
      (''new'', JStr (ic_new i)), (''operator_signature'', JStr (ic_operator_signature i)),
      (''recorded_at'', JStr (ad_serde_time env (ic_recorded_at i)))] k"
  unfolding to_payload.simps by (rule jget_jobject) simp

lemmas jget_payload = jget_action jget_consent jget_deferral jget_identity

lemma jget_kind: "jget (to_payload env e) ''kind'' = Some (JStr (payload_kind e))"
  by (cases e) (simp_all add: jget_payload del: to_payload.simps)

lemma map_of_opt_entry [simp]: "map_of (opt_entry k f x) k' = (if k' = k then map_option f x else None)"
  by (cases x) simp_all

lemma payload_faithful:
  assumes "inj (ad_serde_time env)" "to_payload env e = to_payload env e'"
  shows "e = e'"
proof -
  have get: "jget (to_payload env e) k = jget (to_payload env e') k" for k
    using assms(2) by simp
  have "payload_kind e = payload_kind e'" using get [of "''kind''"] by (simp add: jget_kind)
  then show ?thesis
  proof (cases rule: payload_kind_inj)
    case (action a b)
    note g = get [unfolded action jget_payload map_add_def map_of_append]
    have "aa_recorded_at a = aa_recorded_at b" using g [of "''recorded_at''"] assms(1) by (simp add: inj_eq)
    moreover have "aa_rationale a = aa_rationale b"
      using g [of "''rationale''"]
      by (simp split: option.splits)
    ultimately show ?thesis
      using g [of "''action_type''"] g [of "''thought_id''"] g [of "''handler''"] g [of "''success''"]
        g [of "''duration_ms''"]
      by (simp add: action j_of_u64_def)
  next
    case (consent a b)
    note g = get [unfolded consent jget_payload map_add_def map_of_append]
    have "ce_recorded_at a = ce_recorded_at b" using g [of "''recorded_at''"] assms(1) by (simp add: inj_eq)
    moreover have "ce_duration_days a = ce_duration_days b"
      using g [of "''duration_days''"]
      by (auto simp: j_of_u32_def split: option.splits)
    ultimately show ?thesis
      using g [of "''event_type''"] g [of "''stream_id''"] g [of "''consent_role''"]
      by (auto simp: consent dest: consent_event_type_str_inj)
  next
    case (deferral a b)
    note g = get [unfolded deferral jget_payload]
    show ?thesis
      using g [of "''recorded_at''"] g [of "''deferral_reason''"] g [of "''deferred_to''"]
        g [of "''deferral_window_seconds''"] assms(1)
      by (simp add: deferral inj_eq j_of_u64_def)
  next
    case (identity a b)
    note g = get [unfolded identity jget_payload]
    show ?thesis
      using g [of "''recorded_at''"] g [of "''field''"] g [of "''old''"] g [of "''new''"]
        g [of "''operator_signature''"] assms(1)
      by (simp add: identity inj_eq)
  qed
qed

text \<open>Setting keys of an object.\<close>

fun is_object :: "json \<Rightarrow> bool" where
  "is_object (JObj fs) = bt_inv fs"
| "is_object _ = False"

lemma is_object_jobject [simp]: "is_object (jobject kvs)"
  by (simp add: jobject_def bt_inv_of)

lemma is_object_set_key [simp]: "is_object j \<Longrightarrow> is_object (set_key k v j)"
  by (cases j) (simp_all add: bt_inv_put)

lemma jget_set_key [simp]: "is_object j \<Longrightarrow> jget (set_key k v j) k' = (if k' = k then Some (JStr v) else jget j k')"
  by (cases j) (simp_all add: bt_get_put)

lemma object_ext:
  assumes "is_object i" "is_object j" "\<And>k. jget i k = jget j k"
  shows "i = j"
proof -
  obtain xs ys where "i = JObj xs" "j = JObj ys" "bt_inv xs" "bt_inv ys"
    using assms(1,2) by (cases i; cases j; simp)
  moreover have "bt_get xs = bt_get ys" using assms(3) calculation(1,2) by (simp add: fun_eq_iff)
  ultimately show ?thesis by (simp add: bt_ext)
qed

lemma set_key_undo:
  assumes "is_object j" "jget j k = Some (JStr v)"
  shows "set_key k v (set_key k w j) = j"
  using assms by (intro object_ext) auto

lemma jget_draft:
  "jget (build_entry_draft env event tenant_id actor_id entry_id ts) k = map_of
     [(''entry_id'', JStr entry_id), (''sequence_number'', JNum (PosInt 0)), (''tenant_id'', JStr tenant_id),
      (''actor_id'', JStr actor_id), (''action_type'', JStr (action_type_str event)),
      (''subject_kind'', JStr (subject_kind event)), (''subject_id'', JStr (subject_id event)),
      (''payload'', to_payload env event), (''prev_hash'', JStr []), (''entry_hash'', JStr []),
      (''recorded_at'', JStr (ad_rfc3339 env ts)), (''signature'', JStr [])] k"
  unfolding build_entry_draft_def by (rule jget_jobject) simp

lemma draft_object [simp]: "is_object (build_entry_draft env event tenant_id actor_id entry_id ts)"
  by (simp add: build_entry_draft_def)

lemma draft_faithful:
  assumes "inj (ad_serde_time env)"
    "build_entry_draft env e t a i ts = build_entry_draft env e' t' a' i' ts'"
  shows "e = e' \<and> t = t' \<and> a = a' \<and> i = i'"
proof -
  have get: "jget (build_entry_draft env e t a i ts) k = jget (build_entry_draft env e' t' a' i' ts') k" for k
    using assms(2) by simp
  show ?thesis
    using get [of "''payload''"] get [of "''tenant_id''"] get [of "''actor_id''"] get [of "''entry_id''"]
      payload_faithful [OF assms(1)]
    by (simp add: jget_draft)
qed

text \<open>What the recording flow leaves behind.\<close>

definition answers :: "('e \<Rightarrow> (string + 'a) \<times> 'e) \<Rightarrow> 'a \<Rightarrow> bool" where
  "answers f x \<longleftrightarrow> (\<exists>h. fst (f h) = Inr x)"

definition sealed_entry ::
    "audit_env \<Rightarrow> 'e audit_engine \<Rightarrow> string \<Rightarrow> typed_audit_event \<Rightarrow> string \<Rightarrow> json \<Rightarrow> bool" where
  "sealed_entry env eng tenant_id event entry_id entry \<longleftrightarrow>
     (\<exists>actor_id hash_text hash_bytes sign_text sign_bytes sig.
        answers (ae_local_key_id eng) actor_id
        \<and> set_key ''entry_hash'' [] (set_key ''signature'' [] entry)
            = build_entry_draft env event tenant_id actor_id entry_id (recorded_at event)
        \<and> ad_to_string env (set_key ''entry_hash'' [] (set_key ''signature'' [] entry)) = Inr hash_text
        \<and> answers (ae_canonicalize_for_hash eng hash_text) hash_bytes
        \<and> jget entry ''entry_hash'' = Some (JStr (ad_base64 env (ad_sha256 env hash_bytes)))
        \<and> ad_to_string env (set_key ''signature'' [] entry) = Inr sign_text
        \<and> answers (ae_canonicalize_for_signing eng sign_text) sign_bytes
        \<and> answers (ae_local_sign eng sign_bytes) sig \<and> length sig = 64
        \<and> jget entry ''signature'' = Some (JStr (ad_base64_url env sig)))"

lemma host_call_log: "host_call name f st = (r, st') \<Longrightarrow> au_log st' = au_log st"
  by (auto simp: host_call_def split: prod.splits)

lemma host_call_answers: "host_call name f st = (Inr a, st') \<Longrightarrow> answers f a"
  by (auto simp: host_call_def answers_def map_err_eq_Inr_iff split: prod.splits intro!: exI [of _ "au_host st"])

lemma record_entry_log:
  "record_entry eng text st = (r, st') \<Longrightarrow> au_log st' = au_log st @ (if r = Inr () then [text] else [])"
  by (auto simp: record_entry_def host_call_def sbind_def split: prod.splits sum.splits)

lemma sealed_entryI:
  fixes env event tenant_id actor_id entry_id hash_bytes sig
  defines "draft \<equiv> build_entry_draft env event tenant_id actor_id entry_id (recorded_at event)"
  defines "hashed \<equiv> stamp_entry_hash env draft hash_bytes"
  assumes "answers (ae_local_key_id eng) actor_id" "ad_to_string env draft = Inr hash_text"
    "answers (ae_canonicalize_for_hash eng hash_text) hash_bytes" "ad_to_string env hashed = Inr sign_text"
    "answers (ae_canonicalize_for_signing eng sign_text) sign_bytes" "answers (ae_local_sign eng sign_bytes) sig"
    "length sig = 64"
  shows "sealed_entry env eng tenant_id event entry_id (stamp_signature env hashed sig)"
proof -
  have unsign: "set_key ''signature'' [] (stamp_signature env hashed sig) = hashed"
    unfolding stamp_signature_def hashed_def stamp_entry_hash_def draft_def
    by (rule set_key_undo) (simp_all add: jget_draft)
  moreover have unhash: "set_key ''entry_hash'' [] hashed = draft"
    unfolding hashed_def stamp_entry_hash_def draft_def by (rule set_key_undo) (simp_all add: jget_draft)
  moreover have "jget (stamp_signature env hashed sig) ''entry_hash'' = Some (JStr (ad_base64 env (ad_sha256 env hash_bytes)))"
    "jget (stamp_signature env hashed sig) ''signature'' = Some (JStr (ad_base64_url env sig))"
    by (simp_all add: stamp_signature_def hashed_def stamp_entry_hash_def draft_def)
  ultimately show ?thesis using assms(3-9) unfolding sealed_entry_def draft_def by metis
qed

lemma record_event_flow:
  assumes "record_event env (CohabitationAudit eng) tenant_id event entry_id st = (r, st')"
  shows "(r = Inr () \<longrightarrow> (\<exists>entry text. sealed_entry env eng tenant_id event entry_id entry
        \<and> ad_to_string env entry = Inr text \<and> au_log st' = au_log st @ [text]))
    \<and> (r \<noteq> Inr () \<longrightarrow> au_log st' = au_log st)"
  using assms unfolding record_event_def audit_inner.case Let_def
proof (elim sbind_cases, goal_cases)
  case (7 actor_id s1 hash_text s2 hash_bytes s3 sign_text s4 sign_bytes s5 sig s6)
  let ?entry = "stamp_signature env (stamp_entry_hash env
      (build_entry_draft env event tenant_id actor_id entry_id (recorded_at event)) hash_bytes) sig"
  have log: "au_log s6 = au_log st" using 7(1-6) by (auto dest!: host_call_log)
  have entry: "sealed_entry env eng tenant_id event entry_id ?entry" if "length sig = 64"
    using 7(1-6) that by (intro sealed_entryI) (auto dest: host_call_answers simp: map_err_eq_Inr_iff)
  show ?case
  proof (cases "length sig = 64")
    case True
    show ?thesis
    proof (cases "ad_to_string env ?entry")
      case (Inl e)
      then show ?thesis using 7(7) True log by (auto simp: sbind_def)
    next
      case (Inr out)
      then have "record_entry eng out s6 = (r, st')" using 7(7) True by (simp add: sbind_def)
      then show ?thesis using Inr entry True log record_entry_log by fastforce
    qed
  next
    case False
    then show ?thesis using 7(7) log by auto
  qed
qed (auto dest!: host_call_log simp: map_err_eq_Inl_iff)

section \<open>Properties\<close>

lemma log_event_flow:
  assumes "log_event env (CohabitationAudit eng) tenant_id event entry_id st = (r, st')"
  shows "(\<forall>x. r = Inr x \<longrightarrow> x = (entry_id, action_type_str event)
        \<and> (\<exists>entry out. sealed_entry env eng tenant_id event entry_id entry
              \<and> ad_to_string env entry = Inr out \<and> au_log st' = au_log st @ [out]))
    \<and> (\<forall>e. r = Inl e \<longrightarrow> au_log st' = au_log st)"
  using assms unfolding log_event_def
  by (elim sbind_cases) (use record_event_flow in fastforce)+

lemma sealed_entry_says:
  assumes "inj (ad_serde_time env)"
    "sealed_entry env eng tenant_id event entry_id entry" "sealed_entry env eng' tenant_id' event' entry_id' entry"
  shows "tenant_id' = tenant_id \<and> event' = event \<and> entry_id' = entry_id"
  using assms(2,3) unfolding sealed_entry_def by (metis draft_faithful [OF assms(1)])

text \<open>A revocation keeps a duration it was given, although the wire note says it has none.\<close>

lemma revoke_keeps_duration:
  "log_consent_event env debug inner tenant_id uid now ''revoke'' stream_id role (Some d) st =
     log_event env inner tenant_id (AuditConsent \<lparr>ce_event_type = ConsentRevoked, ce_stream_id = stream_id,
       ce_duration_days = Some d, ce_consent_role = role, ce_recorded_at = now\<rparr>) uid st"
  by (simp add: log_consent_event_def parse_consent_event_type_def sbind_def)

text \<open>
  C33: a recorded audit entry is bound to its event. When a log call answers, the host has
  accepted exactly one more text, that of an entry whose \<open>entry_hash\<close> is the digest of the
  host's canonical bytes of the very same entry without hash and signature, and whose
  \<open>signature\<close> is a 64-byte host signature over the canonical bytes of the entry without
  signature but with the hash. The entry determines its event, tenant and identifier. When
  a log call fails, the host's log is as before. An action without type or thought and an
  unknown consent event are refused before the host is asked anything, and so is every
  call without a host engine.
\<close>

theorem audit_entry_is_bound:
  assumes times: "inj (ad_serde_time env)"
    and run: "log_event env (CohabitationAudit eng) tenant_id event entry_id st = (r, st')"
  shows "(\<forall>x. r = Inr x \<longrightarrow> x = (entry_id, action_type_str event)
        \<and> (\<exists>entry out. sealed_entry env eng tenant_id event entry_id entry
              \<and> ad_to_string env entry = Inr out \<and> au_log st' = au_log st @ [out]))
    \<and> (\<forall>e. r = Inl e \<longrightarrow> au_log st' = au_log st)
    \<and> (\<forall>entry eng' tenant_id' event' entry_id'.
          sealed_entry env eng tenant_id event entry_id entry \<longrightarrow>
          sealed_entry env (eng' :: 'f audit_engine) tenant_id' event' entry_id' entry \<longrightarrow>
          tenant_id' = tenant_id \<and> event' = event \<and> entry_id' = entry_id)
    \<and> (action_type = [] \<or> thought_id = [] \<longrightarrow>
          (\<exists>why. log_action env inner tenant_id uid now action_type thought_id handler ok ms rationale s
             = (Inl (AuditValue why), s)))
    \<and> (event_type \<notin> {''grant'', ''revoke'', ''expire''} \<longrightarrow>
          (\<exists>why. log_consent_event env debug inner tenant_id uid now event_type stream_id role d s
             = (Inl (AuditValue why), s)))
    \<and> log_event env SovereignAudit tenant_id event entry_id s = (Inl AuditSovereignUnavailable, s)"
proof (intro conjI)
  show "\<forall>entry eng' tenant_id' event' entry_id'.
          sealed_entry env eng tenant_id event entry_id entry \<longrightarrow>
          sealed_entry env (eng' :: 'f audit_engine) tenant_id' event' entry_id' entry \<longrightarrow>
          tenant_id' = tenant_id \<and> event' = event \<and> entry_id' = entry_id"
    using sealed_entry_says [OF times] by blast
  show "action_type = [] \<or> thought_id = [] \<longrightarrow>
          (\<exists>why. log_action env inner tenant_id uid now action_type thought_id handler ok ms rationale s
             = (Inl (AuditValue why), s))"
    by (simp add: log_action_def)
  show "event_type \<notin> {''grant'', ''revoke'', ''expire''} \<longrightarrow>
          (\<exists>why. log_consent_event env debug inner tenant_id uid now event_type stream_id role d s
             = (Inl (AuditValue why), s))"
    by (simp add: log_consent_event_def parse_consent_event_type_def sbind_def)
  show "log_event env SovereignAudit tenant_id event entry_id s = (Inl AuditSovereignUnavailable, s)"
    by (simp add: log_event_def record_event_def sbind_def)
qed (use log_event_flow [OF run] in blast)+

definition sample_audit_env :: audit_env where
  "sample_audit_env = \<lparr>ad_to_string = \<lambda>j. Inr (case jget j ''signature'' of Some (JStr s) \<Rightarrow> s | _ \<Rightarrow> []),
     ad_sha256 = id, ad_base64 = map (\<lambda>b. char_of (unat b)), ad_base64_url = map (\<lambda>b. char_of (unat b)),
     ad_rfc3339 = (\<lambda>t. []), ad_serde_time = se_rfc3339 sample_env\<rparr>"

definition sample_audit_engine :: "nat audit_engine" where
  "sample_audit_engine = \<lparr>ae_local_key_id = \<lambda>n. (Inr ''pk'', n + 1),
     ae_canonicalize_for_hash = \<lambda>t n. (Inr [7], n + 1), ae_canonicalize_for_signing = \<lambda>t n. (Inr [8], n + 1),
     ae_local_sign = \<lambda>b n. (Inr (replicate 64 65), n + 1), ae_record_entry = \<lambda>t n. (Inr (), n + 1)\<rparr>"

definition sample_change :: typed_audit_event where
  "sample_change = AuditIdentity \<lparr>ic_field = ''agent_role'', ic_old = ''datum'', ic_new = ''ally'',
     ic_operator_signature = [], ic_recorded_at = 5\<rparr>"

lemma audit_entry_is_bound_witness:
  "\<exists>entry. sealed_entry sample_audit_env sample_audit_engine ''tnt'' sample_change ''e1'' entry
     \<and> ad_to_string sample_audit_env entry = Inr (replicate 64 CHR ''A'')
     \<and> (\<nexists>e. sealed_entry sample_audit_env sample_audit_engine ''tnt'' (AuditIdentity e) ''e2'' entry)"
proof -
  have times: "inj (ad_serde_time sample_audit_env)"
    by (auto simp: sample_audit_env_def sample_env_def intro!: injI dest!: inj_show_nat split: if_splits)
  define st where "st = \<lparr>au_host = (0 :: nat), au_log = []\<rparr>"
  have run: "log_event sample_audit_env (CohabitationAudit sample_audit_engine) ''tnt'' sample_change ''e1'' st
      = (Inr (''e1'', ''identity_change''), \<lparr>au_host = 5, au_log = [replicate 64 CHR ''A'']\<rparr>)"
    unfolding st_def by code_simp
  note all = audit_entry_is_bound [OF times run]
  from all [THEN conjunct1] obtain entry where
    e: "sealed_entry sample_audit_env sample_audit_engine ''tnt'' sample_change ''e1'' entry"
    "ad_to_string sample_audit_env entry = Inr (replicate 64 CHR ''A'')"
    by (auto simp: st_def)
  moreover have "\<not> sealed_entry sample_audit_env sample_audit_engine ''tnt'' (AuditIdentity x) ''e2'' entry" for x
    using all [THEN conjunct2, THEN conjunct2, THEN conjunct1] e(1) by fastforce
  ultimately show ?thesis by blast
qed

end
