(* ===== verification/Federation.thy ===== *)
theory Federation
  imports Signing
begin

text \<open>
  What a lens exchanges with its peers: the signed batch envelope (\<open>src/src/wire\<close>), the
  state publication and the enrollment check (\<open>canonical\<close>), the capacity attestation
  (\<open>capacity/attestation.rs\<close>) and the relay handler (\<open>role/handler.rs\<close>). The envelope type,
  its JSON form, the canonicalizer, the community directory and the persisting engine belong
  to other crates: parameters, which may fail.
\<close>

section \<open>Signed envelopes\<close>

datatype canonical_error = WireSerialize string | WireCanonicalizer string

record 'v wire_env =
  wi_to_value :: "'v \<Rightarrow> string + json"
  wi_canonicalize :: "json \<Rightarrow> string + bytes"

definition wire_canonical_bytes :: "'v wire_env \<Rightarrow> 'v \<Rightarrow> canonical_error + bytes" where
  "wire_canonical_bytes env e =
     rbind (map_err WireSerialize (wi_to_value env e)) (\<lambda>v. map_err WireCanonicalizer (wi_canonicalize env v))"

datatype wire_sign_error =
    WireCanonicalize canonical_error
  | WireSigner string
  | WireSignatureShape string nat nat

record signed_envelope =
  sg_canonical_bytes :: bytes
  sg_ed25519_sig :: bytes
  sg_ml_dsa_65_sig :: "bytes option"
  sg_signing_key_id :: string

definition sign_ed25519 :: "'v wire_env \<Rightarrow> hybrid_signer \<Rightarrow> 'v \<Rightarrow> wire_sign_error + signed_envelope" where
  "sign_ed25519 env signer e =
     rbind (map_err WireCanonicalize (wire_canonical_bytes env e)) (\<lambda>canonical.
     rbind (map_err WireSigner (hs_ed25519 signer canonical)) (\<lambda>ed.
     if length ed \<noteq> 64 then Inl (WireSignatureShape ''ed25519_sig'' (length ed) 64)
     else Inr \<lparr>sg_canonical_bytes = canonical, sg_ed25519_sig = ed, sg_ml_dsa_65_sig = None,
               sg_signing_key_id = hs_key_id signer\<rparr>))"

definition sign_hybrid :: "'v wire_env \<Rightarrow> hybrid_signer \<Rightarrow> 'v \<Rightarrow> wire_sign_error + signed_envelope" where
  "sign_hybrid env signer e =
     rbind (map_err WireCanonicalize (wire_canonical_bytes env e)) (\<lambda>canonical.
     rbind (map_err WireSigner (hs_ed25519 signer canonical)) (\<lambda>ed.
     if length ed \<noteq> 64 then Inl (WireSignatureShape ''ed25519_sig'' (length ed) 64)
     else
       rbind (map_err WireSigner (hs_ml_dsa_65 signer (canonical @ ed))) (\<lambda>ml.
       if length ml \<noteq> 3309 then Inl (WireSignatureShape ''ml_dsa_65_sig'' (length ml) 3309)
       else Inr \<lparr>sg_canonical_bytes = canonical, sg_ed25519_sig = ed, sg_ml_dsa_65_sig = Some ml,
                 sg_signing_key_id = hs_key_id signer\<rparr>)))"

section \<open>Publications\<close>

record detection_attestation =
  da_detection_id :: string
  da_trace_id :: string
  da_detector :: string
  da_severity :: string
  da_cohort_scope :: string
  da_ts :: string
  da_canonical_bytes_sha256 :: string

record lens_state_publication =
  lp_publisher_key_id :: string
  lp_detection_attestations :: "detection_attestation list"
  lp_lens_core_version :: string

definition attestation_of :: "signing_env \<Rightarrow> detection_event \<Rightarrow> string \<Rightarrow> detection_attestation" where
  "attestation_of env e scope =
     \<lparr>da_detection_id = detection_id e, da_trace_id = ev_trace_id e, da_detector = detector e,
      da_severity = se_severity env (ev_severity e), da_cohort_scope = scope,
      da_ts = se_rfc3339 env (ev_ts e),
      da_canonical_bytes_sha256 = se_hex env (se_sha256 env (ev_canonical_bytes e))\<rparr>"

definition build_state_publication ::
    "signing_env \<Rightarrow> (string \<Rightarrow> bool) \<Rightarrow> string \<Rightarrow> (detection_event \<times> string) list \<Rightarrow> string \<Rightarrow> lens_state_publication" where
  "build_state_publication env suppressed publisher events version =
     \<lparr>lp_publisher_key_id = publisher,
      lp_detection_attestations =
        map (\<lambda>(e, scope). attestation_of env e scope) (filter (\<lambda>(e, scope). \<not> suppressed scope) events),
      lp_lens_core_version = version\<rparr>"

section \<open>Enrollment and attestation\<close>

definition canonical_community_key_id :: string where
  "canonical_community_key_id = ''ciris-canonical''"

datatype enrollment_error = EnrollDirectory string | NotYetMember string

text \<open>The directory answers with the member keys of a community it knows.\<close>

definition is_enrolled ::
    "(string \<Rightarrow> string + string list option) \<Rightarrow> string \<Rightarrow> enrollment_error + bool" where
  "is_enrolled lookup_community local_key_id =
     rbind (map_err EnrollDirectory (lookup_community canonical_community_key_id)) (\<lambda>community.
       case community of
         None \<Rightarrow> Inr False
       | Some members \<Rightarrow>
           if list_ex (\<lambda>m. m = local_key_id) members then Inr True else Inl (NotYetMember local_key_id))"

record capacity_attestation =
  cp_attesting_key_id :: string
  cp_attested_key_id :: string

datatype anti_goodhart_violation = SelfAttestation string

definition capacity_attestation_new :: "string \<Rightarrow> string \<Rightarrow> anti_goodhart_violation + capacity_attestation" where
  "capacity_attestation_new attesting attested =
     (if attesting = attested then Inl (SelfAttestation attesting)
      else Inr \<lparr>cp_attesting_key_id = attesting, cp_attested_key_id = attested\<rparr>)"

text \<open>The derived reader of the two fields is the parameter \<open>shadow\<close>, the error text \<open>show\<close>.\<close>

definition capacity_attestation_deserialize ::
    "('d \<Rightarrow> string + string \<times> string) \<Rightarrow> (anti_goodhart_violation \<Rightarrow> string) \<Rightarrow> 'd \<Rightarrow> string + capacity_attestation" where
  "capacity_attestation_deserialize shadow show_error d =
     rbind (shadow d) (\<lambda>(attesting, attested). map_err show_error (capacity_attestation_new attesting attested))"

section \<open>Relay handler\<close>

record batch_summary =
  bs_trace_events_inserted :: nat
  bs_trace_llm_calls_inserted :: nat
  bs_trace_events_conflicted :: nat

record accord_events_response =
  ar_trace_events_inserted :: u32
  ar_trace_llm_calls_inserted :: u32
  ar_deduplicated :: u32

datatype handler_error = SchemaInvalid string | HandlerPersist string

definition relay_handle ::
    "('v \<Rightarrow> string + bytes) \<Rightarrow> (bytes \<Rightarrow> string + batch_summary) \<Rightarrow> 'v \<Rightarrow> handler_error + accord_events_response" where
  "relay_handle to_vec receive_and_persist msg =
     rbind (map_err (\<lambda>e. SchemaInvalid (''re-serialize AccordEventsBatch: '' @ e)) (to_vec msg)) (\<lambda>bytes.
     rbind (map_err HandlerPersist (receive_and_persist bytes)) (\<lambda>summary.
     Inr \<lparr>ar_trace_events_inserted = of_nat (bs_trace_events_inserted summary),
          ar_trace_llm_calls_inserted = of_nat (bs_trace_llm_calls_inserted summary),
          ar_deduplicated = of_nat (bs_trace_events_conflicted summary)\<rparr>))"

section \<open>Facts\<close>

lemma sign_ed25519_iff:
  "sign_ed25519 env signer e = Inr s \<longleftrightarrow>
     (\<exists>c ed. wire_canonical_bytes env e = Inr c \<and> hs_ed25519 signer c = Inr ed \<and> length ed = 64
        \<and> s = \<lparr>sg_canonical_bytes = c, sg_ed25519_sig = ed, sg_ml_dsa_65_sig = None,
               sg_signing_key_id = hs_key_id signer\<rparr>)"
  by (auto simp: sign_ed25519_def rbind_eq_Inr_iff map_err_eq_Inr_iff)

lemma sign_hybrid_iff:
  "sign_hybrid env signer e = Inr s \<longleftrightarrow>
     (\<exists>c ed ml. wire_canonical_bytes env e = Inr c \<and> hs_ed25519 signer c = Inr ed \<and> length ed = 64
        \<and> hs_ml_dsa_65 signer (c @ ed) = Inr ml \<and> length ml = 3309
        \<and> s = \<lparr>sg_canonical_bytes = c, sg_ed25519_sig = ed, sg_ml_dsa_65_sig = Some ml,
               sg_signing_key_id = hs_key_id signer\<rparr>)"
  by (auto simp: sign_hybrid_def rbind_eq_Inr_iff map_err_eq_Inr_iff)

lemma capacity_attestation_new_iff:
  "capacity_attestation_new a b = Inr c \<longleftrightarrow> a \<noteq> b \<and> cp_attesting_key_id c = a \<and> cp_attested_key_id c = b"
  by (cases c) (auto simp: capacity_attestation_new_def)

text \<open>No attestation is about its issuer, neither a built one nor one that was read.\<close>

lemma no_self_attestation:
  "capacity_attestation_new a b = Inr c \<Longrightarrow> cp_attesting_key_id c \<noteq> cp_attested_key_id c"
  "capacity_attestation_deserialize shadow show_error d = Inr c \<Longrightarrow> cp_attesting_key_id c \<noteq> cp_attested_key_id c"
  by (auto simp: capacity_attestation_new_iff capacity_attestation_deserialize_def rbind_eq_Inr_iff
      map_err_eq_Inr_iff)

lemma is_enrolled_iff:
  "is_enrolled lookup_community key = Inr True \<longleftrightarrow>
     (\<exists>ms. lookup_community ''ciris-canonical'' = Inr (Some ms) \<and> key \<in> set ms)"
  "is_enrolled lookup_community key = Inr False \<longleftrightarrow> lookup_community ''ciris-canonical'' = Inr None"
  by (auto simp: is_enrolled_def canonical_community_key_id_def rbind_eq_Inr_iff map_err_eq_Inr_iff list_ex_iff
      split: option.splits if_splits)

text \<open>The acknowledged counts are exact up to 32 bits and wrap beyond.\<close>

lemma relay_counts:
  assumes "to_vec msg = Inr bytes" "receive bytes = Inr summary"
  shows "\<exists>r. relay_handle to_vec receive msg = Inr r
     \<and> unat (ar_trace_events_inserted r) = bs_trace_events_inserted summary mod 2 ^ 32
     \<and> unat (ar_trace_llm_calls_inserted r) = bs_trace_llm_calls_inserted summary mod 2 ^ 32
     \<and> unat (ar_deduplicated r) = bs_trace_events_conflicted summary mod 2 ^ 32"
  using assms by (simp add: relay_handle_def unat_of_nat)

section \<open>Properties\<close>

text \<open>What the code relies on: the signer's signatures verify, and no step before them loses anything.\<close>

definition signs_for :: "hybrid_signer \<Rightarrow> (bytes \<Rightarrow> bytes \<Rightarrow> bool) \<Rightarrow> (bytes \<Rightarrow> bytes \<Rightarrow> bool) \<Rightarrow> bool" where
  "signs_for signer ed_ok pqc_ok \<longleftrightarrow>
     (\<forall>m s. hs_ed25519 signer m = Inr s \<longrightarrow> ed_ok m s) \<and> (\<forall>m s. hs_ml_dsa_65 signer m = Inr s \<longrightarrow> pqc_ok m s)"

definition lossless_wire :: "'v wire_env \<Rightarrow> bool" where
  "lossless_wire env \<longleftrightarrow>
     (\<forall>x y v. wi_to_value env x = Inr v \<longrightarrow> wi_to_value env y = Inr v \<longrightarrow> x = y)
     \<and> (\<forall>x y b. wi_canonicalize env x = Inr b \<longrightarrow> wi_canonicalize env y = Inr b \<longrightarrow> x = y)"

lemma wire_canonical_bytes_inj:
  assumes "lossless_wire env" "wire_canonical_bytes env x = Inr b" "wire_canonical_bytes env y = Inr b"
  shows "x = y"
proof -
  obtain v w where "wi_to_value env x = Inr v" "wi_canonicalize env v = Inr b"
    "wi_to_value env y = Inr w" "wi_canonicalize env w = Inr b"
    using assms(2,3) by (auto simp: wire_canonical_bytes_def rbind_eq_Inr_iff map_err_eq_Inr_iff)
  moreover from this have "v = w" using assms(1) by (auto simp: lossless_wire_def)
  ultimately show ?thesis using assms(1) by (auto simp: lossless_wire_def)
qed

text \<open>
  C34: what a signed envelope carries. A hybrid signature passes the federation's check: the
  Ed25519 signature over the canonical bytes and the post-quantum one over these bytes
  followed by the Ed25519 signature, both of their fixed length, under the signer's key. The
  single-signature form agrees with it in everything but the missing post-quantum part.
  The message under the post-quantum signature determines both its halves, hence, with a
  canonicalizer and a serializer that lose nothing, the envelope: neither part can be moved
  to another envelope.
\<close>

theorem hybrid_envelope_verifies:
  assumes signer: "signs_for signer ed_ok pqc_ok" and faithful: "lossless_wire env"
    and signed: "sign_hybrid env signer e = Inr s"
  shows "ed_ok (sg_canonical_bytes s) (sg_ed25519_sig s)
    \<and> (\<exists>ml. sg_ml_dsa_65_sig s = Some ml \<and> pqc_ok (sg_canonical_bytes s @ sg_ed25519_sig s) ml \<and> length ml = 3309)
    \<and> length (sg_ed25519_sig s) = 64 \<and> sg_signing_key_id s = hs_key_id signer
    \<and> sign_ed25519 env signer e = Inr (s\<lparr>sg_ml_dsa_65_sig := None\<rparr>)
    \<and> (\<forall>signer' e' s'. sign_hybrid env signer' e' = Inr s' \<longrightarrow>
         sg_canonical_bytes s' @ sg_ed25519_sig s' = sg_canonical_bytes s @ sg_ed25519_sig s \<longrightarrow>
         e' = e \<and> sg_ed25519_sig s' = sg_ed25519_sig s)"
proof -
  obtain c ed_sig ml where s: "wire_canonical_bytes env e = Inr c" "hs_ed25519 signer c = Inr ed_sig"
    "length ed_sig = 64" "hs_ml_dsa_65 signer (c @ ed_sig) = Inr ml" "length ml = 3309"
    "s = \<lparr>sg_canonical_bytes = c, sg_ed25519_sig = ed_sig, sg_ml_dsa_65_sig = Some ml, sg_signing_key_id = hs_key_id signer\<rparr>"
    using signed by (auto simp: sign_hybrid_iff)
  have "e' = e \<and> sg_ed25519_sig s' = sg_ed25519_sig s"
    if "sign_hybrid env signer' e' = Inr s'"
      and same: "sg_canonical_bytes s' @ sg_ed25519_sig s' = sg_canonical_bytes s @ sg_ed25519_sig s" for signer' e' s'
  proof -
    from that(1) have s': "wire_canonical_bytes env e' = Inr (sg_canonical_bytes s')" "length (sg_ed25519_sig s') = 64"
      by (auto simp: sign_hybrid_iff)
    with same s(3) s(6) have "sg_canonical_bytes s' = c \<and> sg_ed25519_sig s' = ed_sig" by simp
    with s' s(1) s(6) show ?thesis by (auto dest: wire_canonical_bytes_inj [OF faithful])
  qed
  then show ?thesis using s signer by (simp add: sign_ed25519_iff signs_for_def)
qed

text \<open>
  What a publication reveals. Its attestations are, in order, those of exactly the events
  whose scope is not suppressed, so a suppressed event leaves no mark: a publication is the
  same with and without it, whatever it says. Each attestation of a signed row carries the
  event hash that the signing stage reported for it, as the key under which the row can be
  fetched.
\<close>

lemma publication_hides_private_scopes:
  assumes row: "sign_detection env signer uid now inputs = Inr (event, sm)"
  shows "(\<forall>a \<in> set (lp_detection_attestations (build_state_publication env suppressed k events v)).
        \<not> suppressed (da_cohort_scope a) \<and> (\<exists>e. (e, da_cohort_scope a) \<in> set events \<and> a = attestation_of env e (da_cohort_scope a)))
    \<and> (\<forall>as bs e scope. events = as @ (e, scope) # bs \<longrightarrow>
        (if suppressed scope
         then build_state_publication env suppressed k events v = build_state_publication env suppressed k (as @ bs) v
         else \<exists>xs ys. lp_detection_attestations (build_state_publication env suppressed k events v)
                = xs @ attestation_of env e scope # ys
              \<and> xs = lp_detection_attestations (build_state_publication env suppressed k as v)
              \<and> ys = lp_detection_attestations (build_state_publication env suppressed k bs v)))
    \<and> da_canonical_bytes_sha256 (attestation_of env event scope') = sm_event_hash sm
    \<and> da_detection_id (attestation_of env event scope') = uid
    \<and> da_trace_id (attestation_of env event scope') = in_trace_id inputs"
proof (intro conjI ballI allI impI)
  fix a assume "a \<in> set (lp_detection_attestations (build_state_publication env suppressed k events v))"
  then obtain e scope where e: "(e, scope) \<in> set events" "\<not> suppressed scope" "a = attestation_of env e scope"
    by (auto simp: build_state_publication_def)
  then have "da_cohort_scope a = scope" by (simp add: attestation_of_def)
  then show "\<not> suppressed (da_cohort_scope a)"
    "\<exists>e. (e, da_cohort_scope a) \<in> set events \<and> a = attestation_of env e (da_cohort_scope a)"
    using e by auto
next
  note states = sign_detection_states [OF row]
  show "da_canonical_bytes_sha256 (attestation_of env event scope') = sm_event_hash sm"
    "da_detection_id (attestation_of env event scope') = uid"
    "da_trace_id (attestation_of env event scope') = in_trace_id inputs"
    using states by (simp_all add: attestation_of_def event_states_def)
qed (simp add: build_state_publication_def)

definition sample_wire :: "bool wire_env" where
  "sample_wire = \<lparr>wi_to_value = \<lambda>b. Inr (JBool b),
     wi_canonicalize = \<lambda>v. (case v of JBool b \<Rightarrow> Inr [if b then 1 else 0] | _ \<Rightarrow> Inl [])\<rparr>"

lemma hybrid_envelope_verifies_witness:
  "\<exists>s. sign_hybrid sample_wire (sample_signer 1) True = Inr s \<and> sg_ed25519_sig s = replicate 64 1
     \<and> sign_ed25519 sample_wire (sample_signer 1) True = Inr (s\<lparr>sg_ml_dsa_65_sig := None\<rparr>)
     \<and> (\<nexists>s'. sign_hybrid sample_wire (sample_signer 2) False = Inr s'
            \<and> sg_canonical_bytes s' @ sg_ed25519_sig s' = sg_canonical_bytes s @ sg_ed25519_sig s)"
proof -
  obtain s where run: "sign_hybrid sample_wire (sample_signer 1) True = Inr s" "sg_ed25519_sig s = replicate 64 1"
    by (simp add: sign_hybrid_iff wire_canonical_bytes_def sample_wire_def sample_signer_def)
  have "signs_for (sample_signer 1) (\<lambda>m s. s = replicate 64 1) (\<lambda>m s. length s = 3309)"
    by (auto simp: signs_for_def sample_signer_def)
  moreover have "lossless_wire sample_wire"
    by (auto simp: lossless_wire_def sample_wire_def split: json.splits if_splits)
  ultimately have all: "sign_ed25519 sample_wire (sample_signer 1) True = Inr (s\<lparr>sg_ml_dsa_65_sig := None\<rparr>)
    \<and> (\<forall>signer' e' s'. sign_hybrid sample_wire signer' e' = Inr s' \<longrightarrow>
         sg_canonical_bytes s' @ sg_ed25519_sig s' = sg_canonical_bytes s @ sg_ed25519_sig s \<longrightarrow>
         e' = True \<and> sg_ed25519_sig s' = sg_ed25519_sig s)"
    using hybrid_envelope_verifies [OF _ _ run(1)] by blast
  from all have "sign_ed25519 sample_wire (sample_signer 1) True = Inr (s\<lparr>sg_ml_dsa_65_sig := None\<rparr>)" by blast
  moreover from all have "\<nexists>s'. sign_hybrid sample_wire (sample_signer 2) False = Inr s'
            \<and> sg_canonical_bytes s' @ sg_ed25519_sig s' = sg_canonical_bytes s @ sg_ed25519_sig s" by blast
  ultimately show ?thesis using run by blast
qed

lemma publication_hides_private_scopes_witness:
  "\<exists>env event sm. sign_detection env (sample_signer 1) ''u'' 5 sample_inputs = Inr (event, sm)
     \<and> da_canonical_bytes_sha256 (attestation_of env event ''community'') = sm_event_hash sm
     \<and> build_state_publication env (\<lambda>s. s = ''self'') ''k'' [(event, ''self''), (event, ''community'')] ''0.5''
         = build_state_publication env (\<lambda>s. s = ''self'') ''k'' [(event, ''community'')] ''0.5''"
proof -
  define env where "env = sample_env\<lparr>se_canonicalize := \<lambda>v. Inr [1]\<rparr>"
  obtain event sm where run: "sign_detection env (sample_signer 1) ''u'' 5 sample_inputs = Inr (event, sm)"
    by (simp add: sign_detection_def prepare_detection_def assemble_event_def sample_signer_def)
      (simp add: env_def sample_inputs_def)
  let ?events = "[(event, ''self''), (event, ''community'')]"
  note all = publication_hides_private_scopes [where suppressed = "\<lambda>s. s = ''self''" and k = "''k''" and v = "''0.5''"
      and events = ?events and scope' = "''community''", OF run]
  have "build_state_publication env (\<lambda>s. s = ''self'') ''k'' ([] @ (event, ''self'') # [(event, ''community'')]) ''0.5''
      = build_state_publication env (\<lambda>s. s = ''self'') ''k'' ([] @ [(event, ''community'')]) ''0.5''"
    using all [THEN conjunct2, THEN conjunct1, rule_format, of "[]" event "''self''"] by simp
  moreover note all [THEN conjunct2, THEN conjunct2, THEN conjunct1]
  ultimately show ?thesis using run by (intro exI conjI) simp_all
qed

end
