(* ===== verification/MetadataExtraction.thy ===== *)
theory MetadataExtraction
  imports Json
begin

text \<open>
  Metadata extraction, \<open>src/patterns_from_cirislens_core/extraction\<close>: resolution of dotted
  JSON paths and conversion of the values found (\<open>json_path.rs\<close>), and the extraction of the
  database columns of a trace by the rules of its schema (\<open>metadata.rs\<close>). The schema cache
  belongs to a module that is not part of the repository: it is the parameter \<open>schema_cache\<close>,
  with the fields of its rules that are not only logged.
  The printing of JSON and of floats and the reading of floats are the fields of
  \<open>extract_env\<close>. \<open>to_lowercase\<close> is modelled on ASCII: no other character has a lower-case form
  that consists of letters of the six words it is compared with. Log lines are left out.
\<close>

section \<open>Strings of the standard library\<close>

text \<open>\<open>str::split('.')\<close>.\<close>

fun split_dots :: "string \<Rightarrow> string list" where
  "split_dots [] = [[]]"
| "split_dots (c # s) =
     (if c = CHR ''.'' then [] # split_dots s
      else (case split_dots s of [] \<Rightarrow> [[c]] | p # ps \<Rightarrow> (c # p) # ps))"

text \<open>\<open>str::parse::<usize>\<close> on a 64-bit target and \<open>str::parse::<i64>\<close>.\<close>

fun strip_plus :: "string \<Rightarrow> string" where
  "strip_plus (CHR ''+'' # s) = s"
| "strip_plus s = s"

definition parse_usize :: "string \<Rightarrow> nat option" where
  "parse_usize s =
     (let ds = strip_plus s
      in if ds \<noteq> [] \<and> list_all is_digit ds \<and> read_nat ds < 2 ^ 64 then Some (read_nat ds) else None)"

definition parse_i64 :: "string \<Rightarrow> i64 option" where
  "parse_i64 s = map_option word_of_int (parse_int 64 s)"

definition show_i64 :: "i64 \<Rightarrow> string" where
  "show_i64 i = show_int (sint i)"

definition show_bool :: "bool \<Rightarrow> string" where
  "show_bool b = (if b then ''true'' else ''false'')"

section \<open>Paths and conversions\<close>

definition resolve_step :: "json \<Rightarrow> string \<Rightarrow> json option" where
  "resolve_step current part =
     (case current of
        JObj fs \<Rightarrow> bt_get fs part
      | JArr xs \<Rightarrow> (case parse_usize part of
            None \<Rightarrow> None
          | Some i \<Rightarrow> if i < length xs then Some (xs ! i) else None)
      | _ \<Rightarrow> None)"

primrec resolve_parts :: "json \<Rightarrow> string list \<Rightarrow> json option" where
  "resolve_parts current [] = Some current"
| "resolve_parts current (p # ps) =
     (case resolve_step current p of None \<Rightarrow> None | Some v \<Rightarrow> resolve_parts v ps)"

definition resolve_json_path :: "json \<Rightarrow> string \<Rightarrow> json option" where
  "resolve_json_path data path = (if path = [] then Some data else resolve_parts data (split_dots path))"

record extract_env =
  xe_show_json :: "json \<Rightarrow> string"
  xe_show_f64 :: "f64 \<Rightarrow> string"
  xe_parse_f64 :: "string \<Rightarrow> f64 option"

definition value_to_string :: "extract_env \<Rightarrow> json \<Rightarrow> string" where
  "value_to_string env v =
     (case v of
        JStr s \<Rightarrow> s
      | JBool b \<Rightarrow> show_bool b
      | JNull \<Rightarrow> []
      | _ \<Rightarrow> xe_show_json env v)"

definition value_to_float :: "extract_env \<Rightarrow> json \<Rightarrow> f64 option" where
  "value_to_float env v =
     (case v of JNum n \<Rightarrow> as_f64 v | JStr s \<Rightarrow> xe_parse_f64 env s | _ \<Rightarrow> None)"

definition value_to_int :: "json \<Rightarrow> i64 option" where
  "value_to_int v = (case v of JNum n \<Rightarrow> as_i64 v | JStr s \<Rightarrow> parse_i64 s | _ \<Rightarrow> None)"

definition value_to_bool :: "json \<Rightarrow> bool option" where
  "value_to_bool v =
     (case v of
        JBool b \<Rightarrow> Some b
      | JStr s \<Rightarrow>
          (let l = ascii_lower s in
           if l \<in> {''true'', ''1'', ''yes''} then Some True
           else if l \<in> {''false'', ''0'', ''no''} then Some False
           else None)
      | JNum n \<Rightarrow> map_option (\<lambda>i. i \<noteq> 0) (as_i64 v)
      | _ \<Rightarrow> None)"

section \<open>Extraction\<close>

record field_rule =
  fr_json_path :: string
  fr_db_column :: string
  fr_data_type :: string

record schema_cache =
  sc_is_loaded :: bool
  sc_field_rules :: "string \<Rightarrow> string \<Rightarrow> field_rule list"

type_synonym metadata = "(string, string) hmap"

fun as_array :: "json \<Rightarrow> json list option" where
  "as_array (JArr xs) = Some xs"
| "as_array _ = None"

definition get_as :: "(json \<Rightarrow> 'a option) \<Rightarrow> json \<Rightarrow> string \<Rightarrow> 'a option" where
  "get_as f j k = Option.bind (jget j k) f"

definition convert_value :: "extract_env \<Rightarrow> json \<Rightarrow> string \<Rightarrow> string" where
  "convert_value env v data_type =
     (if data_type = ''float'' then (case value_to_float env v of None \<Rightarrow> [] | Some f \<Rightarrow> xe_show_f64 env f)
      else if data_type = ''int'' then (case value_to_int v of None \<Rightarrow> [] | Some i \<Rightarrow> show_i64 i)
      else if data_type = ''boolean'' then (case value_to_bool v of None \<Rightarrow> [] | Some b \<Rightarrow> show_bool b)
      else if data_type = ''json'' then xe_show_json env v
      else value_to_string env v)"

text \<open>Store under a column what was found, or leave the metadata as they are.\<close>

definition put_opt :: "string \<Rightarrow> string option \<Rightarrow> metadata \<Rightarrow> metadata" where
  "put_opt k x md = (case x of None \<Rightarrow> md | Some v \<Rightarrow> hm_put k v md)"

definition first_some :: "'a option list \<Rightarrow> 'a option" where
  "first_some xs = (case filter (\<lambda>x. x \<noteq> None) xs of [] \<Rightarrow> None | x # _ \<Rightarrow> x)"

definition count_of :: "json \<Rightarrow> string \<Rightarrow> string option" where
  "count_of data k = map_option (\<lambda>xs. show_nat (length xs)) (get_as as_array data k)"

definition conscience_keys :: "string list" where
  "conscience_keys = [''entropy_passed'', ''coherence_passed'', ''optimization_veto_passed'',
     ''epistemic_humility_passed'', ''integrity_check_passed'']"

definition context_tokens :: "json \<Rightarrow> string option" where
  "context_tokens data =
     first_some [map_option show_i64 (get_as as_i64 data ''context_tokens''),
                 map_option show_i64 (get_as as_i64 data ''total_tokens''),
                 map_option (\<lambda>c. show_nat (length c div 4)) (get_as as_str data ''gathered_context'')]"

definition conscience_checks :: "json \<Rightarrow> string option" where
  "conscience_checks data =
     first_some [count_of data ''checks'', count_of data ''ethical_checks'', count_of data ''check_results'',
       (let n = length (filter (\<lambda>k. jget data k \<noteq> None) conscience_keys)
        in if 0 < n then Some (show_nat n) else None)]"

definition extract_observation_weight :: "string \<Rightarrow> json \<Rightarrow> metadata \<Rightarrow> metadata" where
  "extract_observation_weight event_type data md =
     (if event_type = ''SNAPSHOT_AND_CONTEXT'' then
        put_opt ''conversation_turns'' (count_of data ''conversation_history'')
          (put_opt ''context_tokens'' (context_tokens data)
            (put_opt ''memory_count'' (count_of data ''relevant_memories'') md))
      else if event_type = ''ASPDMA_RESULT'' then
        put_opt ''alternatives_considered''
          (first_some [count_of data ''action_options'', count_of data ''evaluated_actions'', count_of data ''alternatives'']) md
      else if event_type = ''CONSCIENCE_RESULT'' then
        put_opt ''conscience_checks_count'' (conscience_checks data) md
      else md)"

definition full_component_key :: "string \<Rightarrow> string option" where
  "full_component_key event_type = map_of
     [(''DMA_RESULTS'', ''dma_results''), (''ASPDMA_RESULT'', ''aspdma_result''), (''IDMA_RESULT'', ''idma_result''),
      (''TSASPDMA_RESULT'', ''tsaspdma_result''), (''CONSCIENCE_RESULT'', ''conscience_result''),
      (''ACTION_RESULT'', ''action_result'')] event_type"

definition store_full_component :: "extract_env \<Rightarrow> string \<Rightarrow> json \<Rightarrow> metadata \<Rightarrow> metadata" where
  "store_full_component env event_type data md =
     (case full_component_key event_type of
        None \<Rightarrow> md
      | Some k \<Rightarrow> if hm_get md k = None then hm_put k (xe_show_json env data) md else md)"

definition timestamp_key :: "string \<Rightarrow> string option" where
  "timestamp_key event_type = map_of
     [(''THOUGHT_START'', ''thought_start_at''), (''SNAPSHOT_AND_CONTEXT'', ''snapshot_at''),
      (''DMA_RESULTS'', ''dma_results_at''), (''ASPDMA_RESULT'', ''aspdma_at''), (''IDMA_RESULT'', ''idma_at''),
      (''TSASPDMA_RESULT'', ''tsaspdma_at''), (''CONSCIENCE_RESULT'', ''conscience_at''),
      (''ACTION_RESULT'', ''action_result_at'')] event_type"

definition event_type_of :: "json \<Rightarrow> string" where
  "event_type_of c = (case get_as as_str c ''event_type'' of None \<Rightarrow> ''unknown'' | Some e \<Rightarrow> e)"

definition component_data :: "json \<Rightarrow> json" where
  "component_data c = (case jget c ''data'' of None \<Rightarrow> c | Some d \<Rightarrow> d)"

definition apply_rule :: "extract_env \<Rightarrow> json \<Rightarrow> field_rule \<Rightarrow> metadata \<Rightarrow> metadata" where
  "apply_rule env data rule md =
     put_opt (fr_db_column rule)
       (map_option (\<lambda>v. convert_value env v (fr_data_type rule)) (resolve_json_path data (fr_json_path rule))) md"

definition extract_component ::
    "extract_env \<Rightarrow> schema_cache \<Rightarrow> string \<Rightarrow> json \<Rightarrow> metadata \<Rightarrow> metadata" where
  "extract_component env cache schema_version component md =
     (let event_type = event_type_of component;
          data = component_data component;
          md1 = (case get_as as_str component ''timestamp'' of
                   None \<Rightarrow> md
                 | Some ts \<Rightarrow> (case timestamp_key event_type of None \<Rightarrow> md | Some k \<Rightarrow> hm_put k ts md));
          md2 = extract_observation_weight event_type data md1;
          md3 = fold (apply_rule env data) (sc_field_rules cache schema_version event_type) md2
      in store_full_component env event_type data md3)"

definition components_of :: "json \<Rightarrow> json list" where
  "components_of trace = (case get_as as_array trace ''components'' of None \<Rightarrow> [] | Some cs \<Rightarrow> cs)"

definition extract_trace_metadata :: "extract_env \<Rightarrow> schema_cache \<Rightarrow> json \<Rightarrow> string \<Rightarrow> metadata" where
  "extract_trace_metadata env cache trace schema_version =
     (if \<not> sc_is_loaded cache then []
      else fold (extract_component env cache schema_version) (components_of trace)
             (put_opt ''trace_id'' (get_as as_str trace ''trace_id'') []))"

definition extract_models_used :: "json \<Rightarrow> string list" where
  "extract_models_used trace =
     concat (List.map_filter (\<lambda>c.
       map_option (List.map_filter as_str)
         (Option.bind (jget c ''data'') (\<lambda>d. get_as as_array d ''models_used''))) (components_of trace))"

section \<open>Facts\<close>

text \<open>Paths compose: a longer path resolves its parts one after the other.\<close>

lemma split_dots_not_Nil [simp]: "split_dots s \<noteq> []"
  by (induction s) (auto split: list.splits)

lemma split_dots_append: "split_dots (p @ CHR ''.'' # q) = split_dots p @ split_dots q"
  by (induction p) (auto split: list.splits)

lemma split_dots_plain: "CHR ''.'' \<notin> set p \<Longrightarrow> split_dots p = [p]"
  by (induction p) auto

lemma resolve_parts_append:
  "resolve_parts data (ps @ qs) = Option.bind (resolve_parts data ps) (\<lambda>v. resolve_parts v qs)"
  by (induction ps arbitrary: data) (simp_all split: option.splits)

lemma resolve_path_compose:
  "p \<noteq> [] \<Longrightarrow> q \<noteq> [] \<Longrightarrow>
   resolve_json_path data (p @ CHR ''.'' # q) = Option.bind (resolve_json_path data p) (\<lambda>v. resolve_json_path v q)"
  by (simp add: resolve_json_path_def split_dots_append resolve_parts_append)

lemma resolve_path_key:
  "p \<noteq> [] \<Longrightarrow> CHR ''.'' \<notin> set p \<Longrightarrow> resolve_json_path (JObj fs) p = bt_get fs p"
  by (simp add: resolve_json_path_def split_dots_plain resolve_step_def split: option.splits)

text \<open>An integer column reads back as the integer.\<close>

lemma int_column_roundtrip: "value_to_int (JStr (show_i64 i)) = Some i"
  using parse_show_int [of 64 "sint i"] sint_ge [of i] sint_lt [of i]
  by (simp add: value_to_int_def show_i64_def parse_i64_def)

text \<open>The writes of a component, in order, before its full text is stored.\<close>

definition opt_write :: "string \<Rightarrow> string option \<Rightarrow> (string \<times> string) list" where
  "opt_write k x = (case x of None \<Rightarrow> [] | Some v \<Rightarrow> [(k, v)])"

definition timestamp_writes :: "json \<Rightarrow> (string \<times> string) list" where
  "timestamp_writes c =
     (case timestamp_key (event_type_of c) of None \<Rightarrow> [] | Some k \<Rightarrow> opt_write k (get_as as_str c ''timestamp''))"

definition weight_writes :: "string \<Rightarrow> json \<Rightarrow> (string \<times> string) list" where
  "weight_writes e data =
     (if e = ''SNAPSHOT_AND_CONTEXT'' then
        opt_write ''memory_count'' (count_of data ''relevant_memories'') @ opt_write ''context_tokens'' (context_tokens data)
        @ opt_write ''conversation_turns'' (count_of data ''conversation_history'')
      else if e = ''ASPDMA_RESULT'' then opt_write ''alternatives_considered''
          (first_some [count_of data ''action_options'', count_of data ''evaluated_actions'', count_of data ''alternatives''])
      else if e = ''CONSCIENCE_RESULT'' then opt_write ''conscience_checks_count'' (conscience_checks data)
      else [])"

definition rule_writes :: "extract_env \<Rightarrow> json \<Rightarrow> field_rule list \<Rightarrow> (string \<times> string) list" where
  "rule_writes env data rules = concat (map (\<lambda>r. opt_write (fr_db_column r)
     (map_option (\<lambda>v. convert_value env v (fr_data_type r)) (resolve_json_path data (fr_json_path r)))) rules)"

definition component_writes :: "extract_env \<Rightarrow> schema_cache \<Rightarrow> string \<Rightarrow> json \<Rightarrow> (string \<times> string) list" where
  "component_writes env cache sv c =
     timestamp_writes c @ weight_writes (event_type_of c) (component_data c)
     @ rule_writes env (component_data c) (sc_field_rules cache sv (event_type_of c))"

abbreviation written :: "metadata \<Rightarrow> (string \<times> string) list \<Rightarrow> metadata \<Rightarrow> bool" where
  "written md ws md' \<equiv> hm_inv md' \<and> hm_get md' = hm_get md ++ map_of (rev ws)"

lemma written_append: "written md ws md1 \<Longrightarrow> written md1 ws' md2 \<Longrightarrow> written md (ws @ ws') md2"
  by simp

lemma written_put_opt: "hm_inv md \<Longrightarrow> written md (opt_write k x) (put_opt k x md)"
  by (cases x) (simp_all add: put_opt_def opt_write_def hm.inv_put hm.get_put)

lemma written_timestamp:
  "hm_inv md \<Longrightarrow> written md (timestamp_writes c)
     (case get_as as_str c ''timestamp'' of
        None \<Rightarrow> md
      | Some ts \<Rightarrow> (case timestamp_key (event_type_of c) of None \<Rightarrow> md | Some k \<Rightarrow> hm_put k ts md))"
  by (simp add: timestamp_writes_def opt_write_def hm.inv_put hm.get_put split: option.splits)

lemma written_weight:
  assumes "hm_inv md"
  shows "written md (weight_writes e data) (extract_observation_weight e data md)"
proof -
  have "written md (opt_write k x @ opt_write k' x' @ opt_write k'' x'') (put_opt k'' x'' (put_opt k' x' (put_opt k x md)))"
    for k k' k'' x x' x''
    using assms by (metis written_append written_put_opt)
  moreover have "written md (opt_write k x) (put_opt k x md)" for k x
    using assms by (rule written_put_opt)
  ultimately show ?thesis using assms
    by (simp add: extract_observation_weight_def weight_writes_def del: rev_append map_of_append)
qed

lemma written_rules: "hm_inv md \<Longrightarrow> written md (rule_writes env data rules) (fold (apply_rule env data) rules md)"
proof (induction rules arbitrary: md)
  case (Cons r rules)
  have "written md (opt_write (fr_db_column r)
      (map_option (\<lambda>v. convert_value env v (fr_data_type r)) (resolve_json_path data (fr_json_path r)))) (apply_rule env data r md)"
    using Cons.prems unfolding apply_rule_def by (rule written_put_opt)
  moreover from this have "written (apply_rule env data r md) (rule_writes env data rules)
      (fold (apply_rule env data) rules (apply_rule env data r md))"
    by (intro Cons.IH) simp
  ultimately show ?case by (simp add: rule_writes_def)
qed (simp add: rule_writes_def)

lemma extract_component_column:
  assumes "hm_inv md"
  shows "hm_inv (extract_component env cache sv c md)
    \<and> hm_get (extract_component env cache sv c md) k =
        (case map_of (rev (component_writes env cache sv c)) k of
           Some v \<Rightarrow> Some v
         | None \<Rightarrow> (case hm_get md k of
               Some v \<Rightarrow> Some v
             | None \<Rightarrow> if full_component_key (event_type_of c) = Some k
                 then Some (xe_show_json env (component_data c)) else None))"
proof -
  let ?e = "event_type_of c" and ?d = "component_data c"
  define md1 where "md1 = (case get_as as_str c ''timestamp'' of
        None \<Rightarrow> md
      | Some ts \<Rightarrow> (case timestamp_key ?e of None \<Rightarrow> md | Some k \<Rightarrow> hm_put k ts md))"
  define md2 where "md2 = extract_observation_weight ?e ?d md1"
  define md3 where "md3 = fold (apply_rule env ?d) (sc_field_rules cache sv ?e) md2"
  have w1: "written md (timestamp_writes c) md1"
    unfolding md1_def using assms by (rule written_timestamp)
  moreover have w2: "written md1 (weight_writes ?e ?d) md2"
    unfolding md2_def by (rule written_weight) (use w1 in simp)
  moreover have w3: "written md2 (rule_writes env ?d (sc_field_rules cache sv ?e)) md3"
    unfolding md3_def by (rule written_rules) (use w2 in simp)
  ultimately have w: "written md (component_writes env cache sv c) md3"
    unfolding component_writes_def by simp
  have "extract_component env cache sv c md = store_full_component env ?e ?d md3"
    by (simp add: extract_component_def Let_def md1_def md2_def md3_def)
  with w show ?thesis
    by (auto simp: store_full_component_def hm.inv_put hm.get_put map_add_def split: option.splits)
qed

lemma extract_components_column:
  "hm_inv md \<Longrightarrow> hm_inv (fold (extract_component env cache sv) cs md)
    \<and> hm_get (fold (extract_component env cache sv) cs md) k =
        (case map_of (rev (concat (map (component_writes env cache sv) cs))) k of
           Some v \<Rightarrow> Some v
         | None \<Rightarrow> (case hm_get md k of
               Some v \<Rightarrow> Some v
             | None \<Rightarrow> map_option (\<lambda>c. xe_show_json env (component_data c))
                 (find (\<lambda>c. full_component_key (event_type_of c) = Some k) cs)))"
proof (induction cs arbitrary: md)
  case (Cons c cs)
  note step = extract_component_column [OF Cons.prems, of env cache sv c]
  note rest = Cons.IH [of "extract_component env cache sv c md", OF step [THEN conjunct1]]
  show ?case using rest step [THEN conjunct2, of k]
    by (auto simp: map_add_def split: option.splits)
qed (simp split: option.split)

text \<open>What the weights of an observation write is a decimal numeral, never a text of the trace.\<close>

definition is_numeral :: "string \<Rightarrow> bool" where
  "is_numeral s \<longleftrightarrow> (\<exists>n. s = show_nat n \<or> s = CHR ''-'' # show_nat n)"

lemma is_numeral_show: "is_numeral (show_nat n)" "is_numeral (show_i64 i)"
  by (auto simp: is_numeral_def show_i64_def show_int_def)

lemma first_some_in: "first_some xs = Some x \<Longrightarrow> Some x \<in> set xs"
  by (auto simp: first_some_def split: list.splits dest!: arg_cong [where f = set])

definition numeral_opt :: "string option \<Rightarrow> bool" where
  "numeral_opt x \<longleftrightarrow> (\<forall>v. x = Some v \<longrightarrow> is_numeral v)"

lemma numeral_opt_simps [simp]: "numeral_opt None" "numeral_opt (Some v) \<longleftrightarrow> is_numeral v"
  by (simp_all add: numeral_opt_def)

lemma numeral_first_some: "list_all numeral_opt xs \<Longrightarrow> numeral_opt (first_some xs)"
  unfolding numeral_opt_def list_all_iff using first_some_in by fast

lemma numeral_map: "numeral_opt (map_option (\<lambda>x. show_nat (f x)) y)" "numeral_opt (map_option show_i64 z)"
  by (cases y; simp add: is_numeral_show) (cases z; simp add: is_numeral_show)

lemma numeral_weights:
  "numeral_opt (count_of data k)" "numeral_opt (context_tokens data)" "numeral_opt (conscience_checks data)"
  by (auto simp: count_of_def context_tokens_def conscience_checks_def Let_def numeral_map is_numeral_show
      intro!: numeral_first_some)

lemma weights_are_numerals: "(k, v) \<in> set (weight_writes e data) \<Longrightarrow> is_numeral v"
proof -
  have opt: "(k, v) \<in> set (opt_write k' x) \<longleftrightarrow> k = k' \<and> x = Some v" for k' x
    by (auto simp: opt_write_def split: option.splits)
  have alternatives: "numeral_opt (first_some [count_of data a, count_of data b, count_of data c])" for a b c
    by (rule numeral_first_some) (simp add: numeral_weights)
  note found = numeral_weights [unfolded numeral_opt_def, rule_format] alternatives [unfolded numeral_opt_def, rule_format]
  show "(k, v) \<in> set (weight_writes e data) \<Longrightarrow> ?thesis"
    by (auto simp: weight_writes_def opt split: if_splits dest: found)
qed

text \<open>All writes of a trace.\<close>

definition trace_writes :: "extract_env \<Rightarrow> schema_cache \<Rightarrow> string \<Rightarrow> json \<Rightarrow> (string \<times> string) list" where
  "trace_writes env cache sv trace =
     opt_write ''trace_id'' (get_as as_str trace ''trace_id'')
     @ concat (map (component_writes env cache sv) (components_of trace))"

section \<open>Properties\<close>

text \<open>
  C35: which text a column ends up with. With a loaded schema, a column holds what the last
  write to it among the trace identifier and the components in order put there: the event's
  timestamp, the weights, which are decimal numerals, and the values the rules find. Only a
  column that none of them wrote, in the whole trace, holds the full text of a component,
  and then of the first one of its type. Nothing else is in the map, whose keys are
  distinct, and without a loaded schema it is empty. A rule's path resolves segment by
  segment.
\<close>

theorem extraction_by_column:
  "hm_inv (extract_trace_metadata env cache trace schema_version)
    \<and> hm_get (extract_trace_metadata env cache trace schema_version) k =
        (if \<not> sc_is_loaded cache then None
         else (case map_of (rev (trace_writes env cache schema_version trace)) k of
             Some v \<Rightarrow> Some v
           | None \<Rightarrow> map_option (\<lambda>c. xe_show_json env (component_data c))
               (find (\<lambda>c. full_component_key (event_type_of c) = Some k) (components_of trace))))
    \<and> (\<forall>e data x v. (x, v) \<in> set (weight_writes e data) \<longrightarrow> is_numeral v)
    \<and> (\<forall>data p q. p \<noteq> [] \<longrightarrow> q \<noteq> [] \<longrightarrow>
        resolve_json_path data (p @ CHR ''.'' # q) = Option.bind (resolve_json_path data p) (\<lambda>v. resolve_json_path v q))"
proof (intro conjI)
  let ?md = "put_opt ''trace_id'' (get_as as_str trace ''trace_id'') []"
  have start: "written [] (opt_write ''trace_id'' (get_as as_str trace ''trace_id'')) ?md"
    by (rule written_put_opt) (rule hm.inv_empty)
  note run = extract_components_column [OF start [THEN conjunct1], of env cache schema_version "components_of trace"]
  show "hm_inv (extract_trace_metadata env cache trace schema_version)"
    using run by (simp add: extract_trace_metadata_def hm.inv_empty)
  show "hm_get (extract_trace_metadata env cache trace schema_version) k =
        (if \<not> sc_is_loaded cache then None
         else (case map_of (rev (trace_writes env cache schema_version trace)) k of
             Some v \<Rightarrow> Some v
           | None \<Rightarrow> map_option (\<lambda>c. xe_show_json env (component_data c))
               (find (\<lambda>c. full_component_key (event_type_of c) = Some k) (components_of trace))))"
    using run start [THEN conjunct2]
    by (auto simp: extract_trace_metadata_def trace_writes_def hm.get_empty map_add_def split: option.splits)
qed (use weights_are_numerals resolve_path_compose in auto)

definition ex_extract_env :: extract_env where
  "ex_extract_env = \<lparr>xe_show_json = (\<lambda>_. ''{}''), xe_show_f64 = (\<lambda>_. []), xe_parse_f64 = (\<lambda>_. None)\<rparr>"

definition ex_schema :: schema_cache where
  "ex_schema = \<lparr>sc_is_loaded = True, sc_field_rules = (\<lambda>_ e. if e = ''ASPDMA_RESULT''
     then [\<lparr>fr_json_path = ''a.0'', fr_db_column = ''aspdma_result'', fr_data_type = ''int''\<rparr>] else [])\<rparr>"

definition ex_extract_trace :: json where
  "ex_extract_trace = JObj [(''components'', JArr
     [JObj [(''data'', JObj [(''alternatives'', JArr [JNull, JNull])]), (''event_type'', JStr ''ASPDMA_RESULT'')],
      JObj [(''data'', JObj [(''a'', JArr [JStr ''-12''])]), (''event_type'', JStr ''ASPDMA_RESULT'')]])]"

lemma extraction_by_column_witness:
  "map_of (rev (trace_writes ex_extract_env ex_schema ''2.7'' ex_extract_trace)) ''aspdma_result'' = Some ''-12''
   \<and> hm_get (extract_trace_metadata ex_extract_env ex_schema ex_extract_trace ''2.7'') ''aspdma_result'' = Some ''-12''"
proof -
  have w: "map_of (rev (trace_writes ex_extract_env ex_schema ''2.7'' ex_extract_trace)) ''aspdma_result'' = Some ''-12''"
    by code_simp
  have l: "sc_is_loaded ex_schema" by (simp add: ex_schema_def)
  show ?thesis
    using extraction_by_column [of ex_extract_env ex_schema ex_extract_trace "''2.7''" "''aspdma_result''"]
    by (simp add: w l)
qed

end
