(* ===== verification/Events.thy ===== *)
theory Events
  imports Json
begin

text \<open>
  \<open>src/src/capture/event.rs\<close>: the closed taxonomy of reasoning events, the component each
  event contributes to, the wire strings of both, and the parser of the two inbound forms.
\<close>

datatype reasoning_event =
    ThoughtStart | SnapshotAndContext | DmaResults | IdmaResult | AspdmaResult
  | TsaspdmaResult | VerbSecondPassResult | ConscienceResult | ActionResult | LlmCall
  | DeferralRouted | DeferralReceived | DeferralResolved | GratitudeSignaled | CreditGenerated

datatype component =
    CObservation | CContext | CRationale | CVerbSecondPass | CConscience | CAction | CLlmCall
  | CDeferralRouted | CDeferralReceived | CDeferralResolved | CGratitudeSignaled | CCreditGenerated

fun component_wire :: "component \<Rightarrow> string" where
  "component_wire CObservation = ''observation''"
| "component_wire CContext = ''context''"
| "component_wire CRationale = ''rationale''"
| "component_wire CVerbSecondPass = ''verb_second_pass''"
| "component_wire CConscience = ''conscience''"
| "component_wire CAction = ''action''"
| "component_wire CLlmCall = ''llm_call''"
| "component_wire CDeferralRouted = ''deferral_routed''"
| "component_wire CDeferralReceived = ''deferral_received''"
| "component_wire CDeferralResolved = ''deferral_resolved''"
| "component_wire CGratitudeSignaled = ''gratitude_signaled''"
| "component_wire CCreditGenerated = ''credit_generated''"

definition enum_qualifier :: string where
  "enum_qualifier = ''ReasoningEvent.''"

definition all_events :: "reasoning_event list" where
  "all_events =
     [ThoughtStart, SnapshotAndContext, DmaResults, IdmaResult, AspdmaResult, TsaspdmaResult,
      VerbSecondPassResult, ConscienceResult, ActionResult, LlmCall, DeferralRouted,
      DeferralReceived, DeferralResolved, GratitudeSignaled, CreditGenerated]"

fun event_wire :: "reasoning_event \<Rightarrow> string" where
  "event_wire ThoughtStart = ''THOUGHT_START''"
| "event_wire SnapshotAndContext = ''SNAPSHOT_AND_CONTEXT''"
| "event_wire DmaResults = ''DMA_RESULTS''"
| "event_wire IdmaResult = ''IDMA_RESULT''"
| "event_wire AspdmaResult = ''ASPDMA_RESULT''"
| "event_wire TsaspdmaResult = ''TSASPDMA_RESULT''"
| "event_wire VerbSecondPassResult = ''VERB_SECOND_PASS_RESULT''"
| "event_wire ConscienceResult = ''CONSCIENCE_RESULT''"
| "event_wire ActionResult = ''ACTION_RESULT''"
| "event_wire LlmCall = ''LLM_CALL''"
| "event_wire DeferralRouted = ''DEFERRAL_ROUTED''"
| "event_wire DeferralReceived = ''DEFERRAL_RECEIVED''"
| "event_wire DeferralResolved = ''DEFERRAL_RESOLVED''"
| "event_wire GratitudeSignaled = ''GRATITUDE_SIGNALED''"
| "event_wire CreditGenerated = ''CREDIT_GENERATED''"

fun component_of :: "reasoning_event \<Rightarrow> component" where
  "component_of ThoughtStart = CObservation"
| "component_of SnapshotAndContext = CContext"
| "component_of DmaResults = CRationale"
| "component_of IdmaResult = CRationale"
| "component_of AspdmaResult = CRationale"
| "component_of TsaspdmaResult = CRationale"
| "component_of VerbSecondPassResult = CVerbSecondPass"
| "component_of ConscienceResult = CConscience"
| "component_of ActionResult = CAction"
| "component_of LlmCall = CLlmCall"
| "component_of DeferralRouted = CDeferralRouted"
| "component_of DeferralReceived = CDeferralReceived"
| "component_of DeferralResolved = CDeferralResolved"
| "component_of GratitudeSignaled = CGratitudeSignaled"
| "component_of CreditGenerated = CCreditGenerated"

definition seals_trace :: "reasoning_event \<Rightarrow> bool" where
  "seals_trace e = (e = ActionResult)"

definition parse_event :: "string \<Rightarrow> reasoning_event option" where
  "parse_event raw =
     (let bare = (case strip_prefix enum_qualifier raw of Some s \<Rightarrow> s | None \<Rightarrow> raw)
      in parse_wire event_wire all_events bare)"

lemma event_wire_inj: "event_wire a = event_wire b \<Longrightarrow> a = b"
  by (cases a; cases b) simp_all

interpretation ev: wire_enum event_wire all_events
proof
  fix v show "v \<in> set all_events" by (cases v) (simp_all add: all_events_def)
  show "distinct all_events" by (simp add: all_events_def)
qed (rule event_wire_inj)

definition all_components :: "component list" where
  "all_components = remdups (map component_of all_events)"

interpretation cmp: wire_enum component_wire all_components
proof
  fix v show "v \<in> set all_components" by (cases v) (simp_all add: all_components_def all_events_def)
  show "distinct all_components" by (simp add: all_components_def)
  show "component_wire a = component_wire b \<Longrightarrow> a = b" for a b
    by (cases a; cases b) simp_all
qed

text \<open>No bare wire string starts with the qualifier, so the two inbound forms do not overlap.\<close>

lemma strip_event_wire [simp]: "strip_prefix enum_qualifier (event_wire e) = None"
  by (cases e) (simp_all add: strip_prefix_def enum_qualifier_def)

lemma parse_event_bare [simp]: "parse_event (event_wire e) = Some e"
  by (simp add: parse_event_def)

lemma parse_event_qualified [simp]: "parse_event (enum_qualifier @ event_wire e) = Some e"
  by (simp add: parse_event_def)

lemma parse_event_Some_iff:
  "parse_event raw = Some e \<longleftrightarrow> raw = event_wire e \<or> raw = enum_qualifier @ event_wire e"
proof
  assume *: "parse_event raw = Some e"
  show "raw = event_wire e \<or> raw = enum_qualifier @ event_wire e"
  proof (cases "strip_prefix enum_qualifier raw")
    case None
    with * show ?thesis by (simp add: parse_event_def ev.parse_eq_Some_iff)
  next
    case (Some s)
    with * have "s = event_wire e" by (simp add: parse_event_def ev.parse_eq_Some_iff)
    with Some show ?thesis by (auto dest: strip_prefix_SomeD)
  qed
qed auto

lemma component_action_iff: "component_of e = CAction \<longleftrightarrow> seals_trace e"
  by (cases e) (simp_all add: seals_trace_def)

end
