(* ===== verification/PartialTrace.thy ===== *)
theory PartialTrace
  imports Events Machines
begin

text \<open>
  \<open>src/src/capture/partial.rs\<close>: assembly of the event stream into traces. The store is a
  hash map of active traces by thought and the next attempt index per (thought, event);
  \<open>capture\<close> assembles one event and \<open>orphan_sweep\<close> drops stale traces. The store
  invariant says that the counters count the components exactly (modulo the 32-bit width),
  and the view of one thought evolves on its own (\<open>vcapture\<close>), whatever the other thoughts do.
\<close>

section \<open>Data\<close>

definition trace_schema_version :: string where
  "trace_schema_version = ''3.0.0''"

record trace_component =
  tc_component_type :: component
  tc_event_type :: reasoning_event
  tc_timestamp :: string
  tc_attempt_index :: u32
  tc_data :: json
  tc_agent_id_hash :: string

record complete_trace =
  ct_trace_id :: string
  ct_thought_id :: string
  ct_task_id :: "string option"
  ct_agent_id_hash :: string
  ct_started_at :: string
  ct_completed_at :: "string option"
  ct_components :: "trace_component list"
  ct_signature :: "string option"
  ct_signature_key_id :: "string option"
  ct_trace_level :: "string option"
  ct_trace_schema_version :: string
  ct_deployment_profile :: "json option"

datatype capture_outcome = Opened | Appended | Sealed complete_trace | UnknownEvent string

record partial_store =
  active :: "(string, complete_trace) hmap"
  attempt_counters :: "(string \<times> string, u32) hmap"

record inbound_event =
  in_event_type :: string
  in_thought_id :: string
  in_task_id :: "string option"
  in_agent_id_hash :: string
  in_timestamp :: string
  in_trace_level :: "string option"
  in_data :: json

section \<open>Operations\<close>

definition is_sealed :: "complete_trace \<Rightarrow> bool" where
  "is_sealed t = (ct_completed_at t \<noteq> None)"

definition data_with_attempt_index :: "trace_component \<Rightarrow> json" where
  "data_with_attempt_index c =
     (let m = (case tc_data c of JObj fs \<Rightarrow> fs | _ \<Rightarrow> [])
      in JObj (bt_put ''attempt_index'' (j_of_u32 (tc_attempt_index c)) m))"

definition component_to_json :: "trace_component \<Rightarrow> json" where
  "component_to_json c = jobject
     [(''component_type'', JStr (component_wire (tc_component_type c))),
      (''event_type'', JStr (event_wire (tc_event_type c))),
      (''timestamp'', JStr (tc_timestamp c)),
      (''data'', data_with_attempt_index c),
      (''agent_id_hash'', JStr (tc_agent_id_hash c))]"

definition store_new :: partial_store where
  "store_new = \<lparr>active = [], attempt_counters = []\<rparr>"

definition active_len :: "partial_store \<Rightarrow> nat" where
  "active_len s = length (active s)"

definition new_trace :: "inbound_event \<Rightarrow> string \<Rightarrow> complete_trace" where
  "new_trace ev trace_id =
     \<lparr>ct_trace_id = trace_id, ct_thought_id = in_thought_id ev, ct_task_id = in_task_id ev,
      ct_agent_id_hash = in_agent_id_hash ev, ct_started_at = in_timestamp ev,
      ct_completed_at = None, ct_components = [], ct_signature = None,
      ct_signature_key_id = None, ct_trace_level = in_trace_level ev,
      ct_trace_schema_version = trace_schema_version, ct_deployment_profile = None\<rparr>"

definition mk_component :: "inbound_event \<Rightarrow> reasoning_event \<Rightarrow> u32 \<Rightarrow> trace_component" where
  "mk_component ev et idx =
     \<lparr>tc_component_type = component_of et, tc_event_type = et, tc_timestamp = in_timestamp ev,
      tc_attempt_index = idx, tc_data = in_data ev, tc_agent_id_hash = in_agent_id_hash ev\<rparr>"

text \<open>A late \<open>task_id\<close> or \<open>trace_level\<close> fills in; the component goes to the end.\<close>

definition extend_trace :: "inbound_event \<Rightarrow> trace_component \<Rightarrow> complete_trace \<Rightarrow> complete_trace" where
  "extend_trace ev c t = t
     \<lparr>ct_task_id := (case ct_task_id t of None \<Rightarrow> in_task_id ev | Some x \<Rightarrow> Some x),
      ct_trace_level := (case ct_trace_level t of None \<Rightarrow> in_trace_level ev | Some x \<Rightarrow> Some x),
      ct_components := ct_components t @ [c]\<rparr>"

definition capture :: "inbound_event \<Rightarrow> string \<Rightarrow> partial_store \<Rightarrow> partial_store \<times> capture_outcome" where
  "capture ev trace_id_for_new s =
     (case parse_event (in_event_type ev) of
        None \<Rightarrow> (s, UnknownEvent (in_event_type ev))
      | Some et \<Rightarrow>
          let tid = in_thought_id ev;
              key = (tid, event_wire et);
              idx = (case hm_get (attempt_counters s) key of None \<Rightarrow> 0 | Some n \<Rightarrow> n);
              counters = hm_put key (idx + 1) (attempt_counters s);
              opened = (hm_get (active s) tid = None);
              t0 = (case hm_get (active s) tid of
                      None \<Rightarrow> new_trace ev trace_id_for_new | Some t \<Rightarrow> t);
              t = extend_trace ev (mk_component ev et idx) t0
          in if seals_trace et then
               let sealed = t\<lparr>ct_completed_at := Some (in_timestamp ev)\<rparr>
               in (\<lparr>active = hm_del tid (hm_put tid sealed (active s)),
                    attempt_counters = hm_retain (\<lambda>(x, _). x \<noteq> tid) counters\<rparr>,
                   Sealed sealed)
             else (\<lparr>active = hm_put tid t (active s), attempt_counters = counters\<rparr>,
                   if opened then Opened else Appended))"

text \<open>\<open>DateTime::parse_from_rfc3339\<close> is the parameter \<open>rfc3339\<close>.\<close>

definition is_orphan :: "(string \<Rightarrow> instant option) \<Rightarrow> instant \<Rightarrow> i64 \<Rightarrow> complete_trace \<Rightarrow> bool" where
  "is_orphan rfc3339 now max_age t =
     (case rfc3339 (ct_started_at t) of
        Some started \<Rightarrow> sint max_age < num_seconds (now - started)
      | None \<Rightarrow> True)"

definition purge_thought :: "string \<Rightarrow> partial_store \<Rightarrow> partial_store" where
  "purge_thought tid s =
     \<lparr>active = hm_del tid (active s),
      attempt_counters = hm_retain (\<lambda>(x, _). x \<noteq> tid) (attempt_counters s)\<rparr>"

definition orphan_sweep ::
  "(string \<Rightarrow> instant option) \<Rightarrow> instant \<Rightarrow> i64 \<Rightarrow> partial_store \<Rightarrow> partial_store \<times> nat" where
  "orphan_sweep rfc3339 now max_age s =
     (let before = active_len s;
          purged = map fst (filter (\<lambda>(_, t). is_orphan rfc3339 now max_age t) (active s));
          s' = fold purge_thought purged s
      in (s', before - active_len s'))"

section \<open>The view of one thought\<close>

text \<open>
  What the store knows of one thought: its active trace and its counters. The abstract
  capture works on the view alone.
\<close>

type_synonym view = "complete_trace option \<times> (string \<Rightarrow> u32 option)"

definition view :: "partial_store \<Rightarrow> string \<Rightarrow> view" where
  "view s tid = (hm_get (active s) tid, \<lambda>w. hm_get (attempt_counters s) (tid, w))"

definition vcapture :: "inbound_event \<Rightarrow> string \<Rightarrow> view \<Rightarrow> view \<times> capture_outcome" where
  "vcapture ev new_id v =
     (case parse_event (in_event_type ev) of
        None \<Rightarrow> (v, UnknownEvent (in_event_type ev))
      | Some et \<Rightarrow>
          let idx = (case snd v (event_wire et) of None \<Rightarrow> 0 | Some n \<Rightarrow> n);
              t = extend_trace ev (mk_component ev et idx)
                    (case fst v of None \<Rightarrow> new_trace ev new_id | Some t \<Rightarrow> t)
          in if seals_trace et
             then ((None, Map.empty), Sealed (t\<lparr>ct_completed_at := Some (in_timestamp ev)\<rparr>))
             else ((Some t, (snd v)(event_wire et \<mapsto> idx + 1)),
                   if fst v = None then Opened else Appended))"

definition store_maps :: "partial_store \<Rightarrow> bool" where
  "store_maps s = (hm_inv (active s) \<and> hm_inv (attempt_counters s))"

lemma store_maps_new [wf_intros]: "store_maps store_new"
  by (simp add: store_maps_def store_new_def hm.inv_empty)

lemma view_new: "view store_new tid = (None, Map.empty)"
  by (simp add: view_def store_new_def hm_get_def)

lemma capture_refines_view:
  assumes "store_maps s" "capture ev new_id s = (s', out)"
  shows "store_maps s'"
    and "(view s' (in_thought_id ev), out) = vcapture ev new_id (view s (in_thought_id ev))"
    and "tid \<noteq> in_thought_id ev \<Longrightarrow> view s' tid = view s tid"
  using assms
  by (auto simp: capture_def vcapture_def view_def store_maps_def Let_def fun_eq_iff
      hm.inv_put hm.inv_del hm.get_put hm.get_del hm_inv_retain hm_get_retain
      split: option.splits if_splits)

lemma purge_view:
  assumes "store_maps s"
  shows "store_maps (purge_thought x s)"
    and "view (purge_thought x s) tid = (if tid = x then (None, Map.empty) else view s tid)"
  using assms
  by (auto simp: purge_thought_def view_def store_maps_def fun_eq_iff hm.inv_del hm.get_del
      hm_inv_retain hm_get_retain)

lemma purge_all_view:
  assumes "store_maps s"
  shows "store_maps (fold purge_thought xs s)
    \<and> view (fold purge_thought xs s) tid = (if tid \<in> set xs then (None, Map.empty) else view s tid)"
  using assms
  by (induction xs arbitrary: s) (auto simp: purge_view)

lemma active_purge_all: "active (fold purge_thought xs s) = hm_retain (\<lambda>k. k \<notin> set xs) (active s)"
  by (induction xs arbitrary: s)
    (auto simp: purge_thought_def hm_del_retain hm_retain_def case_prod_unfold conj_commute)


section \<open>The invariant\<close>

definition occurrences :: "reasoning_event \<Rightarrow> trace_component list \<Rightarrow> trace_component list" where
  "occurrences e cs = filter (\<lambda>c. tc_event_type c = e) cs"

text \<open>The k-th occurrence of an event carries index k (modulo the 32-bit width).\<close>

definition indexed :: "trace_component list \<Rightarrow> bool" where
  "indexed cs =
     (\<forall>e. map tc_attempt_index (occurrences e cs) = map of_nat [0..<length (occurrences e cs)])"

definition open_trace :: "string \<Rightarrow> complete_trace \<Rightarrow> bool" where
  "open_trace tid t =
     (ct_thought_id t = tid \<and> ct_completed_at t = None \<and> ct_signature t = None
      \<and> ct_signature_key_id t = None \<and> ct_deployment_profile t = None
      \<and> ct_trace_schema_version t = trace_schema_version
      \<and> ct_components t \<noteq> [] \<and> ct_started_at t = tc_timestamp (hd (ct_components t))
      \<and> ct_agent_id_hash t = tc_agent_id_hash (hd (ct_components t))
      \<and> indexed (ct_components t)
      \<and> (\<forall>c \<in> set (ct_components t). tc_component_type c = component_of (tc_event_type c)
            \<and> \<not> seals_trace (tc_event_type c)))"

definition counts :: "trace_component list \<Rightarrow> string \<Rightarrow> u32 option" where
  "counts cs w =
     (case parse_wire event_wire all_events w of
        None \<Rightarrow> None
      | Some e \<Rightarrow> (case length (occurrences e cs) of 0 \<Rightarrow> None | Suc n \<Rightarrow> Some (of_nat (Suc n))))"

definition view_inv :: "string \<Rightarrow> view \<Rightarrow> bool" where
  "view_inv tid v = (case fst v of
       None \<Rightarrow> snd v = Map.empty
     | Some t \<Rightarrow> open_trace tid t \<and> snd v = counts (ct_components t))"

definition store_inv :: "partial_store \<Rightarrow> bool" where
  "store_inv s = (store_maps s \<and> (\<forall>tid. view_inv tid (view s tid)))"

lemma occurrences_snoc:
  "occurrences e (cs @ [c]) = occurrences e cs @ (if tc_event_type c = e then [c] else [])"
  by (simp add: occurrences_def)

lemma counts_empty [simp]: "counts [] = Map.empty"
  by (auto simp: counts_def occurrences_def fun_eq_iff split: option.split)

lemma counts_event [simp]:
  "counts cs (event_wire e) =
     (case length (occurrences e cs) of 0 \<Rightarrow> None | Suc n \<Rightarrow> Some (of_nat (Suc n)))"
  by (simp add: counts_def)

lemma next_index:
  "(case counts cs (event_wire e) of None \<Rightarrow> 0 | Some n \<Rightarrow> n) = of_nat (length (occurrences e cs))"
  by (simp split: nat.split)

lemma counts_snoc:
  assumes "tc_event_type c = e"
  shows "counts (cs @ [c]) = (counts cs)(event_wire e \<mapsto> of_nat (length (occurrences e cs)) + 1)"
proof
  fix w
  show "counts (cs @ [c]) w = ((counts cs)(event_wire e \<mapsto> of_nat (length (occurrences e cs)) + 1)) w"
    using assms
    by (auto simp: counts_def occurrences_snoc ev.parse_eq_Some_iff ev.wire_eq_iff add.commute
        split: option.splits nat.splits)
qed

lemma indexed_snoc:
  assumes "indexed cs" "tc_attempt_index c = of_nat (length (occurrences (tc_event_type c) cs))"
  shows "indexed (cs @ [c])"
  using assms by (simp add: indexed_def occurrences_snoc)

lemma indexed_Nil [simp]: "indexed []"
  by (simp add: indexed_def occurrences_def)

text \<open>One step of the view: what it leaves active, and what it seals.\<close>

definition sealed_trace :: "string \<Rightarrow> complete_trace \<Rightarrow> bool" where
  "sealed_trace tid t =
     (\<exists>cs c. ct_components t = cs @ [c] \<and> tc_event_type c = ActionResult
      \<and> (\<forall>d \<in> set cs. tc_event_type d \<noteq> ActionResult)
      \<and> (\<forall>d \<in> set (cs @ [c]). tc_component_type d = component_of (tc_event_type d))
      \<and> indexed (cs @ [c]) \<and> ct_thought_id t = tid
      \<and> ct_started_at t = tc_timestamp (hd (cs @ [c]))
      \<and> ct_agent_id_hash t = tc_agent_id_hash (hd (cs @ [c]))
      \<and> ct_completed_at t = Some (tc_timestamp c)
      \<and> ct_signature t = None \<and> ct_signature_key_id t = None \<and> ct_deployment_profile t = None
      \<and> ct_trace_schema_version t = trace_schema_version)"

text \<open>The trace an event extends.\<close>

definition base_trace :: "inbound_event \<Rightarrow> string \<Rightarrow> view \<Rightarrow> complete_trace" where
  "base_trace ev new_id v = (case fst v of None \<Rightarrow> new_trace ev new_id | Some t \<Rightarrow> t)"

lemma base_trace_facts:
  fixes new_id :: string
  assumes "view_inv (in_thought_id ev) v"
  defines "t0 \<equiv> base_trace ev new_id v"
  shows "ct_thought_id t0 = in_thought_id ev" "ct_completed_at t0 = None"
      "ct_signature t0 = None" "ct_signature_key_id t0 = None" "ct_deployment_profile t0 = None"
      "ct_trace_schema_version t0 = trace_schema_version" "indexed (ct_components t0)"
      "snd v = counts (ct_components t0)"
      "\<forall>c \<in> set (ct_components t0). tc_component_type c = component_of (tc_event_type c)
            \<and> \<not> seals_trace (tc_event_type c)"
      "ct_started_at t0 = (case ct_components t0 of [] \<Rightarrow> in_timestamp ev | c # _ \<Rightarrow> tc_timestamp c)"
      "ct_agent_id_hash t0 = (case ct_components t0 of [] \<Rightarrow> in_agent_id_hash ev | c # _ \<Rightarrow> tc_agent_id_hash c)"
  using assms(1) by (auto simp: t0_def base_trace_def view_inv_def open_trace_def new_trace_def
      split: option.splits list.splits)

lemma vcapture_known:
  fixes new_id :: string
  assumes "view_inv (in_thought_id ev) v" "parse_event (in_event_type ev) = Some et"
  defines "t0 \<equiv> base_trace ev new_id v"
  defines "c \<equiv> mk_component ev et (of_nat (length (occurrences et (ct_components t0))))"
  shows "vcapture ev new_id v = (if seals_trace et
             then ((None, Map.empty), Sealed ((extend_trace ev c t0)\<lparr>ct_completed_at := Some (in_timestamp ev)\<rparr>))
             else ((Some (extend_trace ev c t0), counts (ct_components t0 @ [c])),
                   if fst v = None then Opened else Appended))"
proof -
  have c: "tc_event_type c = et" by (simp add: c_def mk_component_def)
  have t0: "snd v = counts (ct_components t0)" unfolding t0_def by (rule base_trace_facts [OF assms(1)])
  show ?thesis
    unfolding vcapture_def assms(2) option.case Let_def t0 next_index base_trace_def [symmetric] t0_def [symmetric]
      c_def [symmetric] by (simp only: counts_snoc [OF c])
qed

lemma vcapture_inv:
  assumes "view_inv (in_thought_id ev) v" "vcapture ev new_id v = (v', out)"
  shows "view_inv (in_thought_id ev) v'"
    and "out = Sealed t \<Longrightarrow> sealed_trace (in_thought_id ev) t \<and> v' = (None, Map.empty)"
proof -
  define t0 where "t0 = base_trace ev new_id v"
  note t0 = base_trace_facts [OF assms(1), of new_id, folded t0_def]
  have facts: "view_inv (in_thought_id ev) v'
    \<and> (out = Sealed t \<longrightarrow> sealed_trace (in_thought_id ev) t \<and> v' = (None, Map.empty))"
  proof (cases "parse_event (in_event_type ev)")
    case None
    with assms show ?thesis by (auto simp: vcapture_def)
  next
    case (Some et)
    define c where "c = mk_component ev et (of_nat (length (occurrences et (ct_components t0))))"
    define t1 where "t1 = extend_trace ev c t0"
    note step = vcapture_known [OF assms(1) Some, of new_id, folded t0_def, folded c_def, folded t1_def]
    have c: "tc_event_type c = et" "tc_component_type c = component_of et"
        "tc_timestamp c = in_timestamp ev" "tc_agent_id_hash c = in_agent_id_hash ev"
        "tc_attempt_index c = of_nat (length (occurrences et (ct_components t0)))"
      by (simp_all add: c_def mk_component_def)
    have ix: "indexed (ct_components t0 @ [c])"
      using t0 c by (intro indexed_snoc) simp_all
    show ?thesis
    proof (cases "seals_trace et")
      case True
      have "sealed_trace (in_thought_id ev) (t1\<lparr>ct_completed_at := Some (in_timestamp ev)\<rparr>)"
        unfolding sealed_trace_def
        using t0 c ix True
        by (intro exI [of _ "ct_components t0"] exI [of _ c])
          (auto simp: t1_def extend_trace_def seals_trace_def split: list.splits)
      with True step assms(2) show ?thesis by (auto simp: view_inv_def)
    next
      case False
      have "open_trace (in_thought_id ev) t1"
        unfolding open_trace_def using t0 c ix False
        by (auto simp: t1_def extend_trace_def split: list.splits)
      with False step assms(2) show ?thesis
        by (auto simp: view_inv_def t1_def extend_trace_def)
    qed
  qed
  then show "view_inv (in_thought_id ev) v'" by simp
  from facts show "out = Sealed t \<Longrightarrow> sealed_trace (in_thought_id ev) t \<and> v' = (None, Map.empty)"
    by simp
qed

lemma store_inv_new [wf_intros]: "store_inv store_new"
  by (simp add: store_inv_def store_maps_new view_new view_inv_def)

lemma store_inv_capture:
  assumes "store_inv s" "capture ev new_id s = (s', out)"
  shows "store_inv s'"
    and "out = Sealed t \<Longrightarrow> sealed_trace (in_thought_id ev) t
           \<and> view s' (in_thought_id ev) = (None, Map.empty)"
proof -
  have maps: "store_maps s" and v: "view_inv tid (view s tid)" for tid
    using assms(1) by (auto simp: store_inv_def)
  note ref = capture_refines_view [OF maps assms(2)]
  have "view_inv tid (view s' tid)" for tid
    using vcapture_inv(1) [OF v ref(2) [symmetric]] ref(3) [of tid] v [of tid]
    by (cases "tid = in_thought_id ev") simp_all
  with ref(1) show "store_inv s'" by (simp add: store_inv_def)
  show "out = Sealed t \<Longrightarrow> sealed_trace (in_thought_id ev) t
           \<and> view s' (in_thought_id ev) = (None, Map.empty)"
    using vcapture_inv(2) [OF v ref(2) [symmetric]] .
qed


section \<open>Streams\<close>

text \<open>
  A stream of events with the trace id the caller offers for each.
\<close>

definition capture_step :: "inbound_event \<times> string \<Rightarrow> partial_store \<Rightarrow> partial_store \<times> capture_outcome" where
  "capture_step i s = capture (fst i) (snd i) s"

definition thought_of :: "inbound_event \<times> string \<Rightarrow> string" where
  "thought_of i = in_thought_id (fst i)"

abbreviation capture_stream ::
  "(inbound_event \<times> string) list \<Rightarrow> partial_store \<Rightarrow> partial_store \<times> capture_outcome list" where
  "capture_stream \<equiv> run capture_step"

definition seals_well :: "inbound_event \<times> string \<Rightarrow> capture_outcome \<Rightarrow> bool" where
  "seals_well i out = (\<forall>t. out = Sealed t \<longrightarrow> sealed_trace (thought_of i) t)"

interpretation store: reactive capture_step store_inv seals_well
  using store_inv_capture
  by unfold_locales (auto simp: capture_step_def seals_well_def thought_of_def)

interpretation thoughts: keyed_machine capture_step store_maps thought_of view
  "\<lambda>i. vcapture (fst i) (snd i)"
  using capture_refines_view
  by unfold_locales (auto simp: capture_step_def thought_of_def)

lemma store_inv_sweep:
  assumes "store_inv s" "orphan_sweep rfc3339 now max_age s = (s', n)"
  shows "store_inv s'"
proof -
  obtain xs where s': "s' = fold purge_thought xs s" using assms(2) by (auto simp: orphan_sweep_def Let_def)
  have maps: "store_maps s" and vi: "view_inv tid (view s tid)" for tid
    using assms(1) by (auto simp: store_inv_def)
  have "view_inv tid (view s' tid)" for tid
    using vi [of tid] purge_all_view [OF maps, of xs tid] by (simp add: s' view_inv_def)
  then show ?thesis using purge_all_view [OF maps] by (simp add: store_inv_def s')
qed

section \<open>Properties\<close>

definition demo_event :: "string \<Rightarrow> string \<Rightarrow> string \<Rightarrow> inbound_event" where
  "demo_event e tid ts = \<lparr>in_event_type = e, in_thought_id = tid, in_task_id = None,
     in_agent_id_hash = ''agent'', in_timestamp = ts, in_trace_level = None, in_data = JNull\<rparr>"

definition demo_stream :: "(inbound_event \<times> string) list" where
  "demo_stream =
     [(demo_event ''THOUGHT_START'' ''a'' ''1'', ''ta''), (demo_event ''LLM_CALL'' ''b'' ''2'', ''tb''),
      (demo_event ''ReasoningEvent.LLM_CALL'' ''a'' ''3'', ''ta''), (demo_event ''LLM_CALL'' ''a'' ''4'', ''ta''),
      (demo_event ''ACTION_RESULT'' ''a'' ''5'', ''ta'')]"

text \<open>
  C7: whatever the stream of inbound events, starting from the empty store the store
  invariant holds afterwards (the attempt counters count exactly the assembled components
  of the active traces), and every trace the stream seals has the shape the signing path
  relies on: exactly one \<open>ACTION_RESULT\<close>, at the end, whose timestamp is the completion
  time; the opening component gives start time and agent; the k-th occurrence of each
  event type carries attempt index k; every component is in its event's bucket; nothing
  is signed yet.
\<close>

theorem stream_seals_complete_traces:
  assumes "capture_stream evs store_new = (s, outs)"
  shows "store_inv s
    \<and> (\<forall>i t. (i, Sealed t) \<in> set (zip evs outs) \<longrightarrow> sealed_trace (thought_of i) t)"
  using store.run_inv [OF store_inv_new assms] store.run_zip_good [OF store_inv_new assms]
  by (auto simp: seals_well_def)

lemma stream_seals_complete_traces_witness:
  "\<exists>s outs t. capture_stream demo_stream store_new = (s, outs) \<and> active_len s = 1
     \<and> outs ! 4 = Sealed t \<and> sealed_trace ''a'' t"
proof -
  let ?r = "capture_stream demo_stream store_new"
  have "(case snd ?r ! 4 of Sealed _ \<Rightarrow> True | _ \<Rightarrow> False)" "active_len (fst ?r) = 1"
    "length (snd ?r) = 5" "thought_of (demo_stream ! 4) = ''a''"
    by code_simp+
  moreover from this(1) obtain t where t: "snd ?r ! 4 = Sealed t" by (cases "snd ?r ! 4") auto
  moreover have "(demo_stream ! 4, Sealed t) \<in> set (zip demo_stream (snd ?r))"
    using calculation by (auto simp: in_set_zip demo_stream_def intro!: exI [of _ 4])
  ultimately show ?thesis
    using stream_seals_complete_traces [of demo_stream "fst ?r" "snd ?r"] by (metis prod.collapse)
qed

text \<open>
  C25: thoughts are isolated. In an arbitrarily interleaved stream, the outcomes of one
  thought and what the store holds of it afterwards are those of the thought's own events
  run alone.
\<close>

theorem thoughts_are_isolated:
  assumes "store_inv s" "capture_stream evs s = (s1, outs1)"
    and "capture_stream (inputs_of thought_of tid evs) s = (s2, outs2)"
  shows "outputs_of thought_of tid evs outs1 = outputs_of thought_of tid (inputs_of thought_of tid evs) outs2
    \<and> view s1 tid = view s2 tid"
  using thoughts.keys_isolated [OF _ assms(2,3)] assms(1) by (simp add: store_inv_def)

lemma thoughts_are_isolated_witness:
  "snd (capture_stream (inputs_of thought_of ''b'' demo_stream) store_new) = [Opened]
   \<and> outputs_of thought_of ''b'' demo_stream (snd (capture_stream demo_stream store_new)) = [Opened]"
proof -
  let ?r = "capture_stream demo_stream store_new"
  let ?q = "capture_stream (inputs_of thought_of ''b'' demo_stream) store_new"
  have b: "snd ?q = [Opened]"
    "outputs_of thought_of ''b'' (inputs_of thought_of ''b'' demo_stream) (snd ?q) = [Opened]"
    by code_simp+
  moreover have "outputs_of thought_of ''b'' demo_stream (snd ?r)
      = outputs_of thought_of ''b'' (inputs_of thought_of ''b'' demo_stream) (snd ?q)"
    by (rule thoughts_are_isolated [OF store_inv_new, THEN conjunct1]) (rule prod.collapse [symmetric])+
  ultimately show ?thesis by simp
qed

text \<open>
  C36: the orphan sweep keeps the store invariant, removes exactly the traces whose start
  time does not parse or lies more than \<open>max_age\<close> whole seconds before \<open>now\<close>, together with
  their counters, leaves every other thought untouched, and reports how many it removed.
\<close>

theorem orphan_sweep_exact:
  assumes "store_inv s" "orphan_sweep rfc3339 now max_age s = (s', n)"
  shows "store_inv s'
    \<and> n = length (filter (\<lambda>(_, t). is_orphan rfc3339 now max_age t) (active s))
    \<and> (\<forall>tid. view s' tid =
         (case hm_get (active s) tid of
            Some t \<Rightarrow> if is_orphan rfc3339 now max_age t then (None, Map.empty) else view s tid
          | None \<Rightarrow> view s tid))"
proof -
  define P where "P = is_orphan rfc3339 now max_age"
  define xs where "xs = map fst (filter (\<lambda>(_, t). P t) (active s))"
  have maps: "store_maps s" using assms(1) by (simp add: store_inv_def)
  then have dist: "distinct (map fst (active s))" by (simp add: store_maps_def hm_inv_def)
  have s': "s' = fold purge_thought xs s" and n: "n = active_len s - active_len s'"
    using assms(2) by (auto simp: orphan_sweep_def Let_def xs_def P_def)
  have mem: "k \<in> set xs \<longleftrightarrow> (\<exists>t. hm_get (active s) k = Some t \<and> P t)" for k
    using hm_get_Some_iff [of "active s" k] dist by (force simp: xs_def hm_inv_def)
  have pv: "store_maps s'" "view s' tid = (if tid \<in> set xs then (None, Map.empty) else view s tid)" for tid
    using purge_all_view [OF maps, of xs] by (simp_all add: s')
  have "active s' = filter (\<lambda>(k, _). k \<notin> set xs) (active s)"
    by (simp add: s' active_purge_all hm_retain_def)
  also have "\<dots> = filter (\<lambda>(_, t). \<not> P t) (active s)"
    using mem hm_get_Some_iff [of "active s"] dist
    by (intro filter_cong) (auto simp: hm_inv_def dest: eq_key_imp_eq_value)
  finally have "active_len s' + length (filter (\<lambda>(_, t). P t) (active s)) = active_len s"
    using sum_length_filter_compl [of "\<lambda>(_, t). P t" "active s"]
    by (simp add: active_len_def case_prod_unfold add.commute)
  then have "n = length (filter (\<lambda>(_, t). P t) (active s))" by (simp add: n)
  moreover have "view s' tid = (case hm_get (active s) tid of
            Some t \<Rightarrow> if P t then (None, Map.empty) else view s tid | None \<Rightarrow> view s tid)" for tid
    using mem [of tid] by (simp add: pv split: option.split)
  ultimately show ?thesis using store_inv_sweep [OF assms] unfolding P_def [symmetric] by simp
qed

lemma orphan_sweep_exact_witness:
  "let s = fst (capture_stream demo_stream store_new);
       r = orphan_sweep (\<lambda>ts. if ts = ''2'' then Some 0 else None) (601 * 10 ^ 9) 600 s
   in snd r = 1 \<and> active (fst r) = [] \<and> store_inv (fst r)"
proof -
  let ?s = "fst (capture_stream demo_stream store_new)"
  let ?r = "orphan_sweep (\<lambda>ts. if ts = ''2'' then Some 0 else None) (601 * 10 ^ 9) 600 ?s"
  have "snd ?r = 1" "active (fst ?r) = []"
    by code_simp+
  moreover have "store_inv ?s"
    using store.run_inv [OF store_inv_new] by (metis prod.collapse)
  ultimately show ?thesis
    using orphan_sweep_exact [of ?s] by (metis prod.collapse)
qed

text \<open>
  An event string is accepted exactly when it is the bare or the qualified wire form of
  one event type, and an unknown string changes nothing in the store.
\<close>

theorem unknown_event_rejected:
  "(parse_event (in_event_type ev) = Some e
      \<longleftrightarrow> in_event_type ev = event_wire e \<or> in_event_type ev = enum_qualifier @ event_wire e)
   \<and> ((\<exists>raw. snd (capture ev new_id s) = UnknownEvent raw) = (parse_event (in_event_type ev) = None))
   \<and> (parse_event (in_event_type ev) = None \<longrightarrow> fst (capture ev new_id s) = s)"
  by (auto simp: parse_event_Some_iff capture_def Let_def split: option.split)

lemma unknown_event_rejected_witness:
  "fst (capture (demo_event ''THOUGHT_STRT'' ''a'' ''1'') ''ta'' store_new) = store_new"
proof -
  have "parse_event (in_event_type (demo_event ''THOUGHT_STRT'' ''a'' ''1'')) = None"
    by (simp add: demo_event_def parse_event_def strip_prefix_def enum_qualifier_def parse_wire_def
        all_events_def)
  with unknown_event_rejected show ?thesis by blast
qed

end
