(* ===== verification/Seal.thy ===== *)
theory Seal
  imports PartialTrace
begin

text \<open>
  \<open>src/src/capture/seal.rs\<close>: the canonical envelope of a sealed trace, its bytes, and the
  Ed25519 signature over them. The canonicalizers of the persistence crate, base64 and
  Ed25519 are outside the repository: they are the fields of the record \<open>crypto\<close>.
\<close>

section \<open>Stripping empty values\<close>

fun is_empty :: "json \<Rightarrow> bool" where
  "is_empty JNull = True"
| "is_empty (JStr s) = (s = [])"
| "is_empty (JArr xs) = (xs = [])"
| "is_empty (JObj fs) = (fs = [])"
| "is_empty _ = False"

fun strip_empty :: "json \<Rightarrow> json"
  and strip_items :: "json list \<Rightarrow> json list"
  and strip_fields :: "fields \<Rightarrow> fields" where
  "strip_empty (JObj fs) = JObj (strip_fields fs)"
| "strip_empty (JArr xs) = JArr (strip_items xs)"
| "strip_empty v = v"
| "strip_items [] = []"
| "strip_items (x # xs) = (if x = JNull then strip_items xs else strip_empty x # strip_items xs)"
| "strip_fields [] = []"
| "strip_fields ((k, v) # fs) =
     (let s = strip_empty v in if is_empty s then strip_fields fs else (k, s) # strip_fields fs)"

text \<open>No empty value is left under a key and no null inside an array, at any depth.\<close>

fun compact :: "json \<Rightarrow> bool" and compact_items :: "json list \<Rightarrow> bool" and compact_fields :: "fields \<Rightarrow> bool" where
  "compact (JObj fs) = compact_fields fs"
| "compact (JArr xs) = compact_items xs"
| "compact _ = True"
| "compact_items [] = True"
| "compact_items (x # xs) = (x \<noteq> JNull \<and> compact x \<and> compact_items xs)"
| "compact_fields [] = True"
| "compact_fields ((k, v) # fs) = (\<not> is_empty v \<and> compact v \<and> compact_fields fs)"

lemma strip_not_null: "strip_empty v = JNull \<longleftrightarrow> v = JNull"
  by (cases v) auto

lemma compact_strip:
  "compact (strip_empty v)" "compact_items (strip_items xs)" "compact_fields (strip_fields fs)"
  by (induction v and xs and fs rule: strip_empty_strip_items_strip_fields.induct)
    (auto simp: Let_def strip_not_null)

lemma strip_compact:
  "compact v \<Longrightarrow> strip_empty v = v"
  "compact_items xs \<Longrightarrow> strip_items xs = xs"
  "compact_fields fs \<Longrightarrow> strip_fields fs = fs"
  by (induction v and xs and fs rule: compact_compact_items_compact_fields.induct)
    (auto simp: Let_def)

lemma strip_idem [simp]: "strip_empty (strip_empty v) = strip_empty v"
  by (simp add: strip_compact compact_strip)

lemma fst_strip_fields: "fst ` set (strip_fields fs) \<subseteq> fst ` set fs"
proof (induction fs)
  case (Cons p fs)
  then show ?case by (cases p) (simp add: Let_def, blast)
qed simp

lemma bt_inv_Cons: "bt_inv ((k, v) # fs) \<longleftrightarrow> (\<forall>k' \<in> fst ` set fs. k < k') \<and> bt_inv fs"
  by (auto simp: bt_inv_def)

lemma bt_inv_strip [wf_intros]: "bt_inv fs \<Longrightarrow> bt_inv (strip_fields fs)"
proof (induction fs)
  case (Cons p fs)
  obtain k v where p: "p = (k, v)" by fastforce
  from Cons fst_strip_fields [of fs] show ?case
    by (fastforce simp: p Let_def bt_inv_Cons)
qed simp

lemma wf_strip [wf_intros]:
  "wf_json v \<Longrightarrow> wf_json (strip_empty v)"
  "wf_values xs \<Longrightarrow> wf_values (strip_items xs)"
  "wf_fields fs \<Longrightarrow> wf_fields (strip_fields fs)"
  by (induction v and xs and fs rule: strip_empty_strip_items_strip_fields.induct)
    (auto simp: Let_def bt_inv_strip)

definition strip_opt :: "json \<Rightarrow> json option" where
  "strip_opt v = (let s = strip_empty v in if is_empty s then None else Some s)"

lemma get_strip_fields:
  "bt_inv fs \<Longrightarrow> bt_get (strip_fields fs) k = Option.bind (bt_get fs k) strip_opt"
proof (induction fs)
  case (Cons p fs)
  obtain k' v where p: "p = (k', v)" by fastforce
  have "k' \<notin> fst ` set fs" using Cons.prems by (auto simp: p bt_inv_Cons)
  then have "k' \<notin> fst ` set (strip_fields fs)" using fst_strip_fields by blast
  then have "map_of (strip_fields fs) k' = None" by (simp add: map_of_eq_None_iff)
  moreover have "bt_inv fs" using Cons.prems by (simp add: p bt_inv_Cons)
  ultimately show ?case
    using Cons.IH by (auto simp: p bt_get_def Let_def strip_opt_def)
qed (simp add: bt_get_def)

lemma strip_opt_str [simp]: "strip_opt (JStr s) = (if s = [] then None else Some (JStr s))"
  by (simp add: strip_opt_def)

section \<open>The signed envelope\<close>

definition effective_agent :: "complete_trace \<Rightarrow> trace_component \<Rightarrow> string" where
  "effective_agent t c =
     (if tc_agent_id_hash c = [] then ct_agent_id_hash t else tc_agent_id_hash c)"

definition canonical_component :: "complete_trace \<Rightarrow> trace_component \<Rightarrow> json" where
  "canonical_component t c = strip_empty (jobject
     [(''agent_id_hash'', JStr (effective_agent t c)),
      (''component_type'', JStr (component_wire (tc_component_type c))),
      (''data'', data_with_attempt_index c),
      (''event_type'', JStr (event_wire (tc_event_type c))),
      (''timestamp'', JStr (tc_timestamp c))])"

definition build_canonical_envelope :: "complete_trace \<Rightarrow> json" where
  "build_canonical_envelope t = jobject (
     [(''trace_id'', JStr (ct_trace_id t)),
      (''thought_id'', JStr (ct_thought_id t)),
      (''task_id'', jopt JStr (ct_task_id t)),
      (''agent_id_hash'', JStr (ct_agent_id_hash t)),
      (''started_at'', JStr (ct_started_at t)),
      (''completed_at'', jopt JStr (ct_completed_at t)),
      (''trace_level'', jopt JStr (ct_trace_level t)),
      (''trace_schema_version'', JStr (ct_trace_schema_version t)),
      (''components'', JArr (map (canonical_component t) (ct_components t)))]
     @ (case ct_deployment_profile t of None \<Rightarrow> [] | Some dp \<Rightarrow> [(''deployment_profile'', dp)]))"

text \<open>
  The code outside the repository: the canonicalizer selected for a schema version, base64
  (URL-safe, no padding) and Ed25519 verification.
\<close>

record 'vk crypto =
  cr_canonicalize :: "string \<Rightarrow> json \<Rightarrow> string + bytes"
  cr_encode :: "bytes \<Rightarrow> string"
  cr_decode :: "string \<Rightarrow> bytes option"
  cr_verify :: "'vk \<Rightarrow> bytes \<Rightarrow> bytes \<Rightarrow> bool"

definition canonical_bytes :: "'vk crypto \<Rightarrow> complete_trace \<Rightarrow> string + bytes" where
  "canonical_bytes cr t =
     map_err (\<lambda>e. ''canonicalize trace: '' @ e)
       (cr_canonicalize cr (ct_trace_schema_version t) (build_canonical_envelope t))"

definition encode_signature :: "'vk crypto \<Rightarrow> bytes \<Rightarrow> string" where
  "encode_signature cr sig = cr_encode cr sig"

definition apply_signature :: "'vk crypto \<Rightarrow> bytes \<Rightarrow> string \<Rightarrow> complete_trace \<Rightarrow> complete_trace" where
  "apply_signature cr sig key_id t =
     t\<lparr>ct_signature := Some (encode_signature cr sig), ct_signature_key_id := Some key_id\<rparr>"

definition verify_trace_signature :: "'vk crypto \<Rightarrow> complete_trace \<Rightarrow> 'vk \<Rightarrow> bool" where
  "verify_trace_signature cr t vk =
     (case ct_signature t of
        None \<Rightarrow> False
      | Some sig_b64 \<Rightarrow>
          (case cr_decode cr sig_b64 of
             None \<Rightarrow> False
           | Some raw \<Rightarrow>
               if length raw \<noteq> 64 then False
               else (case canonical_bytes cr t of
                       Inl _ \<Rightarrow> False
                     | Inr message \<Rightarrow> cr_verify cr vk message raw)))"

datatype 'e seal_error = Canonicalize string | Sign 'e

text \<open>The host signer: its signing function (which may fail) and its key id.\<close>

record 'e signer =
  sg_sign :: "bytes \<Rightarrow> 'e + bytes"
  sg_key_id :: string

definition sign_trace ::
  "'vk crypto \<Rightarrow> 'e signer \<Rightarrow> complete_trace \<Rightarrow> 'e seal_error + complete_trace" where
  "sign_trace cr sg t =
     rbind (map_err Canonicalize (canonical_bytes cr t)) (\<lambda>bytes.
     rbind (map_err Sign (sg_sign sg bytes)) (\<lambda>sig.
     Inr (apply_signature cr sig (sg_key_id sg) t)))"

section \<open>Lemmas\<close>

lemma envelope_get:
  "jget (build_canonical_envelope t) k =
     (if k = ''trace_id'' then Some (JStr (ct_trace_id t))
      else if k = ''thought_id'' then Some (JStr (ct_thought_id t))
      else if k = ''task_id'' then Some (jopt JStr (ct_task_id t))
      else if k = ''agent_id_hash'' then Some (JStr (ct_agent_id_hash t))
      else if k = ''started_at'' then Some (JStr (ct_started_at t))
      else if k = ''completed_at'' then Some (jopt JStr (ct_completed_at t))
      else if k = ''trace_level'' then Some (jopt JStr (ct_trace_level t))
      else if k = ''trace_schema_version'' then Some (JStr (ct_trace_schema_version t))
      else if k = ''components'' then Some (JArr (map (canonical_component t) (ct_components t)))
      else if k = ''deployment_profile'' then ct_deployment_profile t
      else None)"
  unfolding build_canonical_envelope_def
  by (subst jget_jobject) (auto split: option.split)

lemma jopt_JStr_inj [simp]: "jopt JStr a = jopt JStr b \<longleftrightarrow> a = b"
  by (cases a; cases b) (auto simp: jopt_def)

lemma j_of_u32_inj [simp]: "j_of_u32 a = j_of_u32 b \<longleftrightarrow> a = b"
  by (simp add: j_of_u32_def)

lemma strip_opt_data: "strip_opt (data_with_attempt_index c) = Some (strip_empty (data_with_attempt_index c))
   \<or> \<not> wf_json (tc_data c)"
proof -
  define m where "m = (case tc_data c of JObj fs \<Rightarrow> fs | _ \<Rightarrow> [])"
  have "bt_get (bt_put ''attempt_index'' (j_of_u32 (tc_attempt_index c)) m) ''attempt_index''
      = Some (j_of_u32 (tc_attempt_index c))"
    by (simp add: bt_get_put)
  moreover have "wf_json (tc_data c) \<Longrightarrow> bt_inv m"
    by (cases "tc_data c") (auto simp: m_def bt_inv_def)
  ultimately have "wf_json (tc_data c) \<Longrightarrow>
      bt_get (strip_fields (bt_put ''attempt_index'' (j_of_u32 (tc_attempt_index c)) m)) ''attempt_index''
      = Some (j_of_u32 (tc_attempt_index c))"
    by (simp add: get_strip_fields bt_inv_put strip_opt_def j_of_u32_def)
  then show ?thesis
    unfolding strip_opt_def data_with_attempt_index_def Let_def m_def [symmetric]
    by (auto simp: bt_get_def)
qed

lemma stripped_attempt_index:
  assumes "wf_json (tc_data c)"
  shows "jget (strip_empty (data_with_attempt_index c)) ''attempt_index''
           = Some (j_of_u32 (tc_attempt_index c))"
proof -
  have "bt_inv (case tc_data c of JObj fs \<Rightarrow> fs | _ \<Rightarrow> [])"
    using assms by (cases "tc_data c") (auto simp: bt_inv_def)
  then show ?thesis
    by (simp add: data_with_attempt_index_def Let_def get_strip_fields bt_inv_put bt_get_put
        strip_opt_def j_of_u32_def)
qed

lemma component_get:
  assumes "wf_json (tc_data c)"
  shows "jget (canonical_component t c) k =
     (if k = ''agent_id_hash'' then strip_opt (JStr (effective_agent t c))
      else if k = ''component_type'' then Some (JStr (component_wire (tc_component_type c)))
      else if k = ''data'' then Some (strip_empty (data_with_attempt_index c))
      else if k = ''event_type'' then Some (JStr (event_wire (tc_event_type c)))
      else if k = ''timestamp'' then strip_opt (JStr (tc_timestamp c))
      else None)"
proof -
  have "component_wire x \<noteq> []" for x by (cases x) simp_all
  moreover have "event_wire y \<noteq> []" for y by (cases y) simp_all
  ultimately show ?thesis using strip_opt_data [of c] assms
    by (simp add: canonical_component_def jobject_def get_strip_fields bt_inv_of bt_get_of_distinct)
qed

text \<open>What the signature commits to for one component.\<close>

lemma component_binding:
  assumes "wf_json (tc_data c)" "wf_json (tc_data d)"
    and "canonical_component t c = canonical_component u d"
  shows "tc_component_type c = tc_component_type d \<and> tc_event_type c = tc_event_type d
    \<and> tc_timestamp c = tc_timestamp d \<and> tc_attempt_index c = tc_attempt_index d
    \<and> effective_agent t c = effective_agent u d
    \<and> strip_empty (data_with_attempt_index c) = strip_empty (data_with_attempt_index d)"
proof -
  have eq: "jget (canonical_component t c) k = jget (canonical_component u d) k" for k
    using assms(3) by simp
  note get = component_get [OF assms(1), of t] component_get [OF assms(2), of u]
  have ct: "component_wire (tc_component_type c) = component_wire (tc_component_type d)"
    using eq [of "''component_type''"] unfolding get by simp
  have et: "event_wire (tc_event_type c) = event_wire (tc_event_type d)"
    using eq [of "''event_type''"] unfolding get by simp
  have dt: "strip_empty (data_with_attempt_index c) = strip_empty (data_with_attempt_index d)"
    using eq [of "''data''"] unfolding get by simp
  have ts: "tc_timestamp c = tc_timestamp d"
    using eq [of "''timestamp''"] unfolding get by (simp split: if_splits)
  have ag: "effective_agent t c = effective_agent u d"
    using eq [of "''agent_id_hash''"] unfolding get by (simp split: if_splits)
  have "j_of_u32 (tc_attempt_index c) = j_of_u32 (tc_attempt_index d)"
    using stripped_attempt_index [OF assms(1)] stripped_attempt_index [OF assms(2)] dt by simp
  with ct et dt ts ag show ?thesis by (simp add: ev.wire_eq_iff cmp.wire_eq_iff)
qed

lemma component_apply_signature [simp]:
  "canonical_component (apply_signature cr sig key_id t) = canonical_component t"
  by (rule ext) (simp add: apply_signature_def canonical_component_def effective_agent_def)

lemma envelope_apply_signature [simp]:
  "build_canonical_envelope (apply_signature cr sig key_id t) = build_canonical_envelope t"
  by (simp add: build_canonical_envelope_def) (simp add: apply_signature_def)

lemma canonical_bytes_apply_signature [simp]:
  "canonical_bytes cr (apply_signature cr' sig key_id t) = canonical_bytes cr t"
  by (simp add: canonical_bytes_def) (simp add: apply_signature_def)


section \<open>Properties\<close>

definition trace_wf :: "complete_trace \<Rightarrow> bool" where
  "trace_wf t = (\<forall>c \<in> set (ct_components t). wf_json (tc_data c))"




text \<open>A toy canonicalizer and signature scheme, to instantiate the parameters.\<close>

fun toy_text :: "json \<Rightarrow> bytes" where
  "toy_text v = [of_nat (size v)]"

definition toy_crypto :: "unit crypto" where
  "toy_crypto = \<lparr>cr_canonicalize = \<lambda>ver v. if v = JNull then Inl [] else Inr (toy_text v),
     cr_encode = map (\<lambda>b. char_of (unat b)), cr_decode = \<lambda>s. Some (map (\<lambda>c. of_nat (of_char c)) s),
     cr_verify = \<lambda>_ m sig. sig = replicate 63 0 @ m\<rparr>"

definition demo_trace :: complete_trace where
  "demo_trace = \<lparr>ct_trace_id = ''t'', ct_thought_id = ''a'', ct_task_id = None,
     ct_agent_id_hash = ''g'', ct_started_at = ''1'', ct_completed_at = Some ''2'',
     ct_components = [mk_component (demo_event ''ACTION_RESULT'' ''a'' ''2'') ActionResult 0],
     ct_signature = None, ct_signature_key_id = None, ct_trace_level = None,
     ct_trace_schema_version = trace_schema_version, ct_deployment_profile = None\<rparr>"


text \<open>
  C21: sign-then-verify round trip. A trace that \<open>sign_trace\<close> seals verifies under the
  signer's public key, carries the signer's key id, and differs from the input in the two
  signature fields only; the hypotheses are the documented contracts of base64 and Ed25519.
\<close>

theorem sign_then_verify:
  assumes "sign_trace cr sg t = Inr t'"
    and "\<And>b. cr_decode cr (cr_encode cr b) = Some b"
    and "\<And>m s. sg_sign sg m = Inr s \<Longrightarrow> length s = 64 \<and> cr_verify cr vk m s"
  shows "verify_trace_signature cr t' vk \<and> ct_signature_key_id t' = Some (sg_key_id sg)
    \<and> t'\<lparr>ct_signature := ct_signature t, ct_signature_key_id := ct_signature_key_id t\<rparr> = t"
proof -
  obtain m s where ms: "canonical_bytes cr t = Inr m" "sg_sign sg m = Inr s"
      "t' = apply_signature cr s (sg_key_id sg) t"
    using assms(1) by (auto simp: sign_trace_def rbind_eq_Inr_iff)
  have "canonical_bytes cr t' = Inr m" using ms by simp
  with ms assms(2,3) show ?thesis
    by (simp add: verify_trace_signature_def apply_signature_def encode_signature_def)
qed

lemma sign_then_verify_witness:
  "\<exists>t'. sign_trace toy_crypto \<lparr>sg_sign = \<lambda>m. if length m = 1 then Inr (replicate 63 0 @ m) else Inl (),
      sg_key_id = ''key''\<rparr> demo_trace = Inr t' \<and> verify_trace_signature toy_crypto t' ()"
proof -
  define sg :: "unit signer" where
    "sg = \<lparr>sg_sign = \<lambda>m. if length m = 1 then Inr (replicate 63 0 @ m) else Inl (), sg_key_id = ''key''\<rparr>"
  obtain t' where t': "sign_trace toy_crypto sg demo_trace = Inr t'"
    by (auto simp: sign_trace_def toy_crypto_def sg_def canonical_bytes_def build_canonical_envelope_def
        jobject_def)
  have rt: "cr_decode toy_crypto (cr_encode toy_crypto b) = Some b" for b
    by (simp add: toy_crypto_def comp_def)
  have "verify_trace_signature toy_crypto t' ()"
    by (rule sign_then_verify [OF t' rt, THEN conjunct1])
      (auto simp: sg_def toy_crypto_def split: if_splits)
  with t' show ?thesis by (auto simp: sg_def)
qed

text \<open>
  Verification fails closed: a trace verifies only if it carries a signature that
  decodes to 64 bytes which the key accepts for the bytes recomputed from the trace itself;
  an unsigned trace, an undecodable or short signature, or a canonicalization error is a
  rejection.
\<close>

lemma verify_fails_closed:
  "verify_trace_signature cr t vk \<longleftrightarrow>
     (\<exists>s raw m. ct_signature t = Some s \<and> cr_decode cr s = Some raw \<and> length raw = 64
        \<and> canonical_bytes cr t = Inr m \<and> cr_verify cr vk m raw)"
  by (auto simp: verify_trace_signature_def split: option.splits sum.splits)

end
