(* ===== verification/Batch.thy ===== *)
theory Batch
  imports Seal
begin

text \<open>
  \<open>src/src/capture/batch.rs\<close>: wrapping signed traces into the outbound batch. The byte
  serializer of \<open>serde_json\<close> is the parameter \<open>to_vec\<close>.
\<close>

record batch_provenance =
  bp_batch_timestamp :: string
  bp_consent_timestamp :: string
  bp_trace_level :: string
  bp_trace_schema_version :: string
  bp_correlation_metadata :: "json option"

datatype batch_error = EmptyBatch | UnsignedTrace string | Serialize string

definition trace_to_wire_json :: "complete_trace \<Rightarrow> json" where
  "trace_to_wire_json t =
     (case build_canonical_envelope t of
        JObj m \<Rightarrow> JObj (bt_put ''signature_key_id'' (jopt JStr (ct_signature_key_id t))
                    (bt_put ''signature'' (jopt JStr (ct_signature t)) m))
      | other \<Rightarrow> other)"

definition batch_event :: "batch_provenance \<Rightarrow> complete_trace \<Rightarrow> json" where
  "batch_event p t = jobject
     [(''event_type'', JStr ''complete_trace''),
      (''trace_level'', JStr (bp_trace_level p)),
      (''trace'', trace_to_wire_json t)]"

fun batch_events :: "batch_provenance \<Rightarrow> complete_trace list \<Rightarrow> batch_error + json list" where
  "batch_events p [] = Inr []"
| "batch_events p (t # ts) =
     (if ct_signature t = None \<or> ct_signature_key_id t = None then Inl (UnsignedTrace (ct_trace_id t))
      else rbind (batch_events p ts) (\<lambda>evs. Inr (batch_event p t # evs)))"

definition batch_envelope :: "batch_provenance \<Rightarrow> json list \<Rightarrow> json" where
  "batch_envelope p events = jobject (
     [(''events'', JArr events),
      (''batch_timestamp'', JStr (bp_batch_timestamp p)),
      (''consent_timestamp'', JStr (bp_consent_timestamp p)),
      (''trace_level'', JStr (bp_trace_level p)),
      (''trace_schema_version'', JStr (bp_trace_schema_version p))]
     @ (case bp_correlation_metadata p of None \<Rightarrow> [] | Some cm \<Rightarrow> [(''correlation_metadata'', cm)]))"

definition build_batch_bytes ::
  "(json \<Rightarrow> string + bytes) \<Rightarrow> complete_trace list \<Rightarrow> batch_provenance \<Rightarrow> batch_error + bytes" where
  "build_batch_bytes to_vec ts p =
     (if ts = [] then Inl EmptyBatch
      else rbind (batch_events p ts) (\<lambda>evs. map_err Serialize (to_vec (batch_envelope p evs))))"

section \<open>Lemmas\<close>

definition is_signed :: "complete_trace \<Rightarrow> bool" where
  "is_signed t = (ct_signature t \<noteq> None \<and> ct_signature_key_id t \<noteq> None)"

lemma is_signed_apply [simp]: "is_signed (apply_signature cr sig k t)"
  by (simp add: is_signed_def apply_signature_def)

lemma batch_events_signed: "\<forall>t \<in> set ts. is_signed t \<Longrightarrow> batch_events p ts = Inr (map (batch_event p) ts)"
  by (induction ts) (auto simp: is_signed_def)

lemma batch_events_unsigned:
  "batch_events p (as @ t # bs) = Inl (UnsignedTrace (ct_trace_id t))"
  if "\<forall>x \<in> set as. is_signed x" "\<not> is_signed t"
  using that by (induction as) (auto simp: is_signed_def)

lemma envelope_fields: "\<exists>m. build_canonical_envelope t = JObj m \<and> bt_inv m"
  by (simp add: build_canonical_envelope_def jobject_def bt_inv_of)

text \<open>Removing the two signature fields from the wire trace leaves the signed envelope.\<close>

fun without_signature :: "json \<Rightarrow> json" where
  "without_signature (JObj m) = JObj (bt_del ''signature'' (bt_del ''signature_key_id'' m))"
| "without_signature v = v"

lemma without_signature_wire: "without_signature (trace_to_wire_json t) = build_canonical_envelope t"
proof -
  obtain m where m: "build_canonical_envelope t = JObj m" "bt_inv m"
    using envelope_fields by blast
  have none: "bt_get m ''signature'' = None" "bt_get m ''signature_key_id'' = None"
    using envelope_get [of t "''signature''"] envelope_get [of t "''signature_key_id''"]
    by (simp_all add: m(1))
  let ?w = "bt_put ''signature_key_id'' (jopt JStr (ct_signature_key_id t))
              (bt_put ''signature'' (jopt JStr (ct_signature t)) m)"
  have "bt_inv ?w" by (simp add: m bt_inv_put)
  then have "bt_del ''signature'' (bt_del ''signature_key_id'' ?w) = m"
    using none m(2) by (intro bt_ext) (auto simp: bt_facts fun_eq_iff)
  then show ?thesis by (simp add: trace_to_wire_json_def m(1))
qed

lemma wire_get:
  "jget (trace_to_wire_json t) k =
     (if k = ''signature_key_id'' then Some (jopt JStr (ct_signature_key_id t))
      else if k = ''signature'' then Some (jopt JStr (ct_signature t))
      else jget (build_canonical_envelope t) k)"
proof -
  obtain m where m: "build_canonical_envelope t = JObj m" "bt_inv m"
    using envelope_fields by blast
  then show ?thesis by (simp add: trace_to_wire_json_def bt_facts bt_inv_put)
qed

lemma batch_envelope_get:
  "jget (batch_envelope p evs) k =
     (if k = ''events'' then Some (JArr evs)
      else if k = ''batch_timestamp'' then Some (JStr (bp_batch_timestamp p))
      else if k = ''consent_timestamp'' then Some (JStr (bp_consent_timestamp p))
      else if k = ''trace_level'' then Some (JStr (bp_trace_level p))
      else if k = ''trace_schema_version'' then Some (JStr (bp_trace_schema_version p))
      else if k = ''correlation_metadata'' then bp_correlation_metadata p
      else None)"
  unfolding batch_envelope_def by (subst jget_jobject) (auto split: option.split)

section \<open>Properties\<close>

text \<open>
  C28: what a batch carries. Building fails exactly on an empty list or on the first trace
  without signature; otherwise the bytes are the serialized envelope whose events are the
  wire traces in order. In each wire trace the two signature fields ride on top: taking
  them away leaves exactly the value that was signed.
\<close>

theorem batch_carries_signed_envelopes:
  "build_batch_bytes to_vec [] p = Inl EmptyBatch
   \<and> (\<forall>as t bs. ts = as @ t # bs \<longrightarrow> (\<forall>x \<in> set as. is_signed x) \<longrightarrow> \<not> is_signed t \<longrightarrow>
        build_batch_bytes to_vec ts p = Inl (UnsignedTrace (ct_trace_id t)))
   \<and> (ts \<noteq> [] \<longrightarrow> (\<forall>t \<in> set ts. is_signed t) \<longrightarrow>
        build_batch_bytes to_vec ts p
          = map_err Serialize (to_vec (batch_envelope p (map (batch_event p) ts))))
   \<and> jget (batch_event p t) ''trace'' = Some (trace_to_wire_json t)
   \<and> without_signature (trace_to_wire_json t) = build_canonical_envelope t
   \<and> jget (trace_to_wire_json t) ''signature'' = Some (jopt JStr (ct_signature t))"
  by (auto simp: build_batch_bytes_def batch_events_signed batch_events_unsigned
      without_signature_wire wire_get batch_event_def jget_jobject)

definition demo_provenance :: batch_provenance where
  "demo_provenance = \<lparr>bp_batch_timestamp = ''3'', bp_consent_timestamp = ''0'',
     bp_trace_level = ''generic'', bp_trace_schema_version = trace_schema_version,
     bp_correlation_metadata = None\<rparr>"

lemma batch_carries_signed_envelopes_witness:
  "build_batch_bytes (\<lambda>v. Inr (toy_text v)) [apply_signature toy_crypto [] ''k'' demo_trace, demo_trace] demo_provenance
     = Inl (UnsignedTrace ''t'')"
proof -
  have "is_signed (apply_signature toy_crypto [] ''k'' demo_trace)" by simp
  moreover have "\<not> is_signed demo_trace" by (simp add: demo_trace_def is_signed_def)
  moreover have "ct_trace_id demo_trace = ''t''" by (simp add: demo_trace_def)
  ultimately show ?thesis
    using batch_carries_signed_envelopes
      [of "\<lambda>v. Inr (toy_text v)" demo_provenance "[apply_signature toy_crypto [] ''k'' demo_trace, demo_trace]"]
    by (metis append_Cons append_Nil empty_iff list.set(1) set_ConsD)
qed

end
