(* ===== verification/Consent.thy ===== *)
theory Consent
  imports Json "HOL-Library.Product_Lexorder"
begin

text \<open>
  \<open>src/src/capture/consent.rs\<close>: the consent gate. The newest attestation row on the consent
  dimension decides; operator configuration is consulted only when there is none. Rows come
  from the persistence crate's federation directory, which is a parameter; of its
  \<open>Attestation\<close> struct the record below has the fields the code reads.
\<close>

definition consent_dimension :: string where
  "consent_dimension = ''consent:community_trust:v1''"

record attestation =
  at_id :: string
  at_type :: string
  at_asserted_at :: instant
  at_envelope :: json

datatype grant_state = InForce instant | GrantWithdrawn instant | Absent

record consent_config =
  cc_consent_timestamp :: "string option"

definition effective_timestamp :: "consent_config \<Rightarrow> string option" where
  "effective_timestamp cfg =
     (case cc_consent_timestamp cfg of
        None \<Rightarrow> None | Some s \<Rightarrow> if s = [] then None else Some s)"

datatype consent_resolution =
    CegGrant instant
  | ConfigFallback string
  | ConsentWithdrawn instant
  | NoConsent

datatype 'e consent_error = Directory 'e

definition on_dimension :: "attestation \<Rightarrow> bool" where
  "on_dimension a =
     (Option.bind (jget (at_envelope a) ''dimension'') as_str = Some consent_dimension)"

definition recency :: "attestation \<Rightarrow> instant \<times> string" where
  "recency a = (at_asserted_at a, at_id a)"

text \<open>A stable sort, newest first by \<open>(asserted_at, attestation_id)\<close>.\<close>

definition sort_newest :: "attestation list \<Rightarrow> attestation list" where
  "sort_newest rows = rev (sort_key recency (rev rows))"

definition grant_of_row :: "attestation \<Rightarrow> grant_state" where
  "grant_of_row a =
     (if at_type a = ''scores'' \<or> at_type a = ''supersedes'' then InForce (at_asserted_at a)
      else if at_type a = ''withdraws'' \<or> at_type a = ''recants'' then GrantWithdrawn (at_asserted_at a)
      else Absent)"

definition resolve_grant :: "attestation list \<Rightarrow> grant_state" where
  "resolve_grant rows =
     (let matching = filter on_dimension rows in
      if matching = [] then Absent else grant_of_row (hd (sort_newest matching)))"

definition resolve_consent :: "grant_state \<Rightarrow> consent_config \<Rightarrow> consent_resolution" where
  "resolve_consent grant cfg =
     (case grant of
        InForce t \<Rightarrow> CegGrant t
      | GrantWithdrawn t \<Rightarrow> ConsentWithdrawn t
      | Absent \<Rightarrow> (case effective_timestamp cfg of Some ts \<Rightarrow> ConfigFallback ts | None \<Rightarrow> NoConsent))"

text \<open>The directory read of the persistence engine is the parameter \<open>list_by\<close>.\<close>

definition resolve_consent_via_engine ::
  "(string \<Rightarrow> 'e + attestation list) \<Rightarrow> string \<Rightarrow> consent_config \<Rightarrow> 'e consent_error + consent_resolution" where
  "resolve_consent_via_engine list_by key cfg =
     rbind (map_err Directory (list_by key)) (\<lambda>rows. Inr (resolve_consent (resolve_grant rows) cfg))"

section \<open>Lemmas\<close>

lemma set_sort_newest [simp]: "set (sort_newest rows) = set rows"
  by (simp add: sort_newest_def)

lemma sort_newest_Nil_iff [simp]: "sort_newest rows = [] \<longleftrightarrow> rows = []"
  by (metis set_empty set_sort_newest)

lemma newest_in: "rows \<noteq> [] \<Longrightarrow> hd (sort_newest rows) \<in> set rows"
  by (metis hd_in_set set_sort_newest sort_newest_Nil_iff)

lemma newest_max: "a \<in> set rows \<Longrightarrow> recency a \<le> recency (hd (sort_newest rows))"
proof -
  assume a: "a \<in> set rows"
  define xs where "xs = sort_key recency (rev rows)"
  have "a \<in> set xs" using a by (simp add: xs_def)
  then have xs: "xs = butlast xs @ [last xs]" by (metis append_butlast_last_id empty_iff list.set(1))
  have "sorted (map recency (butlast xs @ [last xs]))" unfolding xs [symmetric] by (simp add: xs_def)
  moreover have "a \<in> set (butlast xs @ [last xs])" unfolding xs [symmetric] by fact
  ultimately have "recency a \<le> recency (last xs)" by (auto simp: sorted_append)
  then show ?thesis by (simp add: sort_newest_def hd_rev xs_def)
qed

text \<open>The rows that can be the newest word: no other row on the dimension is more recent.\<close>

definition newest_word :: "attestation list \<Rightarrow> attestation \<Rightarrow> bool" where
  "newest_word rows a =
     (a \<in> set rows \<and> on_dimension a \<and> (\<forall>b \<in> set rows. on_dimension b \<longrightarrow> recency b \<le> recency a))"

lemma resolve_grant_newest:
  assumes "newest_word rows a"
    and "\<And>b c. b \<in> set rows \<Longrightarrow> c \<in> set rows \<Longrightarrow> at_id b = at_id c \<Longrightarrow> b = c"
  shows "resolve_grant rows = grant_of_row a"
proof -
  define h where "h = hd (sort_newest (filter on_dimension rows))"
  have a: "a \<in> set (filter on_dimension rows)" using assms(1) by (simp add: newest_word_def)
  then have ne: "filter on_dimension rows \<noteq> []" by (metis empty_iff list.set(1))
  then have h: "h \<in> set (filter on_dimension rows)" unfolding h_def by (rule newest_in)
  have "recency a \<le> recency h" unfolding h_def by (rule newest_max [OF a])
  moreover have "recency h \<le> recency a" using assms(1) h by (auto simp: newest_word_def)
  ultimately have "recency a = recency h" by (rule antisym)
  then have "at_id a = at_id h" by (simp add: recency_def)
  with assms(2) a h have "a = h" by auto
  with ne show ?thesis by (simp add: resolve_grant_def Let_def h_def)
qed

lemma resolve_grant_none: "(\<And>a. a \<in> set rows \<Longrightarrow> \<not> on_dimension a) \<Longrightarrow> resolve_grant rows = Absent"
  by (simp add: resolve_grant_def)

lemma exists_newest:
  assumes "\<exists>a \<in> set rows. on_dimension a"
  shows "\<exists>a. newest_word rows a"
proof -
  have ne: "filter on_dimension rows \<noteq> []" using assms by (auto simp: filter_empty_conv)
  from newest_in [OF ne] newest_max [of _ "filter on_dimension rows"] show ?thesis
    by (auto simp: newest_word_def)
qed

lemma grant_row_cases:
  "resolve_consent (grant_of_row a) cfg = ConsentWithdrawn t \<longleftrightarrow>
     at_type a \<in> {''withdraws'', ''recants''} \<and> t = at_asserted_at a"
  by (auto simp: grant_of_row_def resolve_consent_def split: option.splits)

section \<open>Properties\<close>

text \<open>
  A withdrawal is final. When the newest row on the consent dimension (by assertion
  time, then id) is a \<open>withdraws\<close> or \<open>recants\<close>, the resolution is \<open>Withdrawn\<close> at that row's
  time, whatever the configuration says, whatever the other rows are and in whatever order
  the directory lists them.
\<close>

lemma withdrawal_never_falls_back:
  assumes "newest_word rows a" "at_type a \<in> {''withdraws'', ''recants''}"
    and "\<And>b c. b \<in> set rows \<Longrightarrow> c \<in> set rows \<Longrightarrow> at_id b = at_id c \<Longrightarrow> b = c"
    and "mset rows' = mset rows" "list_by key = Inr rows'"
  shows "resolve_consent_via_engine list_by key cfg = Inr (ConsentWithdrawn (at_asserted_at a))"
proof -
  have set: "set rows' = set rows" using assms(4) by (rule mset_eq_setD)
  have "newest_word rows' a" using assms(1) by (simp add: newest_word_def set)
  then have "resolve_grant rows' = grant_of_row a"
    by (rule resolve_grant_newest) (use assms(3) in \<open>auto simp: set\<close>)
  then show ?thesis
    using assms(2,5) by (simp add: resolve_consent_via_engine_def grant_row_cases)
qed

definition demo_row :: "string \<Rightarrow> string \<Rightarrow> instant \<Rightarrow> attestation" where
  "demo_row i ty t = \<lparr>at_id = i, at_type = ty, at_asserted_at = t,
     at_envelope = jobject [(''dimension'', JStr consent_dimension)]\<rparr>"

lemma withdrawal_never_falls_back_witness:
  "resolve_consent_via_engine (\<lambda>_. Inr [demo_row ''1'' ''scores'' 5, demo_row ''2'' ''recants'' 9] :: unit + _)
     ''key'' \<lparr>cc_consent_timestamp = Some ''2026''\<rparr> = Inr (ConsentWithdrawn 9)"
proof -
  have "on_dimension (demo_row i ty t)" for i ty t
    by (simp add: on_dimension_def demo_row_def jget_jobject)
  then have nw: "newest_word [demo_row ''1'' ''scores'' 5, demo_row ''2'' ''recants'' 9]
      (demo_row ''2'' ''recants'' 9)"
    by (simp add: newest_word_def) (simp add: recency_def demo_row_def)
  have "resolve_consent_via_engine (\<lambda>_. Inr [demo_row ''1'' ''scores'' 5, demo_row ''2'' ''recants'' 9] :: unit + _)
     ''key'' \<lparr>cc_consent_timestamp = Some ''2026''\<rparr>
     = Inr (ConsentWithdrawn (at_asserted_at (demo_row ''2'' ''recants'' 9)))"
    by (rule withdrawal_never_falls_back [OF nw]) (auto simp: demo_row_def)
  then show ?thesis by (simp add: demo_row_def)
qed



text \<open>
  A row of a type the code does not know hides an earlier withdrawal: the newest row then
  counts as absent, and the configured timestamp grants consent again.
\<close>

lemma unknown_type_revives_config:
  "resolve_consent (resolve_grant [demo_row ''1'' ''withdraws'' 5, demo_row ''2'' ''amends'' 9])
     \<lparr>cc_consent_timestamp = Some ''2026''\<rparr> = ConfigFallback ''2026''"
  by code_simp

end
