(* ===== verification/Correlation.thy ===== *)
theory Correlation
  imports Json
begin

text \<open>
  \<open>src/src/capture/correlation.rs\<close>: the correlation block of a batch. Coordinates are
  coarsened to one decimal when the block is built, and all location fields depend on the
  \<open>share_location\<close> switch.
\<close>

definition pii_location_fuzz_decimals :: nat where
  "pii_location_fuzz_decimals = 1"

text \<open>
  \<open>format!("{:.p}", x)\<close>: the exact magnitude scaled by 10 ^ p, rounded half to even, with the
  sign of \<open>x\<close> (also of a negative zero).
\<close>

definition scaled :: "nat \<Rightarrow> rat \<Rightarrow> nat" where
  "scaled p m = nat (rne (10 ^ p * m))"

definition pad_left :: "nat \<Rightarrow> string \<Rightarrow> string" where
  "pad_left n s = replicate (n - length s) (CHR ''0'') @ s"

fun format_fixed :: "nat \<Rightarrow> f64 \<Rightarrow> string" where
  "format_fixed p NaN = ''NaN''"
| "format_fixed p (Inf s) = (if s then ''-inf'' else ''inf'')"
| "format_fixed p (Fin s m) =
     (if s then ''-'' else []) @ show_nat (scaled p m div 10 ^ p)
     @ (if p = 0 then [] else ''.'' @ pad_left p (show_nat (scaled p m mod 10 ^ p)))"

definition fuzz_location_to_region :: "f64 \<Rightarrow> string" where
  "fuzz_location_to_region x = format_fixed pii_location_fuzz_decimals x"

record correlation_metadata =
  cm_deployment_region :: "string option"
  cm_deployment_type :: "string option"
  cm_agent_role :: "string option"
  cm_agent_template :: "string option"
  cm_user_location :: "string option"
  cm_user_timezone :: "string option"
  cm_user_latitude :: "string option"
  cm_user_longitude :: "string option"

definition none_if_empty :: "string \<Rightarrow> string option" where
  "none_if_empty s = (if s = [] then None else Some s)"

definition correlation_build ::
  "string \<Rightarrow> string \<Rightarrow> string \<Rightarrow> string \<Rightarrow> bool \<Rightarrow> string \<Rightarrow> string \<Rightarrow> f64 option \<Rightarrow> f64 option \<Rightarrow> correlation_metadata" where
  "correlation_build region ty role tmpl share loc tz lat lng =
     \<lparr>cm_deployment_region = none_if_empty region,
      cm_deployment_type = none_if_empty ty,
      cm_agent_role = none_if_empty role,
      cm_agent_template = none_if_empty tmpl,
      cm_user_location = (if share then none_if_empty loc else None),
      cm_user_timezone = (if share then none_if_empty tz else None),
      cm_user_latitude = (if share then map_option fuzz_location_to_region lat else None),
      cm_user_longitude = (if share then map_option fuzz_location_to_region lng else None)\<rparr>"

definition correlation_is_empty :: "correlation_metadata \<Rightarrow> bool" where
  "correlation_is_empty c =
     (cm_deployment_region c = None \<and> cm_deployment_type c = None \<and> cm_agent_role c = None
      \<and> cm_agent_template c = None \<and> cm_user_location c = None \<and> cm_user_timezone c = None
      \<and> cm_user_latitude c = None \<and> cm_user_longitude c = None)"

text \<open>The serializer omits absent fields.\<close>

definition some_field :: "string \<Rightarrow> string option \<Rightarrow> fields" where
  "some_field k v = (case v of None \<Rightarrow> [] | Some s \<Rightarrow> [(k, JStr s)])"

definition correlation_to_value :: "correlation_metadata \<Rightarrow> json" where
  "correlation_to_value c = jobject
     (some_field ''deployment_region'' (cm_deployment_region c)
      @ some_field ''deployment_type'' (cm_deployment_type c)
      @ some_field ''agent_role'' (cm_agent_role c)
      @ some_field ''agent_template'' (cm_agent_template c)
      @ some_field ''user_location'' (cm_user_location c)
      @ some_field ''user_timezone'' (cm_user_timezone c)
      @ some_field ''user_latitude'' (cm_user_latitude c)
      @ some_field ''user_longitude'' (cm_user_longitude c))"

section \<open>Lemmas\<close>

lemma some_field_simps [simp]:
  "some_field k None = []" "some_field k (Some s) = [(k, JStr s)]"
  by (simp_all add: some_field_def)

lemma fst_some_field: "fst ` set (some_field k v) \<subseteq> {k}"
  by (cases v) auto

lemma map_of_some_field: "map_of (some_field k v @ m) k' = (if k' = k \<and> v \<noteq> None then map_option JStr v else map_of m k')"
  by (cases v) auto

lemma distinct_some_field:
  "distinct (map fst (some_field k v @ m)) \<longleftrightarrow> (v = None \<or> k \<notin> fst ` set m) \<and> distinct (map fst m)"
  by (cases v) auto

lemma mem_some_field: "k' \<in> fst ` set (some_field k v @ m) \<longleftrightarrow> k' = k \<and> v \<noteq> None \<or> k' \<in> fst ` set m"
  by (cases v) auto

lemma correlation_fields_distinct:
  "distinct (map fst (some_field ''deployment_region'' a @ some_field ''deployment_type'' b
      @ some_field ''agent_role'' c @ some_field ''agent_template'' d @ some_field ''user_location'' e
      @ some_field ''user_timezone'' f @ some_field ''user_latitude'' g @ some_field ''user_longitude'' h))"
proof -
  have d: "distinct (map fst (some_field k v))" "k' \<in> fst ` set (some_field k v) \<longleftrightarrow> k' = k \<and> v \<noteq> None"
    for k k' v by (cases v; auto)+
  show ?thesis by (simp only: distinct_some_field mem_some_field d) simp
qed

lemma correlation_get:
  "jget (correlation_to_value c) k =
     (if k = ''deployment_region'' then map_option JStr (cm_deployment_region c)
      else if k = ''deployment_type'' then map_option JStr (cm_deployment_type c)
      else if k = ''agent_role'' then map_option JStr (cm_agent_role c)
      else if k = ''agent_template'' then map_option JStr (cm_agent_template c)
      else if k = ''user_location'' then map_option JStr (cm_user_location c)
      else if k = ''user_timezone'' then map_option JStr (cm_user_timezone c)
      else if k = ''user_latitude'' then map_option JStr (cm_user_latitude c)
      else if k = ''user_longitude'' then map_option JStr (cm_user_longitude c)
      else None)"
proof -
  have "map_of (some_field k v) k' = (if k' = k then map_option JStr v else None)" for k v k'
    by (cases v) auto
  then show ?thesis
    unfolding correlation_to_value_def
    by (subst jget_jobject [OF correlation_fields_distinct]) (simp only: map_of_some_field, auto)
qed

lemma wf_correlation [wf_intros]: "wf_json (correlation_to_value c)"
  unfolding correlation_to_value_def
  by (rule wf_jobject) (auto simp: some_field_def split: option.splits)

lemma correlation_empty_iff: "correlation_is_empty c \<longleftrightarrow> correlation_to_value c = JObj []"
proof
  assume "correlation_is_empty c"
  then show "correlation_to_value c = JObj []"
    by (simp add: correlation_is_empty_def correlation_to_value_def jobject_def bt_of_def)
next
  assume "correlation_to_value c = JObj []"
  then have "jget (correlation_to_value c) k = None" for k by (simp add: bt_get_def)
  note none = this [unfolded correlation_get]
  from none [of "''deployment_region''"] none [of "''deployment_type''"] none [of "''agent_role''"]
    none [of "''agent_template''"] none [of "''user_location''"] none [of "''user_timezone''"]
    none [of "''user_latitude''"] none [of "''user_longitude''"]
  show "correlation_is_empty c" by (simp add: correlation_is_empty_def)
qed

lemma show_digit: "d < 10 \<Longrightarrow> show_nat d = [char_of (48 + d)]"
  by (subst show_nat.simps) simp

lemma fuzz_finite:
  "fuzz_location_to_region (Fin s m) =
     (if s then ''-'' else []) @ show_nat (scaled 1 m div 10) @ ''.'' @ [char_of (48 + scaled 1 m mod 10)]"
  by (simp add: fuzz_location_to_region_def pii_location_fuzz_decimals_def pad_left_def show_digit)

lemma scaled_err: "0 \<le> m \<Longrightarrow> \<bar>of_nat (scaled 1 m) / 10 - m\<bar> \<le> 1 / 20"
proof -
  assume m: "0 \<le> m"
  then have "0 \<le> rne (10 * m)" by (intro rne_ge) simp
  then have eq: "of_nat (scaled 1 m) = (of_int (rne (10 * m)) :: rat)" by (simp add: scaled_def)
  have "\<bar>of_int (rne (10 * m)) / 10 - m\<bar> = \<bar>of_int (rne (10 * m)) - 10 * m\<bar> / 10"
    by (simp add: abs_if field_simps)
  with rne_err [of "10 * m"] show ?thesis unfolding eq by simp
qed

section \<open>Properties\<close>

text \<open>
  C29: coordinates leave the process coarsened. For every finite coordinate the emitted
  string is the sign, an integer part, a point and exactly one digit; the number it denotes
  is within a twentieth of a degree of the input; and it depends on the coordinate only
  through its sign and the rounded number of tenths, so any two points of the same tenth
  are indistinguishable.
\<close>

theorem fuzz_reveals_tenths_only:
  assumes "0 \<le> m"
  shows "(\<exists>t::nat. fuzz_location_to_region (Fin s m)
            = (if s then ''-'' else []) @ show_nat (t div 10) @ ''.'' @ [char_of (48 + t mod 10)]
          \<and> \<bar>of_nat t / 10 - m\<bar> \<le> 1 / 20)
    \<and> (\<forall>m'. rne (10 * m') = rne (10 * m)
          \<longrightarrow> fuzz_location_to_region (Fin s m') = fuzz_location_to_region (Fin s m))"
  using scaled_err [OF assms] by (auto simp: fuzz_finite scaled_def intro!: exI [of _ "scaled 1 m"])

lemma fuzz_reveals_tenths_only_witness:
  "fuzz_location_to_region (fneg (flit (880834 / 10000))) = ''-88.1''
   \<and> fuzz_location_to_region (Fin True (881 / 10)) = ''-88.1''"
proof -
  let ?x = "6198318240898849 / 70368744177664 :: rat"
  have a: "fneg (flit (880834 / 10000)) = Fin True ?x" by code_simp
  have t: "rne (10 * (881 / 10)) = rne (10 * ?x)" by code_simp
  have f: "fuzz_location_to_region (Fin True ?x) = ''-88.1''" by code_simp
  have x: "0 \<le> ?x" by simp
  have "fuzz_location_to_region (Fin True (881 / 10)) = fuzz_location_to_region (Fin True ?x)"
    using fuzz_reveals_tenths_only [OF x, of True] t by blast
  with f show ?thesis unfolding a by (simp only: simp_thms)
qed

text \<open>
  With location sharing off, the block is the same whatever the location inputs are,
  and none of the four location keys appears; with sharing on, a coordinate appears only
  fuzzed. The block is empty exactly when its wire object is.
\<close>

lemma location_gate:
  "correlation_to_value (correlation_build r t ro te False loc tz lat lng)
     = correlation_to_value (correlation_build r t ro te False loc' tz' lat' lng')
   \<and> (\<forall>k \<in> {''user_location'', ''user_timezone'', ''user_latitude'', ''user_longitude''}.
        jget (correlation_to_value (correlation_build r t ro te False loc tz lat lng)) k = None)
   \<and> jget (correlation_to_value (correlation_build r t ro te True loc tz lat lng)) ''user_latitude''
        = map_option (JStr \<circ> fuzz_location_to_region) lat
   \<and> jget (correlation_to_value (correlation_build r t ro te True loc tz lat lng)) ''user_longitude''
        = map_option (JStr \<circ> fuzz_location_to_region) lng
   \<and> (correlation_is_empty c \<longleftrightarrow> correlation_to_value c = JObj [])"
  by (auto simp: correlation_get correlation_build_def correlation_empty_iff option.map_comp)

lemma location_gate_witness:
  "jget (correlation_to_value (correlation_build ''eu'' [] [] [] False ''Berlin'' ''CET'' (Some fone) None))
     ''user_latitude'' = None"
  using location_gate [of "''eu''" "[]" "[]" "[]" "''Berlin''" "''CET''" "Some fone" None] by auto

end
