(* ===== verification/CaptureClient.thy ===== *)
theory CaptureClient
  imports Batch Consent Correlation
begin

text \<open>
  \<open>src/src/capture/client.rs\<close>: the client-mode pipeline. One inbound event goes through the
  partial-trace store; a sealed trace passes the consent gate, is stamped, signed, batched,
  copied to the local directory and handed to the engine. The engine (directory, signer,
  persistence) and the wall clock are outside: each call gets a snapshot of them, so that
  they may change between calls. What the code hands to them is recorded in the state.
\<close>

section \<open>Data\<close>

datatype seal_sign_error =
    SealCanonicalize string
  | HardwareSign string
  | SealLocalSigner "string seal_error"

datatype ('de, 'pe) client_error =
    SealFailed seal_sign_error
  | BatchFailed batch_error
  | PersistFailed 'pe
  | ConsentFailed "'de consent_error"

datatype event_outcome =
    EvOpened
  | EvAppended
  | EvRejected string
  | SealedAndPersisted string nat nat
  | ConsentBlocked string

datatype prepare_outcome =
    NotSealing event_outcome
  | ReadyToSeal complete_trace batch_provenance "json option"

record client_config =
  cf_trace_level :: string
  cf_trace_schema_version :: string
  cf_correlation :: "correlation_metadata option"
  cf_deployment_profile :: "json option"
  cf_consent_attesting_key_id :: "string option"
  cf_consent_config :: consent_config
  cf_local_copy_dir :: "string option"

text \<open>
  The mutable state: the store, the tee counter, and the calls that leave the process in
  the order they are made (tee writes as directory, file name, bytes; persisted batches).
\<close>

record client_state =
  cs_store :: partial_store
  cs_tee_seq :: u64
  cs_tee_writes :: "(string \<times> string \<times> bytes) list"
  cs_persist_calls :: "bytes list"

text \<open>The engine as one call sees it: directory, signer with its alias, persistence, clock.\<close>

record ('de, 'pe) engine =
  en_list_attestations_by :: "string \<Rightarrow> 'de + attestation list"
  en_sign :: "bytes \<Rightarrow> string + bytes"
  en_current_alias :: string
  en_receive_and_persist :: "bytes \<Rightarrow> 'pe + nat \<times> nat"
  en_now_rfc3339 :: string

text \<open>Library functions: canonicalizer and base64, \<open>to_rfc3339\<close>, \<open>serde_json::to_vec\<close>.\<close>

record 'vk platform =
  pf_crypto :: "'vk crypto"
  pf_to_rfc3339 :: "instant \<Rightarrow> string"
  pf_to_vec :: "json \<Rightarrow> string + bytes"

section \<open>Operations\<close>

definition client_new :: client_state where
  "client_new = \<lparr>cs_store = store_new, cs_tee_seq = 0, cs_tee_writes = [], cs_persist_calls = []\<rparr>"

definition sign_trace_via_hardware_signer ::
  "'vk crypto \<Rightarrow> ('de, 'pe) engine \<Rightarrow> complete_trace \<Rightarrow> seal_sign_error + complete_trace" where
  "sign_trace_via_hardware_signer cr en t =
     rbind (map_err SealCanonicalize (canonical_bytes cr t)) (\<lambda>bytes.
     rbind (map_err HardwareSign (en_sign en bytes)) (\<lambda>sig.
     Inr (apply_signature cr sig (en_current_alias en) t)))"

definition stamp :: "json option \<Rightarrow> string \<Rightarrow> complete_trace \<Rightarrow> complete_trace" where
  "stamp profile level t =
     t\<lparr>ct_deployment_profile :=
         (case ct_deployment_profile t of None \<Rightarrow> profile | Some p \<Rightarrow> Some p),
       ct_trace_level := (case ct_trace_level t of None \<Rightarrow> Some level | Some l \<Rightarrow> Some l)\<rparr>"

definition seal_sign_wrap ::
  "'vk platform \<Rightarrow> ('de, 'pe) engine \<Rightarrow> complete_trace \<Rightarrow> batch_provenance \<Rightarrow> json option
    \<Rightarrow> ('de, 'pe) client_error + bytes" where
  "seal_sign_wrap pf en t prov profile =
     rbind (map_err SealFailed
       (sign_trace_via_hardware_signer (pf_crypto pf) en (stamp profile (bp_trace_level prov) t))) (\<lambda>t'.
     map_err BatchFailed (build_batch_bytes (pf_to_vec pf) [t'] prov))"

definition consent_at_seal ::
  "client_config \<Rightarrow> ('de, 'pe) engine \<Rightarrow> 'de consent_error + consent_resolution" where
  "consent_at_seal cf en =
     (case cf_consent_attesting_key_id cf of
        Some key \<Rightarrow> resolve_consent_via_engine (en_list_attestations_by en) key (cf_consent_config cf)
      | None \<Rightarrow> Inr (resolve_consent Absent (cf_consent_config cf)))"

definition make_provenance :: "client_config \<Rightarrow> string \<Rightarrow> string \<Rightarrow> batch_provenance" where
  "make_provenance cf now consent_ts =
     \<lparr>bp_batch_timestamp = now, bp_consent_timestamp = consent_ts,
      bp_trace_level = cf_trace_level cf, bp_trace_schema_version = cf_trace_schema_version cf,
      bp_correlation_metadata =
        (case cf_correlation cf of
           None \<Rightarrow> None
         | Some c \<Rightarrow> if correlation_is_empty c then None else Some (correlation_to_value c))\<rparr>"

definition gate_sealed ::
  "'vk platform \<Rightarrow> client_config \<Rightarrow> ('de, 'pe) engine \<Rightarrow> complete_trace
    \<Rightarrow> ('de, 'pe) client_error + prepare_outcome" where
  "gate_sealed pf cf en t =
     rbind (map_err ConsentFailed (consent_at_seal cf en)) (\<lambda>res.
       let ready = (\<lambda>ts. Inr (ReadyToSeal t (make_provenance cf (en_now_rfc3339 en) ts)
                               (cf_deployment_profile cf)))
       in case res of
            CegGrant since \<Rightarrow> ready (pf_to_rfc3339 pf since)
          | ConfigFallback ts \<Rightarrow> ready ts
          | ConsentWithdrawn _ \<Rightarrow> Inr (NotSealing (ConsentBlocked ''withdrawn''))
          | NoConsent \<Rightarrow> Inr (NotSealing (ConsentBlocked ''no_consent'')))"

definition prepare_for_seal ::
  "'vk platform \<Rightarrow> client_config \<Rightarrow> ('de, 'pe) engine \<Rightarrow> inbound_event \<Rightarrow> client_state
    \<Rightarrow> client_state \<times> (('de, 'pe) client_error + prepare_outcome)" where
  "prepare_for_seal pf cf en ev s =
     (case capture ev (in_thought_id ev) (cs_store s) of (store, out) \<Rightarrow>
        (s\<lparr>cs_store := store\<rparr>,
         case out of
           Opened \<Rightarrow> Inr (NotSealing EvOpened)
         | Appended \<Rightarrow> Inr (NotSealing EvAppended)
         | UnknownEvent raw \<Rightarrow> Inr (NotSealing (EvRejected raw))
         | Sealed t \<Rightarrow> gate_sealed pf cf en t))"

definition pad8 :: "nat \<Rightarrow> string" where
  "pad8 n = pad_left 8 (show_nat n)"

definition tee_write_if_configured :: "string option \<Rightarrow> bytes \<Rightarrow> client_state \<Rightarrow> client_state" where
  "tee_write_if_configured dir bytes s =
     (case dir of
        None \<Rightarrow> s
      | Some d \<Rightarrow> s\<lparr>cs_tee_seq := cs_tee_seq s + 1,
          cs_tee_writes := cs_tee_writes s
            @ [(d, ''lens-batch-'' @ pad8 (unat (cs_tee_seq s)) @ ''.json'', bytes)]\<rparr>)"

definition persist_batch ::
  "('de, 'pe) engine \<Rightarrow> string \<Rightarrow> bytes \<Rightarrow> client_state
    \<Rightarrow> client_state \<times> (('de, 'pe) client_error + event_outcome)" where
  "persist_batch en trace_id bytes s =
     (s\<lparr>cs_persist_calls := cs_persist_calls s @ [bytes]\<rparr>,
      rbind (map_err PersistFailed (en_receive_and_persist en bytes)) (\<lambda>(inserted, verified).
        Inr (SealedAndPersisted trace_id inserted verified)))"

definition capture_event ::
  "'vk platform \<Rightarrow> client_config \<Rightarrow> ('de, 'pe) engine \<Rightarrow> inbound_event \<Rightarrow> client_state
    \<Rightarrow> client_state \<times> (('de, 'pe) client_error + event_outcome)" where
  "capture_event pf cf en ev s =
     (case prepare_for_seal pf cf en ev s of
        (s1, Inl e) \<Rightarrow> (s1, Inl e)
      | (s1, Inr (NotSealing out)) \<Rightarrow> (s1, Inr out)
      | (s1, Inr (ReadyToSeal t prov profile)) \<Rightarrow>
          (case seal_sign_wrap pf en t prov profile of
             Inl e \<Rightarrow> (s1, Inl e)
           | Inr bytes \<Rightarrow>
               persist_batch en (ct_trace_id t) bytes
                 (tee_write_if_configured (cf_local_copy_dir cf) bytes s1)))"

definition clamp_max_age :: "u64 \<Rightarrow> i64" where
  "clamp_max_age n = (if unat n \<le> 2 ^ 63 - 1 then n else 2 ^ 63 - 1)"

definition client_orphan_sweep ::
  "(string \<Rightarrow> instant option) \<Rightarrow> instant \<Rightarrow> u64 \<Rightarrow> client_state \<Rightarrow> client_state \<times> nat" where
  "client_orphan_sweep rfc3339 now max_age s =
     (case orphan_sweep rfc3339 now (clamp_max_age max_age) (cs_store s) of
        (store, n) \<Rightarrow> (s\<lparr>cs_store := store\<rparr>, n))"

section \<open>Lemmas\<close>

text \<open>What consent allows: the timestamp a batch may be stamped with.\<close>

definition permitted_timestamp :: "'vk platform \<Rightarrow> consent_resolution \<Rightarrow> string option" where
  "permitted_timestamp pf res =
     (case res of
        CegGrant since \<Rightarrow> Some (pf_to_rfc3339 pf since)
      | ConfigFallback ts \<Rightarrow> Some ts
      | ConsentWithdrawn _ \<Rightarrow> None
      | NoConsent \<Rightarrow> None)"

lemma gate_ready_iff:
  "gate_sealed pf cf en t = Inr (ReadyToSeal u prov profile) \<longleftrightarrow>
     u = t \<and> profile = cf_deployment_profile cf \<and>
     (\<exists>res ts. consent_at_seal cf en = Inr res \<and> permitted_timestamp pf res = Some ts
        \<and> prov = make_provenance cf (en_now_rfc3339 en) ts)"
proof (cases "consent_at_seal cf en")
  case (Inr res)
  then show ?thesis by (cases res) (auto simp: gate_sealed_def permitted_timestamp_def)
qed (simp add: gate_sealed_def)

lemma gate_blocked_iff:
  "(\<exists>r. gate_sealed pf cf en t = Inr (NotSealing r)) \<longleftrightarrow>
     (\<exists>res. consent_at_seal cf en = Inr res \<and> permitted_timestamp pf res = None)"
proof (cases "consent_at_seal cf en")
  case (Inr res)
  then show ?thesis by (cases res) (auto simp: gate_sealed_def permitted_timestamp_def)
qed (simp add: gate_sealed_def)

lemma gate_not_persisted: "gate_sealed pf cf en t \<noteq> Inr (NotSealing (SealedAndPersisted i n m))"
proof (cases "consent_at_seal cf en")
  case (Inr res)
  then show ?thesis by (cases res) (auto simp: gate_sealed_def)
qed (simp add: gate_sealed_def)

lemma prepare_ready_iff:
  "prepare_for_seal pf cf en ev s = (s1, Inr (ReadyToSeal t prov profile)) \<longleftrightarrow>
     (\<exists>store. capture ev (in_thought_id ev) (cs_store s) = (store, Sealed t)
        \<and> s1 = s\<lparr>cs_store := store\<rparr> \<and> profile = cf_deployment_profile cf
        \<and> (\<exists>res ts. consent_at_seal cf en = Inr res \<and> permitted_timestamp pf res = Some ts
             \<and> prov = make_provenance cf (en_now_rfc3339 en) ts))"
  by (auto simp: prepare_for_seal_def gate_ready_iff split: prod.splits capture_outcome.splits)

lemma prepare_effects:
  "prepare_for_seal pf cf en ev s = (s1, r) \<Longrightarrow>
     cs_persist_calls s1 = cs_persist_calls s \<and> cs_tee_writes s1 = cs_tee_writes s
     \<and> cs_tee_seq s1 = cs_tee_seq s
     \<and> cs_store s1 = fst (capture ev (in_thought_id ev) (cs_store s))"
  by (auto simp: prepare_for_seal_def split: prod.splits)

lemma tee_effects [simp]:
  "cs_store (tee_write_if_configured d b s) = cs_store s"
  "cs_persist_calls (tee_write_if_configured d b s) = cs_persist_calls s"
  by (simp_all add: tee_write_if_configured_def split: option.split)

lemma seal_sign_wrap_bytes:
  assumes "seal_sign_wrap pf en t prov profile = Inr bytes"
  obtains m sig where
    "canonical_bytes (pf_crypto pf) (stamp profile (bp_trace_level prov) t) = Inr m"
    "en_sign en m = Inr sig"
    "pf_to_vec pf (batch_envelope prov [batch_event prov
       (apply_signature (pf_crypto pf) sig (en_current_alias en)
          (stamp profile (bp_trace_level prov) t))]) = Inr bytes"
proof -
  from assms obtain t' where t': "sign_trace_via_hardware_signer (pf_crypto pf) en
      (stamp profile (bp_trace_level prov) t) = Inr t'"
    and b: "build_batch_bytes (pf_to_vec pf) [t'] prov = Inr bytes"
    by (auto simp: seal_sign_wrap_def rbind_eq_Inr_iff)
  from t' obtain m sig where ms:
    "canonical_bytes (pf_crypto pf) (stamp profile (bp_trace_level prov) t) = Inr m"
    "en_sign en m = Inr sig"
    "t' = apply_signature (pf_crypto pf) sig (en_current_alias en) (stamp profile (bp_trace_level prov) t)"
    by (auto simp: sign_trace_via_hardware_signer_def rbind_eq_Inr_iff)
  have "is_signed t'" by (simp add: ms)
  with b have "pf_to_vec pf (batch_envelope prov [batch_event prov t']) = Inr bytes"
    using batch_events_signed [of "[t']" prov]
    by (simp add: build_batch_bytes_def del: batch_events.simps)
  with ms that show ?thesis by simp
qed


section \<open>One step and whole runs\<close>

definition client_step ::
  "'vk platform \<Rightarrow> client_config \<Rightarrow> ('de, 'pe) engine \<times> inbound_event \<Rightarrow> client_state
    \<Rightarrow> client_state \<times> (('de, 'pe) client_error + event_outcome)" where
  "client_step pf cf i s = capture_event pf cf (fst i) (snd i) s"

text \<open>
  A batch the client may hand out for an event: the trace sealed for its thought, stamped
  and signed, with the provenance of a consent that is in force at that moment.
\<close>

definition lawful_batch ::
  "'vk platform \<Rightarrow> client_config \<Rightarrow> ('de, 'pe) engine \<Rightarrow> inbound_event \<Rightarrow> complete_trace \<Rightarrow> bytes \<Rightarrow> bool" where
  "lawful_batch pf cf en ev t b =
     (\<exists>res ts prov u m sig.
        sealed_trace (in_thought_id ev) t
        \<and> consent_at_seal cf en = Inr res \<and> permitted_timestamp pf res = Some ts
        \<and> prov = make_provenance cf (en_now_rfc3339 en) ts
        \<and> u = stamp (cf_deployment_profile cf) (cf_trace_level cf) t
        \<and> canonical_bytes (pf_crypto pf) u = Inr m \<and> en_sign en m = Inr sig
        \<and> pf_to_vec pf (batch_envelope prov
             [batch_event prov (apply_signature (pf_crypto pf) sig (en_current_alias en) u)]) = Inr b)"

definition client_inv :: "client_state \<Rightarrow> bool" where
  "client_inv s = store_inv (cs_store s)"

text \<open>What a step does to the outgoing side: nothing, or one lawful batch to the tee and the host.\<close>

abbreviation quiet_step ::
    "client_state \<Rightarrow> client_state \<Rightarrow> (('de, 'pe) client_error + event_outcome) \<Rightarrow> bool" where
  "quiet_step s s' out \<equiv>
     cs_persist_calls s' = cs_persist_calls s \<and> cs_tee_writes s' = cs_tee_writes s
     \<and> cs_tee_seq s' = cs_tee_seq s \<and> (\<forall>i n m. out \<noteq> Inr (SealedAndPersisted i n m))"

abbreviation emitting_step ::
    "'vk platform \<Rightarrow> client_config \<Rightarrow> ('de, 'pe) engine \<Rightarrow> inbound_event \<Rightarrow> client_state \<Rightarrow> client_state \<Rightarrow>
       (('de, 'pe) client_error + event_outcome) \<Rightarrow> complete_trace \<Rightarrow> bytes \<Rightarrow> bool" where
  "emitting_step pf cf en ev s s' out t b \<equiv>
     capture ev (in_thought_id ev) (cs_store s) = (cs_store s', Sealed t)
     \<and> lawful_batch pf cf en ev t b
     \<and> cs_persist_calls s' = cs_persist_calls s @ [b]
     \<and> (cs_tee_seq s', cs_tee_writes s') =
         (case cf_local_copy_dir cf of
            None \<Rightarrow> (cs_tee_seq s, cs_tee_writes s)
          | Some d \<Rightarrow> (cs_tee_seq s + 1, cs_tee_writes s
              @ [(d, ''lens-batch-'' @ pad8 (unat (cs_tee_seq s)) @ ''.json'', b)]))
     \<and> out = rbind (map_err PersistFailed (en_receive_and_persist en b))
         (\<lambda>(n, v). Inr (SealedAndPersisted (ct_trace_id t) n v))"

lemma capture_event_quiet:
  assumes "prepare_for_seal pf cf en ev s = (s1, r)" "capture_event pf cf en ev s = (s', out)"
    and "\<And>t prov profile b. r = Inr (ReadyToSeal t prov profile) \<Longrightarrow> seal_sign_wrap pf en t prov profile \<noteq> Inr b"
  shows "quiet_step s s' out" "cs_store s' = cs_store s1"
proof -
  have no: "r \<noteq> Inr (NotSealing (SealedAndPersisted i n m))" for i n m
    using assms(1) by (auto simp: prepare_for_seal_def gate_not_persisted split: prod.splits capture_outcome.splits)
  have "s' = s1 \<and> (\<forall>i n m. out \<noteq> Inr (SealedAndPersisted i n m))"
    using assms no by (auto simp: capture_event_def split: sum.splits prepare_outcome.splits)
  with prepare_effects [OF assms(1)] show "quiet_step s s' out" "cs_store s' = cs_store s1" by auto
qed

lemma client_step_effects:
  assumes "client_inv s" "client_step pf cf (en, ev) s = (s', out)"
  shows "client_inv s'"
    and "quiet_step s s' out \<or> (\<exists>t b. emitting_step pf cf en ev s s' out t b)"
proof -
  obtain s1 r where r: "prepare_for_seal pf cf en ev s = (s1, r)" by fastforce
  obtain st o1 where cap: "capture ev (in_thought_id ev) (cs_store s) = (st, o1)" by fastforce
  have inv: "store_inv st"
    using assms(1) store_inv_capture(1) [OF _ cap] by (simp add: client_inv_def)
  have ev: "capture_event pf cf en ev s = (s', out)" using assms(2) by (simp add: client_step_def)
  have "cs_store s' = st \<and> (quiet_step s s' out \<or> (\<exists>t b. emitting_step pf cf en ev s s' out t b))"
  proof (cases "\<exists>t prov profile b. r = Inr (ReadyToSeal t prov profile) \<and> seal_sign_wrap pf en t prov profile = Inr b")
    case False
    then show ?thesis
      using capture_event_quiet [OF r ev] prepare_effects [OF r] cap by auto
  next
    case True
    then obtain t prov profile b where rt: "r = Inr (ReadyToSeal t prov profile)"
      and b: "seal_sign_wrap pf en t prov profile = Inr b" by blast
    from r [unfolded rt] obtain res ts where t: "o1 = Sealed t" "s1 = s\<lparr>cs_store := st\<rparr>"
        "profile = cf_deployment_profile cf" "consent_at_seal cf en = Inr res"
        "permitted_timestamp pf res = Some ts" "prov = make_provenance cf (en_now_rfc3339 en) ts"
      by (auto simp: prepare_ready_iff cap)
    have "sealed_trace (in_thought_id ev) t"
      using assms(1) store_inv_capture(2) [OF _ cap [unfolded t(1)]] by (simp add: client_inv_def)
    with b t have "lawful_batch pf cf en ev t b"
      by (auto simp: lawful_batch_def make_provenance_def elim!: seal_sign_wrap_bytes)
    moreover have "(s', out) = persist_batch en (ct_trace_id t) b
        (tee_write_if_configured (cf_local_copy_dir cf) b s1)"
      using ev r rt b by (simp add: capture_event_def)
    ultimately show ?thesis
      using cap t by (auto simp: persist_batch_def tee_write_if_configured_def split: option.splits)
  qed
  note both = this
  show "client_inv s'" using inv both by (simp add: client_inv_def)
  show "quiet_step s s' out \<or> (\<exists>t b. emitting_step pf cf en ev s s' out t b)" using both by (rule conjunct2)
qed

lemma client_inv_new: "client_inv client_new"
  by (simp add: client_inv_def client_new_def store_inv_new)

interpretation client: reactive "client_step pf cf" client_inv "\<lambda>_ _. True" for pf cf
  by unfold_locales (auto dest: client_step_effects(1) [of _ pf cf "fst _" "snd _"] simp: split_paired_all
      intro: client_step_effects(1))

lemma run_persists:
  "client_inv s \<Longrightarrow> run (client_step pf cf) is s = (s', outs) \<Longrightarrow>
     \<exists>new. cs_persist_calls s' = cs_persist_calls s @ new
       \<and> (\<forall>b \<in> set new. \<exists>en ev t. (en, ev) \<in> set is \<and> lawful_batch pf cf en ev t b)"
proof (induction "is" arbitrary: s s' outs)
  case (Cons i "is")
  obtain en ev where i: "i = (en, ev)" by fastforce
  obtain s1 out where 1: "client_step pf cf (en, ev) s = (s1, out)" by fastforce
  obtain outs' where 2: "run (client_step pf cf) is s1 = (s', outs')"
    using Cons.prems(2) by (auto simp: i 1 split: prod.splits)
  note eff = client_step_effects [OF Cons.prems(1) 1]
  obtain new where new: "cs_persist_calls s' = cs_persist_calls s1 @ new"
      "\<forall>b \<in> set new. \<exists>en ev t. (en, ev) \<in> set is \<and> lawful_batch pf cf en ev t b"
    using Cons.IH [OF eff(1) 2] by blast
  from eff(2) consider "cs_persist_calls s1 = cs_persist_calls s"
    | t b where "cs_persist_calls s1 = cs_persist_calls s @ [b]" "lawful_batch pf cf en ev t b"
    by blast
  then show ?case
  proof cases
    case 1
    with new show ?thesis unfolding i by (intro exI [of _ new]) (simp, blast)
  next
    case 2
    with new show ?thesis unfolding i by (intro exI [of _ "b # new"]) (simp, blast)
  qed
qed simp


text \<open>The tee mirrors the persisted batches, one numbered file each.\<close>

definition tee_name :: "nat \<Rightarrow> string" where
  "tee_name i = ''lens-batch-'' @ pad8 (unat (of_nat i :: u64)) @ ''.json''"

definition tee_inv :: "string option \<Rightarrow> client_state \<Rightarrow> bool" where
  "tee_inv dir s =
     (case dir of
        None \<Rightarrow> cs_tee_writes s = []
      | Some d \<Rightarrow> cs_tee_seq s = of_nat (length (cs_persist_calls s))
          \<and> cs_tee_writes s = map (\<lambda>(i, b). (d, tee_name i, b)) (enumerate 0 (cs_persist_calls s)))"

lemma read_nat_pad: "read_nat (pad_left n s) = read_nat s"
proof -
  have "foldl (\<lambda>a c. 10 * a + (of_char c - 48)) 0 (replicate k (CHR ''0'')) = (0::nat)" for k
    by (induction k) simp_all
  then show ?thesis by (simp add: pad_left_def foldl_append)
qed

lemma tee_name_inj: "i < 2 ^ 64 \<Longrightarrow> j < 2 ^ 64 \<Longrightarrow> tee_name i = tee_name j \<Longrightarrow> i = j"
proof -
  assume *: "i < 2 ^ 64" "j < 2 ^ 64" "tee_name i = tee_name j"
  then have "read_nat (pad8 (unat (of_nat i :: u64))) = read_nat (pad8 (unat (of_nat j :: u64)))"
    by (simp add: tee_name_def)
  then have "unat (of_nat i :: u64) = unat (of_nat j :: u64)"
    by (simp only: pad8_def read_nat_pad read_show_nat)
  with * show "i = j" by (simp add: unat_of_nat take_bit_nat_eq_self)
qed

lemma tee_inv_step:
  assumes "client_inv s" "tee_inv (cf_local_copy_dir cf) s" "client_step pf cf (en, ev) s = (s', out)"
  shows "tee_inv (cf_local_copy_dir cf) s'"
  using client_step_effects(2) [OF assms(1,3)] assms(2)
  by (auto simp: tee_inv_def tee_name_def enumerate_append_eq split: option.splits)

interpretation teed: reactive "client_step pf cf"
  "\<lambda>s. client_inv s \<and> tee_inv (cf_local_copy_dir cf) s" "\<lambda>_ _. True" for pf cf
  by unfold_locales (auto dest: client_step_effects(1) tee_inv_step)

section \<open>Properties\<close>

text \<open>
  C1: end to end, nothing leaves the client without consent or unsigned. For every run of
  the client from its initial state, each batch it hands to the engine was produced while
  the consent gate was open (by an attestation or by configuration), carries that consent's
  timestamp, and holds exactly one trace: the one sealed for the event's thought, with its
  components unchanged, whose signature verifies under the host's key. The contracts used
  of base64 and of the signer are hypotheses.
\<close>

theorem only_consented_signed_batches_leave:
  assumes "run (client_step pf cf) is client_new = (s, outs)"
    and "\<And>b. cr_decode (pf_crypto pf) (cr_encode (pf_crypto pf) b) = Some b"
    and "\<And>en ev m sig. (en, ev) \<in> set is \<Longrightarrow> en_sign en m = Inr sig \<Longrightarrow>
           length sig = 64 \<and> cr_verify (pf_crypto pf) vk m sig"
  shows "\<forall>b \<in> set (cs_persist_calls s). \<exists>en ev t res ts u.
           (en, ev) \<in> set is \<and> sealed_trace (in_thought_id ev) t
           \<and> consent_at_seal cf en = Inr res \<and> permitted_timestamp pf res = Some ts
           \<and> pf_to_vec pf (batch_envelope (make_provenance cf (en_now_rfc3339 en) ts)
               [batch_event (make_provenance cf (en_now_rfc3339 en) ts) u]) = Inr b
           \<and> verify_trace_signature (pf_crypto pf) u vk
           \<and> ct_thought_id u = in_thought_id ev \<and> ct_components u = ct_components t"
proof
  fix b assume b: "b \<in> set (cs_persist_calls s)"
  have "cs_persist_calls client_new = []" by (simp add: client_new_def)
  with run_persists [OF client_inv_new assms(1)] b obtain en ev t
    where i: "(en, ev) \<in> set is" and l: "lawful_batch pf cf en ev t b" by auto
  from l obtain res ts m sig where r: "sealed_trace (in_thought_id ev) t"
      "consent_at_seal cf en = Inr res" "permitted_timestamp pf res = Some ts"
      "canonical_bytes (pf_crypto pf) (stamp (cf_deployment_profile cf) (cf_trace_level cf) t) = Inr m"
      "en_sign en m = Inr sig"
      "pf_to_vec pf (batch_envelope (make_provenance cf (en_now_rfc3339 en) ts)
         [batch_event (make_provenance cf (en_now_rfc3339 en) ts)
           (apply_signature (pf_crypto pf) sig (en_current_alias en)
             (stamp (cf_deployment_profile cf) (cf_trace_level cf) t))]) = Inr b"
    by (auto simp: lawful_batch_def)
  define u where "u = apply_signature (pf_crypto pf) sig (en_current_alias en)
    (stamp (cf_deployment_profile cf) (cf_trace_level cf) t)"
  have "canonical_bytes (pf_crypto pf) u = Inr m" using r by (simp add: u_def)
  with assms(2) assms(3) [OF i r(5)] have "verify_trace_signature (pf_crypto pf) u vk"
    by (simp add: verify_trace_signature_def u_def apply_signature_def encode_signature_def)
  moreover have "ct_components u = ct_components t" "ct_thought_id u = in_thought_id ev"
    using r(1) by (auto simp: u_def apply_signature_def stamp_def sealed_trace_def)
  ultimately show "\<exists>en ev t res ts u.
           (en, ev) \<in> set is \<and> sealed_trace (in_thought_id ev) t
           \<and> consent_at_seal cf en = Inr res \<and> permitted_timestamp pf res = Some ts
           \<and> pf_to_vec pf (batch_envelope (make_provenance cf (en_now_rfc3339 en) ts)
               [batch_event (make_provenance cf (en_now_rfc3339 en) ts) u]) = Inr b
           \<and> verify_trace_signature (pf_crypto pf) u vk
           \<and> ct_thought_id u = in_thought_id ev \<and> ct_components u = ct_components t"
    using i r u_def by blast
qed

definition demo_platform :: "unit platform" where
  "demo_platform = \<lparr>pf_crypto = \<lparr>cr_canonicalize = \<lambda>_ _. Inr [1],
       cr_encode = map (\<lambda>b. char_of (unat b)), cr_decode = \<lambda>s. Some (map (\<lambda>c. of_nat (of_char c)) s),
       cr_verify = \<lambda>_ m sig. sig = replicate 63 0 @ m\<rparr>,
     pf_to_rfc3339 = \<lambda>t. show_nat (nat t), pf_to_vec = \<lambda>v. Inr [2]\<rparr>"

definition demo_engine :: "attestation list \<Rightarrow> (unit, unit) engine" where
  "demo_engine rows = \<lparr>en_list_attestations_by = \<lambda>_. Inr rows,
     en_sign = \<lambda>m. if length m = 1 then Inr (replicate 63 0 @ m) else Inl [],
     en_current_alias = ''host'', en_receive_and_persist = \<lambda>b. Inr (1, 1), en_now_rfc3339 = ''now''\<rparr>"

definition demo_config :: client_config where
  "demo_config = \<lparr>cf_trace_level = ''generic'', cf_trace_schema_version = trace_schema_version,
     cf_correlation = None, cf_deployment_profile = None,
     cf_consent_attesting_key_id = Some ''key'', cf_consent_config = \<lparr>cc_consent_timestamp = None\<rparr>,
     cf_local_copy_dir = Some ''/tee''\<rparr>"

definition demo_inputs :: "attestation list \<Rightarrow> ((unit, unit) engine \<times> inbound_event) list" where
  "demo_inputs rows = map (\<lambda>i. (demo_engine rows, fst i)) demo_stream"

lemma demo_decode: "cr_decode (pf_crypto demo_platform) (cr_encode (pf_crypto demo_platform) b) = Some b"
  by (simp add: demo_platform_def comp_def)

lemma demo_signer:
  "(en, ev) \<in> set (demo_inputs rows) \<Longrightarrow> en_sign en m = Inr sig \<Longrightarrow>
     length sig = 64 \<and> cr_verify (pf_crypto demo_platform) vk m sig"
  by (auto simp: demo_inputs_def demo_engine_def demo_platform_def split: if_splits)

lemma only_consented_signed_batches_leave_witness:
  "\<exists>s u. run (client_step demo_platform demo_config) (demo_inputs [demo_row ''1'' ''scores'' 5]) client_new
       = (s, [Inr EvOpened, Inr EvOpened, Inr EvAppended, Inr EvAppended, Inr (SealedAndPersisted ''a'' 1 1)])
     \<and> cs_persist_calls s = [[2]] \<and> verify_trace_signature (pf_crypto demo_platform) u ()"
proof -
  let ?r = "run (client_step demo_platform demo_config) (demo_inputs [demo_row ''1'' ''scores'' 5]) client_new"
  have o: "snd ?r = [Inr EvOpened, Inr EvOpened, Inr EvAppended, Inr EvAppended,
      Inr (SealedAndPersisted ''a'' 1 1)]" and p: "cs_persist_calls (fst ?r) = [[2]]"
    by code_simp+
  have r: "?r = (fst ?r, snd ?r)" by simp
  have "\<exists>u. verify_trace_signature (pf_crypto demo_platform) u ()"
    using only_consented_signed_batches_leave [OF r demo_decode demo_signer] p by fastforce
  with o p show ?thesis by (metis prod.collapse)
qed

text \<open>
  C9: a withdrawal stops emission at once. If, when an event arrives, the newest consent row
  of the configured key is a withdrawal or recant, the event persists and copies nothing;
  and if the event seals a trace, the outcome is \<open>ConsentBlocked "withdrawn"\<close> and the trace
  is gone from the store.
\<close>

theorem withdrawal_stops_emission:
  assumes "client_inv s" "cf_consent_attesting_key_id cf = Some key"
    and "en_list_attestations_by en key = Inr rows" "newest_word rows a"
    and "at_type a \<in> {''withdraws'', ''recants''}"
    and "\<And>b c. b \<in> set rows \<Longrightarrow> c \<in> set rows \<Longrightarrow> at_id b = at_id c \<Longrightarrow> b = c"
    and "capture_event pf cf en ev s = (s', out)"
  shows "cs_persist_calls s' = cs_persist_calls s \<and> cs_tee_writes s' = cs_tee_writes s
    \<and> (\<forall>t. snd (capture ev (in_thought_id ev) (cs_store s)) = Sealed t \<longrightarrow>
         out = Inr (ConsentBlocked ''withdrawn'')
         \<and> view (cs_store s') (in_thought_id ev) = (None, Map.empty))"
proof -
  have "resolve_grant rows = grant_of_row a" by (rule resolve_grant_newest [OF assms(4,6)])
  then have c: "consent_at_seal cf en = Inr (ConsentWithdrawn (at_asserted_at a))"
    using assms(2,3,5) by (simp add: consent_at_seal_def resolve_consent_via_engine_def grant_row_cases)
  obtain st o1 where cap: "capture ev (in_thought_id ev) (cs_store s) = (st, o1)" by fastforce
  show ?thesis
  proof (cases "\<exists>t. o1 = Sealed t")
    case True
    then obtain t where t: "o1 = Sealed t" by blast
    have "view st (in_thought_id ev) = (None, Map.empty)"
      using store_inv_capture(2) [OF _ cap t] assms(1) by (simp add: client_inv_def)
    with assms(7) t c show ?thesis
      by (auto simp: capture_event_def prepare_for_seal_def cap gate_sealed_def Let_def)
  next
    case False
    with assms(7) show ?thesis
      by (cases o1) (auto simp: capture_event_def prepare_for_seal_def cap)
  qed
qed

lemma withdrawal_stops_emission_witness:
  "\<exists>s s' out. capture_event demo_platform demo_config
       (demo_engine [demo_row ''1'' ''scores'' 5, demo_row ''2'' ''recants'' 9])
       (demo_event ''ACTION_RESULT'' ''a'' ''5'') s = (s', out) \<and> out = Inr (ConsentBlocked ''withdrawn'')
     \<and> cs_persist_calls s' = []"
proof -
  let ?rows = "[demo_row ''1'' ''scores'' 5, demo_row ''2'' ''recants'' 9]"
  obtain s' out where r: "capture_event demo_platform demo_config (demo_engine ?rows)
       (demo_event ''ACTION_RESULT'' ''a'' ''5'') client_new = (s', out)" by fastforce
  have "on_dimension (demo_row i ty t)" for i ty t
    by (simp add: on_dimension_def demo_row_def jget_jobject)
  then have nw: "newest_word ?rows (demo_row ''2'' ''recants'' 9)"
    by (simp add: newest_word_def) (simp add: recency_def demo_row_def)
  have sealed: "case snd (capture (demo_event ''ACTION_RESULT'' ''a'' ''5'') ''a'' store_new) of
      Sealed _ \<Rightarrow> True | _ \<Rightarrow> False" by code_simp
  have "cs_persist_calls s' = cs_persist_calls client_new \<and> cs_tee_writes s' = cs_tee_writes client_new
    \<and> (\<forall>t. snd (capture (demo_event ''ACTION_RESULT'' ''a'' ''5'')
           (in_thought_id (demo_event ''ACTION_RESULT'' ''a'' ''5'')) (cs_store client_new)) = Sealed t \<longrightarrow>
         out = Inr (ConsentBlocked ''withdrawn'')
         \<and> view (cs_store s') (in_thought_id (demo_event ''ACTION_RESULT'' ''a'' ''5'')) = (None, Map.empty))"
    by (rule withdrawal_stops_emission [OF client_inv_new _ _ nw _ _ r, of "''key''"])
      (auto simp: demo_config_def demo_engine_def demo_row_def)
  with sealed r show ?thesis
    by (auto simp: client_new_def demo_event_def split: capture_outcome.splits)
qed

text \<open>
  The local copies are a faithful mirror. In every run from the initial state, with a
  copy directory configured the files written are exactly the persisted batches in order,
  the i-th under the i-th sequence number, and no two of fewer than 2 ^ 64 copies share a
  name; without a directory nothing is written.
\<close>

lemma tee_mirrors_persisted:
  assumes "run (client_step pf cf) is client_new = (s, outs)"
  shows "(cf_local_copy_dir cf = None \<longrightarrow> cs_tee_writes s = [])
    \<and> (\<forall>d. cf_local_copy_dir cf = Some d \<longrightarrow>
         cs_tee_writes s = map (\<lambda>(i, b). (d, tee_name i, b)) (enumerate 0 (cs_persist_calls s))
         \<and> (length (cs_persist_calls s) < 2 ^ 64 \<longrightarrow> distinct (map (fst \<circ> snd) (cs_tee_writes s))))"
proof -
  have "tee_inv (cf_local_copy_dir cf) client_new"
    by (simp add: tee_inv_def client_new_def split: option.split)
  with assms have inv: "tee_inv (cf_local_copy_dir cf) s"
    using teed.run_inv [of client_new cf pf] client_inv_new by blast
  have "distinct (map (fst \<circ> snd) (map (\<lambda>(i, b). (d, tee_name i, b)) (enumerate 0 xs)))"
    if "length xs < 2 ^ 64" for d :: string and xs :: "bytes list"
  proof -
    have "map (fst \<circ> snd) (map (\<lambda>(i, b). (d, tee_name i, b)) (enumerate 0 xs)) = map tee_name [0..<length xs]"
      by (simp add: comp_def case_prod_unfold) (simp flip: map_map [unfolded comp_def])
    also have "distinct \<dots>"
      using that tee_name_inj by (auto simp: distinct_map inj_on_def)
    finally show ?thesis .
  qed
  with inv show ?thesis by (auto simp: tee_inv_def simp del: map_map split: option.splits)
qed

lemma tee_mirrors_persisted_witness:
  "cs_tee_writes (fst (run (client_step demo_platform demo_config)
     (demo_inputs [demo_row ''1'' ''scores'' 5]) client_new))
   = [(''/tee'', ''lens-batch-00000000.json'', [2])]"
proof -
  let ?r = "run (client_step demo_platform demo_config) (demo_inputs [demo_row ''1'' ''scores'' 5]) client_new"
  have p: "cs_persist_calls (fst ?r) = [[2]]" and n: "tee_name 0 = ''lens-batch-00000000.json''"
    by code_simp+
  have "cf_local_copy_dir demo_config = Some ''/tee''" by (simp add: demo_config_def)
  then have "cs_tee_writes (fst ?r) = map (\<lambda>(i, b). (''/tee'', tee_name i, b)) (enumerate 0 (cs_persist_calls (fst ?r)))"
    using tee_mirrors_persisted [OF prod.collapse [symmetric]] by blast
  then show ?thesis by (simp add: p n)
qed

end
