(* ===== verification/Delivery.thy ===== *)
theory Delivery
  imports CaptureClient
begin

text \<open>
  Progress of the capture client (\<open>src/src/capture/client.rs\<close>, \<open>partial.rs\<close>): on a host
  whose steps succeed and with consent in force, every event that completes a thought hands
  out that thought's batch at once, and nothing but the thoughts still waiting for such an
  event stays behind.
\<close>

text \<open>The event types of the stream: known, and completing its thought.\<close>

definition known_event :: "inbound_event \<Rightarrow> bool" where
  "known_event ev \<longleftrightarrow> parse_event (in_event_type ev) \<noteq> None"

definition completes :: "inbound_event \<Rightarrow> bool" where
  "completes ev = (case parse_event (in_event_type ev) of None \<Rightarrow> False | Some e \<Rightarrow> seals_trace e)"

text \<open>A platform, configuration and host on which every step of a completed trace succeeds.\<close>

definition healthy :: "'vk platform \<Rightarrow> client_config \<Rightarrow> ('de, 'pe) engine \<Rightarrow> bool" where
  "healthy pf cf en \<longleftrightarrow>
     (\<exists>res ts. consent_at_seal cf en = Inr res \<and> permitted_timestamp pf res = Some ts)
     \<and> (\<forall>t. \<exists>m sig. canonical_bytes (pf_crypto pf) t = Inr m \<and> en_sign en m = Inr sig)
     \<and> (\<forall>v. \<exists>b. pf_to_vec pf v = Inr b)
     \<and> (\<forall>b. \<exists>n v. en_receive_and_persist en b = Inr (n, v))"

text \<open>The thought has begun and its last known event does not complete it.\<close>

definition pending :: "string \<Rightarrow> inbound_event list \<Rightarrow> bool" where
  "pending tid evs =
     (let own = filter (\<lambda>ev. in_thought_id ev = tid \<and> known_event ev) evs
      in own \<noteq> [] \<and> \<not> completes (last own))"

section \<open>One step\<close>

lemma capture_seals_iff: "(\<exists>t. snd (capture ev new_id s) = Sealed t) \<longleftrightarrow> completes ev"
  by (auto simp: capture_def completes_def Let_def split: option.split)

lemma capture_active:
  assumes "store_maps s" "capture ev new_id s = (s', out)"
  shows "hm_get (active s') tid \<noteq> None \<longleftrightarrow>
     (if in_thought_id ev = tid \<and> known_event ev then \<not> completes ev else hm_get (active s) tid \<noteq> None)"
  using assms
  by (auto simp: capture_def completes_def known_event_def store_maps_def Let_def hm.inv_put hm.get_put hm.get_del
      split: option.splits if_splits)

lemma seal_sign_wrap_healthy:
  assumes "healthy pf cf en"
  shows "\<exists>b. seal_sign_wrap pf en t prov profile = Inr b"
proof -
  let ?u = "stamp profile (bp_trace_level prov) t"
  obtain m sig where m: "canonical_bytes (pf_crypto pf) ?u = Inr m" "en_sign en m = Inr sig"
    using assms unfolding healthy_def by blast
  let ?s = "apply_signature (pf_crypto pf) sig (en_current_alias en) ?u"
  have "is_signed ?s" by simp
  then have "build_batch_bytes (pf_to_vec pf) [?s] prov = map_err Serialize (pf_to_vec pf (batch_envelope prov [batch_event prov ?s]))"
    using batch_events_signed [of "[?s]" prov] by (simp add: build_batch_bytes_def del: batch_events.simps)
  moreover obtain b where "pf_to_vec pf (batch_envelope prov [batch_event prov ?s]) = Inr b"
    using assms unfolding healthy_def by blast
  moreover have "sign_trace_via_hardware_signer (pf_crypto pf) en ?u = Inr ?s"
    by (simp add: sign_trace_via_hardware_signer_def m)
  ultimately show ?thesis by (simp add: seal_sign_wrap_def)
qed

lemma healthy_step:
  assumes h: "healthy pf cf en" and inv: "client_inv s" and step: "client_step pf cf (en, ev) s = (s1, out)"
  shows "if completes ev
     then \<exists>i n v b. out = Inr (SealedAndPersisted i n v) \<and> cs_persist_calls s1 = cs_persist_calls s @ [b]
     else cs_persist_calls s1 = cs_persist_calls s \<and> (\<forall>i n v. out \<noteq> Inr (SealedAndPersisted i n v))"
    and "cs_store s1 = fst (capture ev (in_thought_id ev) (cs_store s))"
proof -
  obtain st o1 where cap: "capture ev (in_thought_id ev) (cs_store s) = (st, o1)" by fastforce
  obtain res ts where c: "consent_at_seal cf en = Inr res" "permitted_timestamp pf res = Some ts"
    using h unfolding healthy_def by blast
  have gate: "gate_sealed pf cf en t = Inr (ReadyToSeal t (make_provenance cf (en_now_rfc3339 en) ts) (cf_deployment_profile cf))" for t
    using c by (simp add: gate_ready_iff)
  have facts: "(if completes ev
     then \<exists>i n v b. out = Inr (SealedAndPersisted i n v) \<and> cs_persist_calls s1 = cs_persist_calls s @ [b]
     else cs_persist_calls s1 = cs_persist_calls s \<and> (\<forall>i n v. out \<noteq> Inr (SealedAndPersisted i n v)))
     \<and> cs_store s1 = st"
  proof (cases "completes ev")
    case True
    then obtain t where t: "o1 = Sealed t"
      using capture_seals_iff [of ev "in_thought_id ev" "cs_store s"] cap by auto
    obtain b where b: "seal_sign_wrap pf en t (make_provenance cf (en_now_rfc3339 en) ts) (cf_deployment_profile cf) = Inr b"
      using seal_sign_wrap_healthy [OF h] by blast
    obtain n v where "en_receive_and_persist en b = Inr (n, v)"
      using h unfolding healthy_def by blast
    with step t b True show ?thesis
      by (auto simp: client_step_def capture_event_def prepare_for_seal_def cap gate persist_batch_def)
  next
    case False
    then have "\<nexists>t. o1 = Sealed t"
      using capture_seals_iff [of ev "in_thought_id ev" "cs_store s"] cap by auto
    with step False show ?thesis
      by (cases o1) (auto simp: client_step_def capture_event_def prepare_for_seal_def cap)
  qed
  then show "if completes ev
     then \<exists>i n v b. out = Inr (SealedAndPersisted i n v) \<and> cs_persist_calls s1 = cs_persist_calls s @ [b]
     else cs_persist_calls s1 = cs_persist_calls s \<and> (\<forall>i n v. out \<noteq> Inr (SealedAndPersisted i n v))" by (rule conjunct1)
  show "cs_store s1 = fst (capture ev (in_thought_id ev) (cs_store s))" using facts cap by simp
qed

lemma pending_snoc:
  "pending tid (evs @ [ev]) \<longleftrightarrow>
     (if in_thought_id ev = tid \<and> known_event ev then \<not> completes ev else pending tid evs)"
  by (simp add: pending_def Let_def)

section \<open>Runs\<close>

definition all_healthy :: "'vk platform \<Rightarrow> client_config \<Rightarrow> (('de, 'pe) engine \<times> inbound_event) list \<Rightarrow> bool" where
  "all_healthy pf cf is = list_all (\<lambda>(en, ev). healthy pf cf en) is"

lemma run_snoc:
  "run step (is @ [i]) s = (s', outs) \<longleftrightarrow>
     (\<exists>s1 os out. run step is s = (s1, os) \<and> step i s1 = (s', out) \<and> outs = os @ [out])"
  by (auto simp: run_append split: prod.splits)

lemma run_delivers:
  assumes "all_healthy pf cf is" "run (client_step pf cf) is client_new = (s, outs)"
  shows "list_all2 (\<lambda>(en, ev) out. (\<exists>i n v. out = Inr (SealedAndPersisted i n v)) \<longleftrightarrow> completes ev) is outs"
    and "length (cs_persist_calls s) = length (filter (\<lambda>(en, ev). completes ev) is)"
    and "hm_get (active (cs_store s)) tid \<noteq> None \<longleftrightarrow> pending tid (map snd is)"
proof -
  have "list_all2 (\<lambda>(en, ev) out. (\<exists>i n v. out = Inr (SealedAndPersisted i n v)) \<longleftrightarrow> completes ev) is outs
    \<and> length (cs_persist_calls s) = length (filter (\<lambda>(en, ev). completes ev) is)
    \<and> (hm_get (active (cs_store s)) tid \<noteq> None \<longleftrightarrow> pending tid (map snd is))"
    using assms
  proof (induction "is" arbitrary: s outs rule: rev_induct)
    case Nil
    then show ?case by (auto simp: client_new_def store_new_def hm.get_empty pending_def)
  next
    case (snoc i "is")
    obtain en ev where i: "i = (en, ev)" by fastforce
    obtain s1 os out where r: "run (client_step pf cf) is client_new = (s1, os)"
        "client_step pf cf (en, ev) s1 = (s, out)" "outs = os @ [out]"
      using snoc.prems(2) unfolding run_snoc i by blast
    have h: "healthy pf cf en" "all_healthy pf cf is"
      using snoc.prems(1) by (simp_all add: all_healthy_def i)
    have inv: "client_inv s1" by (rule client.run_inv [OF client_inv_new r(1)])
    note IH = snoc.IH [OF h(2) r(1)]
    note step = healthy_step [OF h(1) inv r(2)]
    have "store_maps (cs_store s1)" using inv by (simp add: client_inv_def store_inv_def)
    then have "hm_get (active (cs_store s)) tid \<noteq> None \<longleftrightarrow>
        (if in_thought_id ev = tid \<and> known_event ev then \<not> completes ev else hm_get (active (cs_store s1)) tid \<noteq> None)"
      unfolding step(2) by (rule capture_active) (rule prod.collapse [symmetric])
    with IH step(1) show ?case
      by (cases "completes ev") (auto simp: r(3) i pending_snoc list_all2_appendI)
  qed
  then show "list_all2 (\<lambda>(en, ev) out. (\<exists>i n v. out = Inr (SealedAndPersisted i n v)) \<longleftrightarrow> completes ev) is outs"
    "length (cs_persist_calls s) = length (filter (\<lambda>(en, ev). completes ev) is)"
    "hm_get (active (cs_store s)) tid \<noteq> None \<longleftrightarrow> pending tid (map snd is)" by simp_all
qed

lemma sealed_keeps_id:
  assumes "hm_get (active s) (in_thought_id ev) = Some t0" "capture ev new_id s = (s', Sealed t)"
  shows "ct_trace_id t = ct_trace_id t0"
  using assms by (auto simp: capture_def Let_def extend_trace_def split: option.splits if_splits)

section \<open>Properties\<close>

text \<open>
  C11: progress. On a host whose steps succeed and with consent in force, over any
  interleaved stream: an event answers that a batch was persisted exactly when it completes
  its thought, one batch goes out for each of them, and the thoughts in memory are exactly
  those whose last event does not complete them. None of these is stuck: whatever came
  before, the next completing event of such a thought takes it out of memory and hands out
  a lawful batch with its trace under the identifier it was opened with.
\<close>

theorem completed_thoughts_are_delivered:
  assumes "all_healthy pf cf is" "run (client_step pf cf) is client_new = (s, outs)"
  shows "list_all2 (\<lambda>(en, ev) out. (\<exists>i n v. out = Inr (SealedAndPersisted i n v)) \<longleftrightarrow> completes ev) is outs
    \<and> length (cs_persist_calls s) = length (filter (\<lambda>(en, ev). completes ev) is)
    \<and> (\<forall>tid. hm_get (active (cs_store s)) tid \<noteq> None \<longleftrightarrow> pending tid (map snd is))
    \<and> (\<forall>en ev. pending (in_thought_id ev) (map snd is) \<longrightarrow> healthy pf cf en \<longrightarrow> completes ev \<longrightarrow>
        (\<exists>s' t0 t b n v. client_step pf cf (en, ev) s = (s', Inr (SealedAndPersisted (ct_trace_id t0) n v))
           \<and> hm_get (active (cs_store s)) (in_thought_id ev) = Some t0
           \<and> hm_get (active (cs_store s')) (in_thought_id ev) = None
           \<and> cs_persist_calls s' = cs_persist_calls s @ [b] \<and> ct_trace_id t = ct_trace_id t0
           \<and> lawful_batch pf cf en ev t b))"
proof (intro conjI allI impI)
  show "list_all2 (\<lambda>(en, ev) out. (\<exists>i n v. out = Inr (SealedAndPersisted i n v)) \<longleftrightarrow> completes ev) is outs"
    "length (cs_persist_calls s) = length (filter (\<lambda>(en, ev). completes ev) is)"
    "hm_get (active (cs_store s)) tid \<noteq> None \<longleftrightarrow> pending tid (map snd is)" for tid
    by (rule run_delivers [OF assms])+
  fix en ev assume p: "pending (in_thought_id ev) (map snd is)" and h: "healthy pf cf en" and c: "completes ev"
  have inv: "client_inv s" by (rule client.run_inv [OF client_inv_new assms(2)])
  obtain t0 where t0: "hm_get (active (cs_store s)) (in_thought_id ev) = Some t0"
    using run_delivers(3) [OF assms, of "in_thought_id ev"] p by blast
  obtain s' out where step: "client_step pf cf (en, ev) s = (s', out)" by fastforce
  obtain i n v where out: "out = Inr (SealedAndPersisted i n v)" and store: "cs_store s' = fst (capture ev (in_thought_id ev) (cs_store s))"
    using healthy_step [OF h inv step] c by auto
  obtain t b where t: "capture ev (in_thought_id ev) (cs_store s) = (cs_store s', Sealed t)" "lawful_batch pf cf en ev t b"
      "cs_persist_calls s' = cs_persist_calls s @ [b]"
      "out = rbind (map_err PersistFailed (en_receive_and_persist en b)) (\<lambda>(n, v). Inr (SealedAndPersisted (ct_trace_id t) n v))"
    using client_step_effects(2) [OF inv step] out by blast
  have id: "ct_trace_id t = ct_trace_id t0" by (rule sealed_keeps_id [OF t0 t(1)])
  then have "i = ct_trace_id t0" using t(4) [unfolded out, symmetric] by (auto simp: rbind_eq_Inr_iff)
  moreover have "hm_get (active (cs_store s')) (in_thought_id ev) = None"
    using capture_active [OF _ t(1), of "in_thought_id ev"] inv c
    by (auto simp: client_inv_def store_inv_def known_event_def completes_def split: option.splits)
  ultimately show "\<exists>s' t0 t b n v. client_step pf cf (en, ev) s = (s', Inr (SealedAndPersisted (ct_trace_id t0) n v))
           \<and> hm_get (active (cs_store s)) (in_thought_id ev) = Some t0
           \<and> hm_get (active (cs_store s')) (in_thought_id ev) = None
           \<and> cs_persist_calls s' = cs_persist_calls s @ [b] \<and> ct_trace_id t = ct_trace_id t0
           \<and> lawful_batch pf cf en ev t b"
    using step out t0 t id by blast
qed

lemma demo_healthy: "healthy demo_platform demo_config (demo_engine [demo_row ''1'' ''scores'' 5])"
proof -
  have consent: "(case consent_at_seal demo_config (demo_engine [demo_row ''1'' ''scores'' 5]) of
      Inr res \<Rightarrow> permitted_timestamp demo_platform res \<noteq> None | Inl _ \<Rightarrow> False)"
    by code_simp
  have bytes: "canonical_bytes (pf_crypto demo_platform) t = Inr [1]" for t
    by (simp add: canonical_bytes_def demo_platform_def)
  show ?thesis
    using consent
    by (auto simp: healthy_def bytes split: sum.splits) (auto simp: demo_engine_def demo_platform_def)
qed

lemma completed_thoughts_are_delivered_witness:
  "\<exists>s outs s' i n v. run (client_step demo_platform demo_config) (demo_inputs [demo_row ''1'' ''scores'' 5]) client_new = (s, outs)
     \<and> length (cs_persist_calls s) = 1 \<and> hm_get (active (cs_store s)) ''a'' = None
     \<and> client_step demo_platform demo_config (demo_engine [demo_row ''1'' ''scores'' 5], demo_event ''ACTION_RESULT'' ''b'' ''6'') s
         = (s', Inr (SealedAndPersisted i n v))
     \<and> hm_get (active (cs_store s')) ''b'' = None"
proof -
  let ?rows = "[demo_row ''1'' ''scores'' 5]" and ?ev = "demo_event ''ACTION_RESULT'' ''b'' ''6''"
  obtain s outs where r: "run (client_step demo_platform demo_config) (demo_inputs ?rows) client_new = (s, outs)" by fastforce
  have h: "all_healthy demo_platform demo_config (demo_inputs ?rows)"
    by (simp add: all_healthy_def demo_inputs_def demo_healthy list_all_iff)
  have facts: "length (filter (\<lambda>(en, ev). completes ev) (demo_inputs ?rows)) = 1" "completes ?ev"
    "\<not> pending ''a'' (map snd (demo_inputs ?rows))" "pending (in_thought_id ?ev) (map snd (demo_inputs ?rows))"
    "in_thought_id ?ev = ''b''"
    by code_simp+
  note t = completed_thoughts_are_delivered [OF h r]
  from t [THEN conjunct2, THEN conjunct2, THEN conjunct2, rule_format, OF facts(4) demo_healthy facts(2)]
  obtain s' i n v where "client_step demo_platform demo_config (demo_engine ?rows, ?ev) s = (s', Inr (SealedAndPersisted i n v))"
    "hm_get (active (cs_store s')) ''b'' = None"
    unfolding facts(5) by blast
  moreover have "length (cs_persist_calls s) = 1" "hm_get (active (cs_store s)) ''a'' = None"
    using t facts(1,3) by auto
  ultimately show ?thesis using r by blast
qed

end
