(* ===== verification/Interleaving.thy ===== *)
theory Interleaving
  imports CaptureClient
begin

text \<open>
  Concurrent use of one \<open>CaptureClient\<close> (\<open>src/src/capture/client.rs\<close>). The methods take
  \<open>&self\<close>: many calls may be under way at once, each holding the store lock only while it
  polls the store and suspended at every \<open>await\<close>, where its future may also be dropped. A
  call is modelled as a task with a phase; one step of any task is what the code does between
  two points where others can run. The theory shows that every finished execution is one of
  the sequential client, the calls taken in the order in which they obtained the lock.
\<close>

section \<open>Tasks\<close>

datatype request = Feed inbound_event | Sweep instant u64

datatype ('de, 'pe) answer =
    Answered "('de, 'pe) client_error + event_outcome"
  | Swept nat

text \<open>
  Where a call stands: not yet at the lock; with a sealed trace at the consent gate; past it,
  waiting for the signer; with a batch before taking a copy number, before writing the copy
  under the number taken, before handing the batch to the host, waiting for the host. A call
  ends in a phase, with its answer or, when it was dropped, without one.
\<close>

datatype ('de, 'pe) phase =
    Waiting
  | Gating complete_trace
  | Sealing complete_trace batch_provenance "json option"
  | Copying complete_trace bytes
  | Writing complete_trace bytes string u64
  | Handing complete_trace bytes
  | Persisting complete_trace bytes
  | Ended "('de, 'pe) phase" "('de, 'pe) answer option"

abbreviation answered ::
    "('de, 'pe) phase \<Rightarrow> (('de, 'pe) client_error + event_outcome) \<Rightarrow> ('de, 'pe) phase" where
  "answered p r \<equiv> Ended p (Some (Answered r))"

fun advance ::
    "(string \<Rightarrow> instant option) \<Rightarrow> 'vk platform \<Rightarrow> client_config \<Rightarrow> ('de, 'pe) engine \<Rightarrow> request \<Rightarrow>
       ('de, 'pe) phase \<Rightarrow> client_state \<Rightarrow> (client_state \<times> ('de, 'pe) phase) option" where
  "advance rfc pf cf en (Sweep now age) Waiting s =
     (case client_orphan_sweep rfc now age s of (s', n) \<Rightarrow> Some (s', Ended Waiting (Some (Swept n))))"
| "advance rfc pf cf en (Feed ev) Waiting s =
     (case capture ev (in_thought_id ev) (cs_store s) of (store, out) \<Rightarrow>
        Some (s\<lparr>cs_store := store\<rparr>,
          case out of
            Opened \<Rightarrow> answered Waiting (Inr EvOpened)
          | Appended \<Rightarrow> answered Waiting (Inr EvAppended)
          | UnknownEvent raw \<Rightarrow> answered Waiting (Inr (EvRejected raw))
          | Sealed t \<Rightarrow> Gating t))"
| "advance rfc pf cf en req (Gating t) s =
     Some (s, case gate_sealed pf cf en t of
         Inl e \<Rightarrow> answered (Gating t) (Inl e)
       | Inr (NotSealing out) \<Rightarrow> answered (Gating t) (Inr out)
       | Inr (ReadyToSeal u prov profile) \<Rightarrow> Sealing u prov profile)"
| "advance rfc pf cf en req (Sealing t prov profile) s =
     Some (s, case seal_sign_wrap pf en t prov profile of
         Inl e \<Rightarrow> answered (Sealing t prov profile) (Inl e)
       | Inr b \<Rightarrow> Copying t b)"
| "advance rfc pf cf en req (Copying t b) s =
     (case cf_local_copy_dir cf of
        None \<Rightarrow> Some (s, Handing t b)
      | Some d \<Rightarrow> Some (s\<lparr>cs_tee_seq := cs_tee_seq s + 1\<rparr>, Writing t b d (cs_tee_seq s)))"
| "advance rfc pf cf en req (Writing t b d k) s =
     Some (s\<lparr>cs_tee_writes := cs_tee_writes s @ [(d, ''lens-batch-'' @ pad8 (unat k) @ ''.json'', b)]\<rparr>,
       Handing t b)"
| "advance rfc pf cf en req (Handing t b) s =
     Some (s\<lparr>cs_persist_calls := cs_persist_calls s @ [b]\<rparr>, Persisting t b)"
| "advance rfc pf cf en req (Persisting t b) s =
     Some (s, answered (Persisting t b)
       (rbind (map_err PersistFailed (en_receive_and_persist en b)) (\<lambda>(inserted, verified).
          Inr (SealedAndPersisted (ct_trace_id t) inserted verified))))"
| "advance rfc pf cf en req (Ended p a) s = None"

text \<open>The suspension points: a future that is dropped is dropped there.\<close>

fun suspended :: "('de, 'pe) phase \<Rightarrow> bool" where
  "suspended Waiting = True"
| "suspended (Gating _) = True"
| "suspended (Sealing _ _ _) = True"
| "suspended (Persisting _ _) = True"
| "suspended _ = False"

type_synonym ('de, 'pe) pool = "client_state \<times> (request \<times> ('de, 'pe) phase) list"

text \<open>
  One step of the pool: a new call, a dropped call, or one task going on. The host it meets
  is any member of \<open>hosts\<close>, so directory, signer and store may change between any two steps.
\<close>

inductive moves ::
    "(string \<Rightarrow> instant option) \<Rightarrow> 'vk platform \<Rightarrow> client_config \<Rightarrow> ('de, 'pe) engine set \<Rightarrow>
       ('de, 'pe) pool \<Rightarrow> ('de, 'pe) pool \<Rightarrow> bool"
  for rfc pf cf hosts where
    call: "moves rfc pf cf hosts (s, ts) (s, ts @ [(req, Waiting)])"
  | dropped: "i < length ts \<Longrightarrow> ts ! i = (req, p) \<Longrightarrow> suspended p \<Longrightarrow>
      moves rfc pf cf hosts (s, ts) (s, ts[i := (req, Ended p None)])"
  | go_on: "i < length ts \<Longrightarrow> ts ! i = (req, p) \<Longrightarrow> en \<in> hosts \<Longrightarrow>
      advance rfc pf cf en req p s = Some (s', p') \<Longrightarrow>
      moves rfc pf cf hosts (s, ts) (s', ts[i := (req, p')])"

inductive reaches ::
    "(string \<Rightarrow> instant option) \<Rightarrow> 'vk platform \<Rightarrow> client_config \<Rightarrow> ('de, 'pe) engine set \<Rightarrow>
       ('de, 'pe) pool \<Rightarrow> bool"
  for rfc pf cf hosts where
    fresh: "reaches rfc pf cf hosts (client_new, [])"
  | later: "reaches rfc pf cf hosts S \<Longrightarrow> moves rfc pf cf hosts S S' \<Longrightarrow> reaches rfc pf cf hosts S'"

section \<open>The sequential client\<close>

fun serve ::
    "(string \<Rightarrow> instant option) \<Rightarrow> 'vk platform \<Rightarrow> client_config \<Rightarrow> ('de, 'pe) engine \<times> request \<Rightarrow>
       client_state \<Rightarrow> client_state \<times> ('de, 'pe) answer" where
  "serve rfc pf cf (en, Feed ev) s =
     (case capture_event pf cf en ev s of (s', r) \<Rightarrow> (s', Answered r))"
| "serve rfc pf cf (en, Sweep now age) s =
     (case client_orphan_sweep rfc now age s of (s', n) \<Rightarrow> (s', Swept n))"

text \<open>A host pieced together from what a call saw at the gate, at the signer and at the end.\<close>

definition mix :: "('de, 'pe) engine \<Rightarrow> ('de, 'pe) engine \<Rightarrow> ('de, 'pe) engine \<Rightarrow> ('de, 'pe) engine" where
  "mix g s p = \<lparr>en_list_attestations_by = en_list_attestations_by g, en_sign = en_sign s,
     en_current_alias = en_current_alias s, en_receive_and_persist = en_receive_and_persist p,
     en_now_rfc3339 = en_now_rfc3339 g\<rparr>"

definition mixes :: "('de, 'pe) engine set \<Rightarrow> ('de, 'pe) engine set" where
  "mixes hosts = {mix g s p | g s p. g \<in> hosts \<and> s \<in> hosts \<and> p \<in> hosts}"

text \<open>A call is its step on the store followed by what it makes of the outcome.\<close>

fun store_step ::
    "(string \<Rightarrow> instant option) \<Rightarrow> request \<Rightarrow> partial_store \<Rightarrow> partial_store \<times> (capture_outcome + nat)" where
  "store_step rfc (Feed ev) st = (case capture ev (in_thought_id ev) st of (st', out) \<Rightarrow> (st', Inl out))"
| "store_step rfc (Sweep now age) st =
     (case orphan_sweep rfc now (clamp_max_age age) st of (st', n) \<Rightarrow> (st', Inr n))"

fun emission ::
    "'vk platform \<Rightarrow> client_config \<Rightarrow> ('de, 'pe) engine \<Rightarrow> capture_outcome + nat \<Rightarrow> bytes list" where
  "emission pf cf en (Inl (Sealed t)) =
     (case gate_sealed pf cf en t of
        Inr (ReadyToSeal u prov profile) \<Rightarrow>
          (case seal_sign_wrap pf en u prov profile of Inl e \<Rightarrow> [] | Inr b \<Rightarrow> [b])
      | _ \<Rightarrow> [])"
| "emission pf cf en _ = []"

fun reply ::
    "'vk platform \<Rightarrow> client_config \<Rightarrow> ('de, 'pe) engine \<Rightarrow> capture_outcome + nat \<Rightarrow> ('de, 'pe) answer" where
  "reply pf cf en (Inr n) = Swept n"
| "reply pf cf en (Inl Opened) = Answered (Inr EvOpened)"
| "reply pf cf en (Inl Appended) = Answered (Inr EvAppended)"
| "reply pf cf en (Inl (UnknownEvent raw)) = Answered (Inr (EvRejected raw))"
| "reply pf cf en (Inl (Sealed t)) = Answered
     (rbind (gate_sealed pf cf en t) (\<lambda>g. case g of
        NotSealing out \<Rightarrow> Inr out
      | ReadyToSeal u prov profile \<Rightarrow>
          rbind (seal_sign_wrap pf en u prov profile) (\<lambda>b.
          rbind (map_err PersistFailed (en_receive_and_persist en b)) (\<lambda>(n, v).
          Inr (SealedAndPersisted (ct_trace_id u) n v)))))"

definition emit :: "string option \<Rightarrow> bytes \<Rightarrow> client_state \<Rightarrow> client_state" where
  "emit dir b s =
     (let s1 = tee_write_if_configured dir b s in s1\<lparr>cs_persist_calls := cs_persist_calls s1 @ [b]\<rparr>)"

lemma serve_factors:
  "serve rfc pf cf (en, req) s =
     (case store_step rfc req (cs_store s) of (st, out) \<Rightarrow>
        (fold (emit (cf_local_copy_dir cf)) (emission pf cf en out) (s\<lparr>cs_store := st\<rparr>), reply pf cf en out))"
proof (cases req)
  case (Feed ev)
  obtain st out where c: "capture ev (in_thought_id ev) (cs_store s) = (st, out)" by fastforce
  show ?thesis
  proof (cases out)
    case (Sealed t)
    show ?thesis
    proof (cases "gate_sealed pf cf en t")
      case (Inr g)
      then show ?thesis
        by (cases g; cases "\<exists>u prov profile. g = ReadyToSeal u prov profile \<and> isl (seal_sign_wrap pf en u prov profile)")
          (auto simp: Feed c Sealed capture_event_def prepare_for_seal_def emit_def persist_batch_def rbind_def Let_def
            isl_def split: sum.splits)
    qed (simp add: Feed c Sealed capture_event_def prepare_for_seal_def rbind_def)
  qed (simp_all add: Feed c capture_event_def prepare_for_seal_def)
qed (simp add: client_orphan_sweep_def split: prod.split)

text \<open>A task that runs without interruption is the sequential call, and no task waits for another.\<close>

fun alone ::
    "(string \<Rightarrow> instant option) \<Rightarrow> 'vk platform \<Rightarrow> client_config \<Rightarrow> ('de, 'pe) engine \<Rightarrow> request \<Rightarrow>
       nat \<Rightarrow> ('de, 'pe) phase \<Rightarrow> client_state \<Rightarrow> client_state \<times> ('de, 'pe) phase" where
  "alone rfc pf cf en req 0 p s = (s, p)"
| "alone rfc pf cf en req (Suc n) p s =
     (case advance rfc pf cf en req p s of
        None \<Rightarrow> (s, p)
      | Some (s', p') \<Rightarrow> alone rfc pf cf en req n p' s')"

lemma alone_ended [simp]: "alone rfc pf cf en req n (Ended p a) s = (s, Ended p a)"
  by (cases n) simp_all

lemma alone_serves:
  assumes "serve rfc pf cf (en, req) s = (s', a)"
  shows "\<exists>p. alone rfc pf cf en req 7 Waiting s = (s', Ended p (Some a))"
proof (cases req)
  case (Sweep now age)
  with assms show ?thesis by (auto simp: numeral_eq_Suc split: prod.splits)
next
  case (Feed ev)
  obtain st out where c: "capture ev (in_thought_id ev) (cs_store s) = (st, out)" by fastforce
  show ?thesis
  proof (cases out)
    case (Sealed t)
    note here = assms Feed c Sealed
    show ?thesis
    proof (cases "gate_sealed pf cf en t")
      case (Inl e)
      with here show ?thesis by (simp add: numeral_eq_Suc capture_event_def prepare_for_seal_def)
    next
      case (Inr g)
      show ?thesis
      proof (cases g)
        case (NotSealing o1)
        with here Inr show ?thesis by (simp add: numeral_eq_Suc capture_event_def prepare_for_seal_def)
      next
        case (ReadyToSeal u prov profile)
        with here Inr show ?thesis
          by (cases "seal_sign_wrap pf en u prov profile"; cases "cf_local_copy_dir cf")
            (auto simp: numeral_eq_Suc capture_event_def prepare_for_seal_def persist_batch_def tee_write_if_configured_def)
      qed
    qed
  qed (use assms Feed c in \<open>simp_all add: numeral_eq_Suc capture_event_def prepare_for_seal_def\<close>)
qed

lemma advance_total: "advance rfc pf cf en req p s = None \<longleftrightarrow> (\<exists>q a. p = Ended q a)"
  by (cases p; cases req) (auto simp: client_orphan_sweep_def split: prod.split option.split)

lemma fold_emit_store: "fold (emit dir) bs (s\<lparr>cs_store := st\<rparr>) = (fold (emit dir) bs s)\<lparr>cs_store := st\<rparr>"
proof (induction bs arbitrary: s)
  case (Cons b bs)
  have "emit dir b (s\<lparr>cs_store := st\<rparr>) = (emit dir b s)\<lparr>cs_store := st\<rparr>"
    by (simp add: emit_def tee_write_if_configured_def Let_def split: option.split)
  then show ?case by (simp add: Cons.IH)
qed simp

lemma run_serve:
  assumes "length ens = length reqs" "run (store_step rfc) reqs (cs_store s) = (st, outs)"
  shows "run (serve rfc pf cf) (zip ens reqs) s =
     ((fold (emit (cf_local_copy_dir cf)) (concat (map2 (emission pf cf) ens outs)) s)\<lparr>cs_store := st\<rparr>,
      map2 (reply pf cf) ens outs)"
  using assms
proof (induction ens reqs arbitrary: s outs rule: list_induct2)
  case (Cons en ens req reqs)
  obtain st1 out where 1: "store_step rfc req (cs_store s) = (st1, out)" by fastforce
  obtain outs' where 2: "run (store_step rfc) reqs st1 = (st, outs')" "outs = out # outs'"
    using Cons.prems by (auto simp: 1 split: prod.splits)
  let ?bs = "emission pf cf en out"
  let ?s1 = "fold (emit (cf_local_copy_dir cf)) ?bs s"
  have "run (serve rfc pf cf) (zip ens reqs) (?s1\<lparr>cs_store := st1\<rparr>) =
     ((fold (emit (cf_local_copy_dir cf)) (concat (map2 (emission pf cf) ens outs')) (?s1\<lparr>cs_store := st1\<rparr>))\<lparr>cs_store := st\<rparr>,
      map2 (reply pf cf) ens outs')"
    by (rule Cons.IH) (simp add: 2)
  then show ?case by (simp add: serve_factors 1 2 fold_emit_store)
qed simp

text \<open>The number under which the k-th copy goes, and what a run of emissions leaves.\<close>

abbreviation copy_name :: "u64 \<Rightarrow> string" where
  "copy_name k \<equiv> ''lens-batch-'' @ pad8 (unat k) @ ''.json''"

lemma fold_emit_calls: "cs_persist_calls (fold (emit dir) bs s) = cs_persist_calls s @ bs"
  by (induction bs arbitrary: s) (simp_all add: emit_def Let_def)

lemma fold_emit_none: "cs_tee_seq (fold (emit None) bs s) = cs_tee_seq s \<and> cs_tee_writes (fold (emit None) bs s) = cs_tee_writes s"
  by (induction bs arbitrary: s) (simp_all add: emit_def tee_write_if_configured_def Let_def)

lemma fold_emit_some:
  "cs_tee_seq (fold (emit (Some d)) bs s) = cs_tee_seq s + of_nat (length bs)
   \<and> map (\<lambda>(d, f, b). (d, f)) (cs_tee_writes (fold (emit (Some d)) bs s)) =
       map (\<lambda>(d, f, b). (d, f)) (cs_tee_writes s)
         @ map (\<lambda>i. (d, copy_name (cs_tee_seq s + of_nat i))) [0..<length bs]
   \<and> map (snd \<circ> snd) (cs_tee_writes (fold (emit (Some d)) bs s)) = map (snd \<circ> snd) (cs_tee_writes s) @ bs"
  by (induction bs rule: rev_induct) (auto simp: emit_def tee_write_if_configured_def Let_def add.assoc)

section \<open>What a task has done\<close>

fun handed :: "('de, 'pe) phase \<Rightarrow> bytes list" where
  "handed (Persisting t b) = [b]"
| "handed (Ended p a) = handed p"
| "handed _ = []"

fun copied :: "string option \<Rightarrow> ('de, 'pe) phase \<Rightarrow> bytes list" where
  "copied dir (Handing t b) = (if dir = None then [] else [b])"
| "copied dir (Persisting t b) = (if dir = None then [] else [b])"
| "copied dir (Ended p a) = copied dir p"
| "copied dir _ = []"

fun reserved :: "('de, 'pe) phase \<Rightarrow> (string \<times> string) list" where
  "reserved (Writing t b d k) = [(d, copy_name k)]"
| "reserved _ = []"

text \<open>The batch a task carries is that of its trace, under the gate and the signer it met.\<close>

definition ready_batch ::
    "'vk platform \<Rightarrow> client_config \<Rightarrow> ('de, 'pe) engine set \<Rightarrow> capture_outcome + nat \<Rightarrow> complete_trace \<Rightarrow> bytes \<Rightarrow> bool" where
  "ready_batch pf cf hosts out t b \<longleftrightarrow> out = Inl (Sealed t) \<and>
     (\<exists>g \<in> hosts. \<exists>s \<in> hosts. \<exists>prov profile. gate_sealed pf cf g t = Inr (ReadyToSeal t prov profile)
        \<and> seal_sign_wrap pf s t prov profile = Inr b)"

fun agrees ::
    "'vk platform \<Rightarrow> client_config \<Rightarrow> ('de, 'pe) engine set \<Rightarrow> capture_outcome + nat \<Rightarrow> ('de, 'pe) phase \<Rightarrow> bool" where
  "agrees pf cf hosts out Waiting = False"
| "agrees pf cf hosts out (Gating t) = (out = Inl (Sealed t))"
| "agrees pf cf hosts out (Sealing t prov profile) =
     (out = Inl (Sealed t) \<and> (\<exists>g \<in> hosts. gate_sealed pf cf g t = Inr (ReadyToSeal t prov profile)))"
| "agrees pf cf hosts out (Copying t b) = ready_batch pf cf hosts out t b"
| "agrees pf cf hosts out (Writing t b d k) = (ready_batch pf cf hosts out t b \<and> cf_local_copy_dir cf = Some d)"
| "agrees pf cf hosts out (Handing t b) = ready_batch pf cf hosts out t b"
| "agrees pf cf hosts out (Persisting t b) = ready_batch pf cf hosts out t b"
| "agrees pf cf hosts out (Ended p None) = (suspended p \<and> agrees pf cf hosts out p)"
| "agrees pf cf hosts out (Ended p (Some a)) =
     (suspended p \<and> (\<exists>en \<in> mixes hosts. reply pf cf en out = a \<and> emission pf cf en out = handed p))"

lemma gate_mix [simp]: "gate_sealed pf cf (mix g s p) t = gate_sealed pf cf g t"
  by (simp add: gate_sealed_def consent_at_seal_def mix_def cong: option.case_cong)

lemma wrap_mix [simp]: "seal_sign_wrap pf (mix g s p) t prov profile = seal_sign_wrap pf s t prov profile"
  by (simp add: seal_sign_wrap_def sign_trace_via_hardware_signer_def mix_def)

lemma persist_mix [simp]: "en_receive_and_persist (mix g s p) = en_receive_and_persist p"
  by (simp add: mix_def)

lemma mixesI: "g \<in> hosts \<Longrightarrow> s \<in> hosts \<Longrightarrow> p \<in> hosts \<Longrightarrow> mix g s p \<in> mixes hosts"
  by (auto simp: mixes_def)

lemma advance_locked:
  assumes "advance rfc pf cf en req Waiting s = Some (s', p')" "en \<in> hosts"
  shows "\<exists>out. store_step rfc req (cs_store s) = (cs_store s', out) \<and> agrees pf cf hosts out p'"
  using assms mixesI [of en hosts en en]
  by (cases req) (auto simp: client_orphan_sweep_def split: prod.splits capture_outcome.splits)

lemma advance_store:
  "advance rfc pf cf en req p s = Some (s', p') \<Longrightarrow> p \<noteq> Waiting \<Longrightarrow> cs_store s' = cs_store s"
  by (cases p) (auto split: option.splits)

lemma advance_agrees:
  assumes "advance rfc pf cf en req p s = Some (s', p')" "en \<in> hosts" "agrees pf cf hosts out p"
  shows "agrees pf cf hosts out p'"
proof (cases p)
  case (Gating t)
  note here = assms Gating mixesI [OF assms(2) assms(2) assms(2)]
  show ?thesis
  proof (cases "gate_sealed pf cf en t")
    case (Inl e)
    with here show ?thesis by (auto simp: rbind_def intro!: bexI [of _ "mix en en en"])
  next
    case (Inr g)
    show ?thesis
    proof (cases g)
      case (NotSealing o1)
      with here Inr show ?thesis by (auto simp: rbind_def intro!: bexI [of _ "mix en en en"])
    next
      case (ReadyToSeal u prov profile)
      moreover from this Inr have "u = t" by (simp add: gate_ready_iff)
      ultimately show ?thesis using here Inr by auto
    qed
  qed
next
  case (Sealing t prov profile)
  then obtain g where g: "g \<in> hosts" "gate_sealed pf cf g t = Inr (ReadyToSeal t prov profile)"
    using assms(3) by auto
  note here = assms Sealing g mixesI [OF g(1) assms(2) assms(2)]
  show ?thesis
  proof (cases "seal_sign_wrap pf en t prov profile")
    case (Inl e)
    with here show ?thesis by (auto simp: rbind_def intro!: bexI [of _ "mix g en en"])
  next
    case (Inr b)
    have "out = Inl (Sealed t)" using assms(3) Sealing by simp
    with g assms(2) Inr have "ready_batch pf cf hosts out t b" unfolding ready_batch_def by blast
    with here Inr show ?thesis by auto
  qed
next
  case (Persisting t b)
  then obtain g h prov profile where g: "g \<in> hosts" "h \<in> hosts"
      "gate_sealed pf cf g t = Inr (ReadyToSeal t prov profile)" "seal_sign_wrap pf h t prov profile = Inr b"
    using assms(3) by (auto simp: ready_batch_def)
  then show ?thesis
    using assms Persisting mixesI [OF g(1,2) assms(2)]
    by (auto simp: ready_batch_def intro!: bexI [of _ "mix g h en"])
qed (use assms in \<open>auto split: option.splits\<close>)

lemma concat_update:
  "i < length ts \<Longrightarrow> mset (concat (map f (ts[i := x]))) + mset (f (ts ! i)) = mset (concat (map f ts)) + mset (f x)"
proof (induction ts arbitrary: i)
  case (Cons t ts)
  then show ?case by (cases i) (auto simp: ac_simps)
qed simp

lemma concat_grow:
  assumes "i < length ts" "f x = f (ts ! i) @ ys"
  shows "mset (concat (map f (ts[i := x]))) = mset (concat (map f ts)) + mset ys"
  using concat_update [OF assms(1), of f x] assms(2) by (simp add: ac_simps)

lemma moved_total:
  fixes M :: "'x multiset"
  assumes "M' + a' = M + a" "R' + a = R + a'"
  shows "M' + R' = M + R"
proof -
  have "(M' + a') + (R' + a) = (M + a) + (R + a')" by (simp only: assms)
  then show ?thesis by (simp add: ac_simps)
qed

lemma grown_total:
  fixes M :: "'x multiset"
  assumes "M' + a' = add_mset x (M + a)" "R' + a = R + a'"
  shows "M' + R' = add_mset x (M + R)"
  using moved_total [of M' a' "add_mset x M" a R' R] assms by simp

text \<open>What one step adds to the outside.\<close>

abbreviation names_of :: "(string \<times> string \<times> bytes) list \<Rightarrow> (string \<times> string) list" where
  "names_of ws \<equiv> map (\<lambda>(d, f, b). (d, f)) ws"

abbreviation bytes_of :: "(string \<times> string \<times> bytes) list \<Rightarrow> bytes list" where
  "bytes_of ws \<equiv> map (snd \<circ> snd) ws"

lemma advance_calls:
  assumes "advance rfc pf cf en req p s = Some (s', p')"
  obtains bs where "cs_persist_calls s' = cs_persist_calls s @ bs" "handed p' = handed p @ bs"
  using assms
  by (cases p; cases req)
    (auto simp: client_orphan_sweep_def split: prod.splits capture_outcome.splits sum.splits prepare_outcome.splits option.splits)

lemma advance_copies:
  assumes "advance rfc pf cf en req p s = Some (s', p')"
    and "\<And>t b d k. p = Writing t b d k \<Longrightarrow> cf_local_copy_dir cf = Some d"
  obtains bs where "bytes_of (cs_tee_writes s') = bytes_of (cs_tee_writes s) @ bs"
    "copied (cf_local_copy_dir cf) p' = copied (cf_local_copy_dir cf) p @ bs"
  using assms
  by (cases p; cases req)
    (auto simp: client_orphan_sweep_def split: prod.splits capture_outcome.splits sum.splits prepare_outcome.splits option.splits)

lemma advance_names:
  assumes "advance rfc pf cf en req p s = Some (s', p')" "cf_local_copy_dir cf = Some d"
  shows "(cs_tee_seq s' = cs_tee_seq s
        \<and> mset (names_of (cs_tee_writes s')) + mset (reserved p') = mset (names_of (cs_tee_writes s)) + mset (reserved p))
    \<or> (cs_tee_seq s' = cs_tee_seq s + 1
        \<and> mset (names_of (cs_tee_writes s')) + mset (reserved p')
            = add_mset (d, copy_name (cs_tee_seq s)) (mset (names_of (cs_tee_writes s)) + mset (reserved p)))"
  using assms
  by (cases p; cases req)
    (auto simp: client_orphan_sweep_def split: prod.splits capture_outcome.splits sum.splits prepare_outcome.splits option.splits)

lemma advance_no_copies:
  assumes "advance rfc pf cf en req p s = Some (s', p')" "cf_local_copy_dir cf = None"
    and "\<And>t b d k. p \<noteq> Writing t b d k"
  shows "cs_tee_seq s' = cs_tee_seq s \<and> cs_tee_writes s' = cs_tee_writes s"
  using assms
  by (cases p; cases req)
    (auto simp: client_orphan_sweep_def split: prod.splits capture_outcome.splits sum.splits prepare_outcome.splits option.splits)

section \<open>Invariants of the pool\<close>

text \<open>
  The calls that have had the lock, in that order, are a run of the store alone; each of them
  is where its outcome and the hosts it met can have taken it.
\<close>

abbreviation locked :: "('de, 'pe) phase \<Rightarrow> bool" where
  "locked p \<equiv> p \<noteq> Waiting \<and> p \<noteq> Ended Waiting None"

definition serial_order ::
    "(string \<Rightarrow> instant option) \<Rightarrow> 'vk platform \<Rightarrow> client_config \<Rightarrow> ('de, 'pe) engine set \<Rightarrow>
       client_state \<Rightarrow> (request \<times> ('de, 'pe) phase) list \<Rightarrow> nat list \<Rightarrow> (capture_outcome + nat) list \<Rightarrow> bool" where
  "serial_order rfc pf cf hosts s ts order outs \<longleftrightarrow>
     distinct order \<and> set order = {i. i < length ts \<and> locked (snd (ts ! i))}
     \<and> run (store_step rfc) (map (\<lambda>i. fst (ts ! i)) order) store_new = (cs_store s, outs)
     \<and> list_all2 (\<lambda>i out. agrees pf cf hosts out (snd (ts ! i))) order outs"

text \<open>The calls to the host and the copies are those of the tasks, the copies under the numbers taken.\<close>

definition outside_inv :: "client_config \<Rightarrow> client_state \<Rightarrow> (request \<times> ('de, 'pe) phase) list \<Rightarrow> bool" where
  "outside_inv cf s ts \<longleftrightarrow>
     mset (cs_persist_calls s) = mset (concat (map (\<lambda>t. handed (snd t)) ts))
     \<and> mset (bytes_of (cs_tee_writes s)) = mset (concat (map (\<lambda>t. copied (cf_local_copy_dir cf) (snd t)) ts))
     \<and> (case cf_local_copy_dir cf of
          None \<Rightarrow> cs_tee_seq s = 0 \<and> cs_tee_writes s = []
        | Some d \<Rightarrow> \<exists>n. cs_tee_seq s = of_nat n
            \<and> mset (names_of (cs_tee_writes s)) + mset (concat (map (\<lambda>t. reserved (snd t)) ts))
                = mset (map (\<lambda>i. (d, copy_name (of_nat i))) [0..<n]))"

lemma serial_order_update:
  assumes "serial_order rfc pf cf hosts s ts order outs" "i < length ts" "ts ! i = (req, p)"
    and "locked p' = locked p" "cs_store s' = cs_store s"
    and "\<And>out. agrees pf cf hosts out p \<Longrightarrow> agrees pf cf hosts out p'"
  shows "serial_order rfc pf cf hosts s' (ts[i := (req, p')]) order outs"
proof -
  have "fst (ts[i := (req, p')] ! j) = fst (ts ! j)" for j
    using assms(2,3) by (cases "j = i") simp_all
  moreover have "{j. j < length ts \<and> locked (snd (ts[i := (req, p')] ! j))} = {j. j < length ts \<and> locked (snd (ts ! j))}"
    using assms(2-4) by (auto simp: nth_list_update)
  moreover have "agrees pf cf hosts out (snd (ts ! j)) \<Longrightarrow> agrees pf cf hosts out (snd (ts[i := (req, p')] ! j))" for j out
    using assms(2,3,6) by (auto simp: nth_list_update)
  ultimately show ?thesis
    using assms(1,5) by (auto simp: serial_order_def elim: list_all2_mono)
qed

lemma serial_order_lock:
  assumes "serial_order rfc pf cf hosts s ts order outs" "i < length ts" "ts ! i = (req, Waiting)" "locked p'"
    and "store_step rfc req (cs_store s) = (cs_store s', out)" "agrees pf cf hosts out p'"
  shows "serial_order rfc pf cf hosts s' (ts[i := (req, p')]) (order @ [i]) (outs @ [out])"
proof -
  have i: "i \<notin> set order" using assms(1,3) by (simp add: serial_order_def)
  then have same: "map (\<lambda>j. fst (ts[i := (req, p')] ! j)) order = map (\<lambda>j. fst (ts ! j)) order"
    by (intro map_cong refl) (metis nth_list_update_neq)
  have "list_all2 (\<lambda>j out. agrees pf cf hosts out (snd (ts[i := (req, p')] ! j))) order outs"
    using assms(1) i unfolding serial_order_def list_all2_conv_all_nth by (metis nth_list_update_neq nth_mem)
  moreover have "set (order @ [i]) = {j. j < length ts \<and> locked (snd (ts[i := (req, p')] ! j))}"
    using assms(1-4) by (auto simp: serial_order_def nth_list_update)
  ultimately show ?thesis
    using assms i by (simp add: serial_order_def same run_append list_all2_appendI)
qed

lemma serial_order_call:
  assumes "serial_order rfc pf cf hosts s ts order outs"
  shows "serial_order rfc pf cf hosts s (ts @ [(req, Waiting)]) order outs"
proof -
  have old: "j < length ts" if "j \<in> set order" for j
    using assms that by (auto simp: serial_order_def)
  have same: "map (\<lambda>j. fst ((ts @ [(req, Waiting)]) ! j)) order = map (\<lambda>j. fst (ts ! j)) order"
    using old by (simp add: nth_append)
  have "list_all2 (\<lambda>j out. agrees pf cf hosts out (snd ((ts @ [(req, Waiting)]) ! j))) order outs"
    using assms old unfolding serial_order_def list_all2_conv_all_nth by (metis nth_append nth_mem)
  moreover have "{j. j < length (ts @ [(req, Waiting)]) \<and> locked (snd ((ts @ [(req, Waiting)]) ! j))}
      = {j. j < length ts \<and> locked (snd (ts ! j))}"
    by (auto simp: nth_append)
  ultimately show ?thesis using assms unfolding serial_order_def same by simp
qed

lemma advance_ends_waiting:
  assumes "advance rfc pf cf en req p s = Some (s', p')"
  shows "p \<noteq> Ended Waiting None" "locked p'"
proof -
  show "p \<noteq> Ended Waiting None" using assms by auto
  show "locked p'"
    using assms
    by (cases p; cases req)
      (auto split: prod.splits capture_outcome.splits sum.splits prepare_outcome.splits option.splits)
qed

text \<open>A step appends to the order at most the call that takes the lock: earlier calls stay earlier.\<close>

lemma moves_serial:
  assumes "moves rfc pf cf hosts (s, ts) (s', ts')" "serial_order rfc pf cf hosts s ts order outs"
  shows "\<exists>later outs'. serial_order rfc pf cf hosts s' ts' (order @ later) outs'"
  using assms(1)
proof cases
  case (call req)
  with assms(2) have "serial_order rfc pf cf hosts s' ts' order outs" by (auto intro: serial_order_call)
  then show ?thesis by (metis append_Nil2)
next
  case (dropped i req p)
  show ?thesis
  proof (cases "p = Waiting")
    case True
    with dropped have "serial_order rfc pf cf hosts s' ts' order outs"
      by (auto intro!: serial_order_update [OF assms(2)])
    then show ?thesis by (metis append_Nil2)
  next
    case False
    with dropped have "serial_order rfc pf cf hosts s' ts' order outs"
      by (auto intro!: serial_order_update [OF assms(2)])
    then show ?thesis by (metis append_Nil2)
  qed
next
  case (go_on i req p en p')
  show ?thesis
  proof (cases "p = Waiting")
    case True
    with go_on advance_locked obtain out where "store_step rfc req (cs_store s) = (cs_store s', out)" "agrees pf cf hosts out p'"
      by blast
    moreover from this(1) have "locked p'" using advance_ends_waiting [OF go_on(5)] by blast
    ultimately have "serial_order rfc pf cf hosts s' (ts[i := (req, p')]) (order @ [i]) (outs @ [out])"
      using serial_order_lock [OF assms(2)] go_on True by blast
    with go_on show ?thesis by blast
  next
    case False
    have "serial_order rfc pf cf hosts s' (ts[i := (req, p')]) order outs"
    proof (rule serial_order_update [OF assms(2) go_on(2,3)])
      show "locked p' = locked p" using False advance_ends_waiting [OF go_on(5)] by simp
      show "agrees pf cf hosts out p'" if "agrees pf cf hosts out p" for out
        using advance_agrees [OF go_on(5,4) that] .
      show "cs_store s' = cs_store s" using advance_store [OF go_on(5) False] .
    qed
    with go_on show ?thesis by (metis append_Nil2)
  qed
qed

lemma serial_orderD:
  assumes "serial_order rfc pf cf hosts s ts order outs" "i < length ts" "locked (snd (ts ! i))"
  obtains k where "k < length order" "order ! k = i" "k < length outs" "agrees pf cf hosts (outs ! k) (snd (ts ! i))"
proof -
  have "i \<in> set order" using assms by (simp add: serial_order_def)
  then obtain k where "k < length order" "order ! k = i" by (auto simp: in_set_conv_nth)
  with assms(1) that show thesis by (auto simp: serial_order_def list_all2_conv_all_nth)
qed

lemma writing_dir:
  assumes "serial_order rfc pf cf hosts s ts order outs" "i < length ts" "ts ! i = (req, Writing t b d k)"
  shows "cf_local_copy_dir cf = Some d"
  using serial_orderD [OF assms(1,2)] assms(3) by auto

lemma ended_effects:
  "suspended p \<Longrightarrow> handed (Ended p a) = handed p \<and> copied dir (Ended p a) = copied dir p \<and> reserved p = []"
  by (cases p) simp_all

lemma moves_outside:
  assumes "moves rfc pf cf hosts (s, ts) (s', ts')" "serial_order rfc pf cf hosts s ts order outs" "outside_inv cf s ts"
  shows "outside_inv cf s' ts'"
  using assms(1)
proof cases
  case (call req)
  with assms(3) show ?thesis by (simp add: outside_inv_def cong: option.case_cong)
next
  case (dropped i req p)
  note e = ended_effects [OF dropped(5), of None "cf_local_copy_dir cf"]
  have same: "mset (concat (map f (ts[i := (req, Ended p None)]))) = mset (concat (map f ts))"
    if "f (req, Ended p None) = f (req, p)" for f :: "_ \<Rightarrow> 'x list"
    using concat_grow [OF dropped(3), of f "(req, Ended p None)" "[]"] that dropped(4) by simp
  show ?thesis
    using assms(3) e unfolding outside_inv_def dropped(1,2) by (simp add: same cong: option.case_cong)
next
  case (go_on i req p en p')
  let ?dir = "cf_local_copy_dir cf"
  have w: "?dir = Some d" if "p = Writing t b d k" for t b d k
    using writing_dir [OF assms(2) go_on(2)] go_on(3) that by blast
  obtain bs where bs: "cs_persist_calls s' = cs_persist_calls s @ bs" "handed p' = handed p @ bs"
    by (rule advance_calls [OF go_on(5)])
  obtain cs where cs: "bytes_of (cs_tee_writes s') = bytes_of (cs_tee_writes s) @ cs" "copied ?dir p' = copied ?dir p @ cs"
    by (rule advance_copies [OF go_on(5) w])
  have 1: "mset (concat (map (\<lambda>t. handed (snd t)) (ts[i := (req, p')]))) = mset (concat (map (\<lambda>t. handed (snd t)) ts)) + mset bs"
    by (rule concat_grow [OF go_on(2)]) (simp add: go_on(3) bs)
  have 2: "mset (concat (map (\<lambda>t. copied ?dir (snd t)) (ts[i := (req, p')])))
      = mset (concat (map (\<lambda>t. copied ?dir (snd t)) ts)) + mset cs"
    by (rule concat_grow [OF go_on(2)]) (simp add: go_on(3) cs)
  have 3: "mset (concat (map (\<lambda>t. reserved (snd t)) (ts[i := (req, p')]))) + mset (reserved p)
      = mset (concat (map (\<lambda>t. reserved (snd t)) ts)) + mset (reserved p')"
    using concat_update [OF go_on(2), of "\<lambda>t. reserved (snd t)" "(req, p')"] by (simp add: go_on(3))
  have "case ?dir of
          None \<Rightarrow> cs_tee_seq s' = 0 \<and> cs_tee_writes s' = []
        | Some d \<Rightarrow> \<exists>n. cs_tee_seq s' = of_nat n
            \<and> mset (names_of (cs_tee_writes s')) + mset (concat (map (\<lambda>t. reserved (snd t)) (ts[i := (req, p')])))
                = mset (map (\<lambda>i. (d, copy_name (of_nat i))) [0..<n])"
  proof (cases ?dir)
    case None
    with assms(3) advance_no_copies [OF go_on(5) None] w show ?thesis by (auto simp: outside_inv_def)
  next
    case (Some d)
    with assms(3) obtain n where n: "cs_tee_seq s = of_nat n"
      "mset (names_of (cs_tee_writes s)) + mset (concat (map (\<lambda>t. reserved (snd t)) ts))
        = mset (map (\<lambda>i. (d, copy_name (of_nat i))) [0..<n])"
      by (auto simp: outside_inv_def)
    let ?N = "mset (names_of (cs_tee_writes s))" and ?N' = "mset (names_of (cs_tee_writes s'))"
    let ?R = "mset (concat (map (\<lambda>t. reserved (snd t)) ts))"
      and ?R' = "mset (concat (map (\<lambda>t. reserved (snd t)) (ts[i := (req, p')])))"
    from advance_names [OF go_on(5) Some] have "\<exists>m. cs_tee_seq s' = of_nat m
        \<and> ?N' + ?R' = mset (map (\<lambda>i. (d, copy_name (of_nat i))) [0..<m])"
    proof
      assume a: "cs_tee_seq s' = cs_tee_seq s \<and> ?N' + mset (reserved p') = ?N + mset (reserved p)"
      have "?N' + ?R' = ?N + ?R" by (rule moved_total [OF conjunct2 [OF a] 3])
      with a n have "cs_tee_seq s' = of_nat n \<and> ?N' + ?R' = mset (map (\<lambda>i. (d, copy_name (of_nat i))) [0..<n])"
        by simp
      then show ?thesis by (rule exI)
    next
      assume a: "cs_tee_seq s' = cs_tee_seq s + 1
        \<and> ?N' + mset (reserved p') = add_mset (d, copy_name (cs_tee_seq s)) (?N + mset (reserved p))"
      have "?N' + ?R' = add_mset (d, copy_name (cs_tee_seq s)) (?N + ?R)" by (rule grown_total [OF conjunct2 [OF a] 3])
      with a n have "cs_tee_seq s' = of_nat (Suc n)
          \<and> ?N' + ?R' = mset (map (\<lambda>i. (d, copy_name (of_nat i))) [0..<Suc n])"
        by simp
      then show ?thesis by (rule exI)
    qed
    with Some show ?thesis by simp
  qed
  with assms(3) show ?thesis
    unfolding outside_inv_def go_on(1) 1 2 bs(1) cs(1) by simp
qed

theorem reaches_inv:
  assumes "reaches rfc pf cf hosts (s, ts)"
  obtains order outs where "serial_order rfc pf cf hosts s ts order outs" "outside_inv cf s ts"
proof -
  have "\<exists>order outs. serial_order rfc pf cf hosts (fst S) (snd S) order outs \<and> outside_inv cf (fst S) (snd S)"
    if "reaches rfc pf cf hosts S" for S
    using that
  proof induction
    case fresh
    have "serial_order rfc pf cf hosts client_new [] [] [] \<and> outside_inv cf client_new []"
      by (auto simp: serial_order_def outside_inv_def client_new_def split: option.split intro: exI [of _ 0])
    then show ?case by auto
  next
    case (later S S')
    obtain s ts s' ts' where S: "S = (s, ts)" "S' = (s', ts')" by (cases S, cases S')
    from later.IH obtain order outs where "serial_order rfc pf cf hosts s ts order outs" "outside_inv cf s ts"
      by (auto simp: S)
    with later.hyps(2) moves_serial moves_outside show ?case unfolding S by fastforce
  qed
  from this [OF assms] that show thesis by auto
qed

section \<open>Finished executions\<close>

lemma mset_order:
  assumes "distinct order" "set order \<subseteq> {..<length ts}" "\<And>i. i < length ts \<Longrightarrow> i \<notin> set order \<Longrightarrow> f (ts ! i) = []"
  shows "mset (concat (map (\<lambda>i. f (ts ! i)) order)) = mset (concat (map f ts))"
proof -
  have "map f ts = map (\<lambda>i. f (ts ! i)) [0..<length ts]"
    by (rule nth_equalityI) simp_all
  then have "mset (concat (map f ts)) = (\<Sum>i \<in> {0..<length ts}. mset (f (ts ! i)))"
    by (simp add: mset_concat sum_list_distinct_conv_sum_set comp_def)
  also have "\<dots> = (\<Sum>i \<in> set order. mset (f (ts ! i)))"
    using assms by (intro sum.mono_neutral_right) auto
  also have "\<dots> = mset (concat (map (\<lambda>i. f (ts ! i)) order))"
    using assms(1) by (simp add: mset_concat sum_list_distinct_conv_sum_set comp_def)
  finally show ?thesis by simp
qed

text \<open>A call dropped before the host got its batch is one whose signer failed.\<close>

definition no_signer :: "('de, 'pe) engine" where
  "no_signer = \<lparr>en_list_attestations_by = \<lambda>_. Inr [], en_sign = \<lambda>_. Inl [], en_current_alias = [],
     en_receive_and_persist = \<lambda>_. Inr (0, 0), en_now_rfc3339 = []\<rparr>"

lemma no_signer_emits_nothing: "emission pf cf (no_signer :: ('de, 'pe) engine) out = []"
proof -
  have "\<exists>e. seal_sign_wrap pf (no_signer :: ('de, 'pe) engine) t prov profile = Inl e" for t prov profile
    by (cases "canonical_bytes (pf_crypto pf) (stamp profile (bp_trace_level prov) t)")
      (auto simp: seal_sign_wrap_def sign_trace_via_hardware_signer_def no_signer_def rbind_def)
  then have "emission pf cf (no_signer :: ('de, 'pe) engine) (Inl (Sealed t)) = []" for t
    by (auto split: sum.split prepare_outcome.split) (metis Inl_Inr_False)
  then show ?thesis by (cases "(pf, cf, no_signer :: ('de, 'pe) engine, out)" rule: emission.cases) auto
qed

lemma ended_engine:
  assumes "agrees pf cf hosts out (Ended p a)"
  shows "\<exists>en. emission pf cf en out = handed p \<and> (\<forall>r. a = Some r \<longrightarrow> en \<in> mixes hosts \<and> reply pf cf en out = r)"
proof (cases a)
  case None
  show ?thesis
  proof (cases "handed p = []")
    case True
    with None no_signer_emits_nothing show ?thesis by auto
  next
    case False
    with assms None obtain t b where p: "p = Persisting t b" by (cases p) auto
    with assms None have "ready_batch pf cf hosts out t b" by simp
    then obtain g h prov profile where "g \<in> hosts" "h \<in> hosts" "out = Inl (Sealed t)"
        "gate_sealed pf cf g t = Inr (ReadyToSeal t prov profile)" "seal_sign_wrap pf h t prov profile = Inr b"
      unfolding ready_batch_def by blast
    then show ?thesis by (intro exI [of _ "mix g h h"]) (simp add: p None)
  qed
qed (use assms in auto)

fun ended :: "('de, 'pe) phase \<Rightarrow> bool" where
  "ended (Ended p a) = True"
| "ended _ = False"

lemma copied_ended: "suspended p \<Longrightarrow> copied (Some d) p = handed p"
  by (cases p) simp_all

text \<open>The sequential client whose calls meet the hosts \<open>ens\<close> in the order of the lock.\<close>

lemma serial_execution:
  assumes ser: "serial_order rfc pf cf hosts s ts order outs"
    and fin: "\<And>i. i < length ts \<Longrightarrow> ended (snd (ts ! i))"
  obtains ens where "length ens = length order"
    "run (serve rfc pf cf) (zip ens (map (\<lambda>i. fst (ts ! i)) order)) client_new =
       ((fold (emit (cf_local_copy_dir cf)) (concat (map (\<lambda>i. handed (snd (ts ! i))) order)) client_new)\<lparr>cs_store := cs_store s\<rparr>,
        map2 (reply pf cf) ens outs)"
    "\<And>k p r. k < length order \<Longrightarrow> snd (ts ! (order ! k)) = Ended p (Some r) \<Longrightarrow>
       ens ! k \<in> mixes hosts \<and> reply pf cf (ens ! k) (outs ! k) = r"
proof -
  have len: "length outs = length order"
    using ser unfolding serial_order_def by (metis list_all2_lengthD)
  define fits where "fits k en \<longleftrightarrow> emission pf cf en (outs ! k) = handed (snd (ts ! (order ! k)))
      \<and> (\<forall>p r. snd (ts ! (order ! k)) = Ended p (Some r) \<longrightarrow> en \<in> mixes hosts \<and> reply pf cf en (outs ! k) = r)" for k en
  have "\<forall>k < length order. \<exists>en. fits k en"
  proof (intro allI impI)
    fix k assume k: "k < length order"
    then have "order ! k \<in> {i. i < length ts \<and> locked (snd (ts ! i))}"
      using ser nth_mem [of k order] by (simp only: serial_order_def)
    then have i: "order ! k < length ts" "agrees pf cf hosts (outs ! k) (snd (ts ! (order ! k)))"
      using ser k by (simp_all add: serial_order_def list_all2_conv_all_nth)
    then obtain p a where pa: "snd (ts ! (order ! k)) = Ended p a"
      using fin by (meson ended.elims(2))
    with i(2) have "agrees pf cf hosts (outs ! k) (Ended p a)" by simp
    from ended_engine [OF this] show "\<exists>en. fits k en" by (simp add: pa fits_def)
  qed
  then obtain ens where ens: "length ens = length order" "\<And>k. k < length order \<Longrightarrow> fits k (ens ! k)"
    unfolding Skolem_list_nth by blast
  have "map2 (emission pf cf) ens outs = map (\<lambda>i. handed (snd (ts ! i))) order"
    using ens by (intro nth_equalityI) (simp_all add: len fits_def)
  moreover have "run (store_step rfc) (map (\<lambda>i. fst (ts ! i)) order) (cs_store client_new) = (cs_store s, outs)"
    using ser by (simp add: serial_order_def client_new_def)
  ultimately show thesis
    using that ens [unfolded fits_def] run_serve [of ens "map (\<lambda>i. fst (ts ! i)) order" rfc client_new "cs_store s" outs pf cf] by simp
qed

lemma ended_reserved: "ended p \<Longrightarrow> reserved p = []"
  by (cases p) simp_all

lemma ended_copied:
  assumes "serial_order rfc pf cf hosts s ts order outs" "t \<in> set ts" "ended (snd t)"
  shows "copied (Some d) (snd t) = handed (snd t)"
proof (cases "locked (snd t)")
  case True
  from assms(2) obtain i where i: "i < length ts" "ts ! i = t" by (auto simp: in_set_conv_nth)
  obtain p a where pa: "snd t = Ended p a" using assms(3) by (meson ended.elims(2))
  obtain out where "agrees pf cf hosts out (Ended p a)"
    using serial_orderD [OF assms(1) i(1)] True i(2) pa by metis
  then have "suspended p" by (cases a) simp_all
  then show ?thesis by (simp add: pa copied_ended)
qed auto

text \<open>The files of a finished execution are those of the sequential client.\<close>

lemma finished_outside:
  assumes "outside_inv cf s ts" "serial_order rfc pf cf hosts s ts order outs" "\<And>t. t \<in> set ts \<Longrightarrow> ended (snd t)"
    and "mset bs = mset (concat (map (\<lambda>t. handed (snd t)) ts))"
  defines "s' \<equiv> fold (emit (cf_local_copy_dir cf)) bs client_new"
  shows "mset (cs_persist_calls s') = mset (cs_persist_calls s)"
    "cs_tee_seq s' = cs_tee_seq s"
    "mset (names_of (cs_tee_writes s')) = mset (names_of (cs_tee_writes s))"
    "mset (bytes_of (cs_tee_writes s')) = mset (bytes_of (cs_tee_writes s))"
proof -
  show "mset (cs_persist_calls s') = mset (cs_persist_calls s)"
    using assms(1,4) by (simp add: s'_def fold_emit_calls client_new_def outside_inv_def)
  have "cs_tee_seq s' = cs_tee_seq s \<and> mset (names_of (cs_tee_writes s')) = mset (names_of (cs_tee_writes s))
    \<and> mset (bytes_of (cs_tee_writes s')) = mset (bytes_of (cs_tee_writes s))"
  proof (cases "cf_local_copy_dir cf")
    case None
    with assms(1) show ?thesis using fold_emit_none [of bs client_new] by (simp add: s'_def outside_inv_def client_new_def)
  next
    case (Some d)
    have "concat (map (\<lambda>t. reserved (snd t)) ts) = []"
      using assms(3) by (auto simp: ended_reserved)
    with assms(1) Some obtain n where n: "cs_tee_seq s = of_nat n"
        "mset (names_of (cs_tee_writes s)) = mset (map (\<lambda>i. (d, copy_name (of_nat i))) [0..<n])"
      by (auto simp: outside_inv_def)
    have "map (\<lambda>t. copied (cf_local_copy_dir cf) (snd t)) ts = map (\<lambda>t. handed (snd t)) ts"
      using ended_copied [OF assms(2)] assms(3) by (simp add: Some)
    with assms(1,4) have b: "mset (bytes_of (cs_tee_writes s)) = mset bs"
      by (simp only: outside_inv_def)
    have "n = length (cs_tee_writes s)" using n(2) by (metis length_map length_upt minus_nat.diff_0 size_mset)
    also have "\<dots> = length bs" using b by (metis length_map size_mset)
    finally have "n = length bs" .
    with n b Some show ?thesis
      using fold_emit_some [of d bs client_new] by (simp only: s'_def client_new_def) simp
  qed
  then show "cs_tee_seq s' = cs_tee_seq s" "mset (names_of (cs_tee_writes s')) = mset (names_of (cs_tee_writes s))"
    "mset (bytes_of (cs_tee_writes s')) = mset (bytes_of (cs_tee_writes s))" by blast+
qed

section \<open>What the pool has handed out\<close>

lemma wrapped_lawful:
  assumes "gate_sealed pf cf en t = Inr (ReadyToSeal t prov profile)" "seal_sign_wrap pf en t prov profile = Inr b"
    and "sealed_trace (in_thought_id ev) t"
  shows "lawful_batch pf cf en ev t b"
  using assms by (auto simp: lawful_batch_def gate_ready_iff make_provenance_def elim!: seal_sign_wrap_bytes)

lemma ready_batch_lawful:
  assumes "ready_batch pf cf hosts out t b" "out = Inl (Sealed t) \<Longrightarrow> sealed_trace (in_thought_id ev) t"
  shows "\<exists>en \<in> mixes hosts. lawful_batch pf cf en ev t b"
proof -
  obtain g h prov profile where g: "g \<in> hosts" "h \<in> hosts" "out = Inl (Sealed t)"
      "gate_sealed pf cf g t = Inr (ReadyToSeal t prov profile)" "seal_sign_wrap pf h t prov profile = Inr b"
    using assms(1) unfolding ready_batch_def by blast
  let ?en = "mix g h h"
  have "gate_sealed pf cf ?en t = Inr (ReadyToSeal t prov profile)" "seal_sign_wrap pf ?en t prov profile = Inr b"
    using g by simp_all
  from wrapped_lawful [OF this assms(2) [OF g(3)]] have "lawful_batch pf cf ?en ev t b" .
  with mixesI [OF g(1,2,2)] show ?thesis by blast
qed

lemma store_step_sound:
  assumes "store_inv st" "store_step rfc req st = (st', out)"
  shows "store_inv st'" "out = Inl (Sealed t) \<Longrightarrow> \<exists>ev. req = Feed ev \<and> sealed_trace (in_thought_id ev) t"
proof -
  have "store_inv st' \<and> (\<forall>t. out = Inl (Sealed t) \<longrightarrow> (\<exists>ev. req = Feed ev \<and> sealed_trace (in_thought_id ev) t))"
  proof (cases req)
    case (Feed ev)
    obtain o1 where "capture ev (in_thought_id ev) st = (st', o1)" "out = Inl o1"
      using assms(2) by (auto simp: Feed split: prod.splits)
    with store_inv_capture [OF assms(1), of ev] Feed show ?thesis by auto
  next
    case (Sweep now age)
    with assms store_inv_sweep [OF assms(1)] show ?thesis by (auto split: prod.splits)
  qed
  then show "store_inv st'" "out = Inl (Sealed t) \<Longrightarrow> \<exists>ev. req = Feed ev \<and> sealed_trace (in_thought_id ev) t"
    by auto
qed

interpretation polled: reactive "store_step rfc" store_inv
  "\<lambda>req out. \<forall>t. out = Inl (Sealed t) \<longrightarrow> (\<exists>ev. req = Feed ev \<and> sealed_trace (in_thought_id ev) t)" for rfc
  by unfold_locales (use store_step_sound in blast)+

lemma handed_ready:
  "handed p = bs \<Longrightarrow> bs \<noteq> [] \<Longrightarrow> agrees pf cf hosts out p \<Longrightarrow> \<exists>t b. bs = [b] \<and> ready_batch pf cf hosts out t b"
proof (induction p arbitrary: bs)
  case (Ended p a)
  show ?case
  proof (cases a)
    case None
    with Ended show ?thesis by auto
  next
    case (Some r)
    with Ended.prems obtain en where en: "en \<in> mixes hosts" "emission pf cf en out = bs" by auto
    then obtain g h q where m: "en = mix g h q" "g \<in> hosts" "h \<in> hosts" by (auto simp: mixes_def)
    from en(2) Ended.prems(2) obtain t where out: "out = Inl (Sealed t)"
      by (cases "(pf, cf, en, out)" rule: emission.cases) auto
    with en(2) Ended.prems(2) obtain u prov profile b where
        "gate_sealed pf cf g t = Inr (ReadyToSeal u prov profile)" "seal_sign_wrap pf h u prov profile = Inr b" "bs = [b]"
      by (auto simp: m(1) split: sum.splits prepare_outcome.splits)
    moreover from this(1) have "u = t" by (simp add: gate_ready_iff)
    ultimately show ?thesis using m out unfolding ready_batch_def by blast
  qed
qed auto

lemma length_concat_one: "(\<And>t. t \<in> set ts \<Longrightarrow> length (f t) \<le> (if P t then 1 else 0)) \<Longrightarrow> length (concat (map f ts)) \<le> length (filter P ts)"
  by (induction ts) (fastforce split: if_splits)+

lemma length_concats_le:
  "(\<And>t. length (f t) + length (g t) \<le> 1) \<Longrightarrow> length (concat (map f ts)) + length (concat (map g ts)) \<le> length ts"
proof (induction ts)
  case (Cons t ts)
  from Cons.IH [OF Cons.prems] Cons.prems [of t] show ?case by simp
qed simp

lemma concat_subset: "(\<And>t. t \<in> set ts \<Longrightarrow> mset (f t) \<subseteq># mset (g t)) \<Longrightarrow> mset (concat (map f ts)) \<subseteq># mset (concat (map g ts))"
  by (induction ts) (auto intro: subset_mset.add_mono)

lemma handed_copied: "mset (handed p) \<subseteq># mset (copied (Some d) p)"
  by (induction p) auto

lemma copied_reserved: "length (copied dir p) + length (reserved p) \<le> 1"
proof -
  have "length (copied dir p) \<le> 1" by (induction p) auto
  then show ?thesis by (cases p) auto
qed

lemma handed_lawful:
  assumes "serial_order rfc pf cf hosts s ts order outs" "x \<in> set ts" "handed (snd x) \<noteq> []"
  shows "\<exists>ev en t b. fst x = Feed ev \<and> en \<in> mixes hosts \<and> handed (snd x) = [b] \<and> lawful_batch pf cf en ev t b"
proof -
  obtain i where i: "i < length ts" "ts ! i = x" using assms(2) by (auto simp: in_set_conv_nth)
  have "locked (snd (ts ! i))" using assms(3) i(2) by auto
  then obtain k where k: "k < length order" "order ! k = i" "k < length outs" "agrees pf cf hosts (outs ! k) (snd x)"
    using serial_orderD [OF assms(1) i(1)] i(2) by metis
  from handed_ready [OF refl assms(3) k(4)] obtain t b where tb: "handed (snd x) = [b]" "ready_batch pf cf hosts (outs ! k) t b"
    by blast
  have run: "run (store_step rfc) (map (\<lambda>i. fst (ts ! i)) order) store_new = (cs_store s, outs)"
    using assms(1) by (simp add: serial_order_def)
  have "outs ! k = Inl (Sealed t)" using tb(2) by (simp add: ready_batch_def)
  then have "\<exists>ev. fst x = Feed ev \<and> sealed_trace (in_thought_id ev) t"
    using list_all2_nthD2 [OF polled.run_good [OF store_inv_new run] k(3)] k(1,2) i(2) by simp
  then show ?thesis using ready_batch_lawful [OF tb(2)] tb(1) by blast
qed

lemma copies_in_time:
  assumes "outside_inv cf s ts" "cf_local_copy_dir cf = Some d"
  shows "mset (cs_persist_calls s) \<subseteq># mset (bytes_of (cs_tee_writes s))
    \<and> (length ts < 2 ^ 64 \<longrightarrow> distinct (names_of (cs_tee_writes s)))"
proof -
  obtain n where n: "mset (cs_persist_calls s) = mset (concat (map (\<lambda>t. handed (snd t)) ts))"
      "mset (bytes_of (cs_tee_writes s)) = mset (concat (map (\<lambda>t. copied (Some d) (snd t)) ts))"
      "mset (names_of (cs_tee_writes s)) + mset (concat (map (\<lambda>t. reserved (snd t)) ts))
        = mset (map (\<lambda>i. (d, tee_name i)) [0..<n])"
    using assms by (auto simp: outside_inv_def tee_name_def)
  have "mset (cs_persist_calls s) \<subseteq># mset (bytes_of (cs_tee_writes s))"
    unfolding n(1,2) by (intro concat_subset handed_copied)
  moreover have "distinct (names_of (cs_tee_writes s))" if "length ts < 2 ^ 64"
  proof -
    have "n = length (cs_tee_writes s) + length (concat (map (\<lambda>t. reserved (snd t)) ts))"
      using arg_cong [OF n(3), of size] by simp
    also have "length (cs_tee_writes s) = length (concat (map (\<lambda>t. copied (Some d) (snd t)) ts))"
      using arg_cong [OF n(2), of size] by simp
    also have "length (concat (map (\<lambda>t. copied (Some d) (snd t)) ts)) + length (concat (map (\<lambda>t. reserved (snd t)) ts)) \<le> length ts"
      by (rule length_concats_le) (rule copied_reserved)
    finally have "n < 2 ^ 64" using that by simp
    then have "distinct (map (\<lambda>i. (d, tee_name i)) [0..<n])"
      using tee_name_inj by (auto simp: distinct_map inj_on_def)
    moreover have "mset (names_of (cs_tee_writes s) @ concat (map (\<lambda>t. reserved (snd t)) ts))
        = mset (map (\<lambda>i. (d, tee_name i)) [0..<n])"
      using n(3) by simp
    ultimately have "distinct (names_of (cs_tee_writes s) @ concat (map (\<lambda>t. reserved (snd t)) ts))"
      using mset_eq_imp_distinct_iff by blast
    then show ?thesis by simp
  qed
  ultimately show ?thesis by blast
qed

section \<open>Properties\<close>

text \<open>
  C3: concurrent calls are serializable. When every call on one client has ended, by whatever
  interleaving, with whatever calls dropped at a suspension point, the calls that took the lock
  can be put in an order (the one in which they took it) such that the sequential client, fed
  the same requests in that order on suitable hosts, ends with the same store, the same copy
  counter, the same copies under the same set of names, and the same batches handed to the
  host; and every call that answered gets that very answer, on a host made up of what the call
  really met at the gate, at the signer and at the store.
\<close>

theorem calls_are_serializable:
  assumes "reaches rfc pf cf hosts (s, ts)" and "list_all (\<lambda>t. ended (snd t)) ts"
  shows "\<exists>order ens s' answers. distinct order \<and> set order = {i. i < length ts \<and> snd (ts ! i) \<noteq> Ended Waiting None}
    \<and> length ens = length order
    \<and> run (serve rfc pf cf) (zip ens (map (\<lambda>i. fst (ts ! i)) order)) client_new = (s', answers)
    \<and> cs_store s' = cs_store s \<and> cs_tee_seq s' = cs_tee_seq s
    \<and> mset (cs_persist_calls s') = mset (cs_persist_calls s)
    \<and> mset (names_of (cs_tee_writes s')) = mset (names_of (cs_tee_writes s))
    \<and> mset (bytes_of (cs_tee_writes s')) = mset (bytes_of (cs_tee_writes s))
    \<and> (\<forall>k < length order. \<forall>p r. snd (ts ! (order ! k)) = Ended p (Some r) \<longrightarrow>
         ens ! k \<in> mixes hosts \<and> answers ! k = r)"
proof -
  obtain order outs where ser: "serial_order rfc pf cf hosts s ts order outs" and out: "outside_inv cf s ts"
    using reaches_inv [OF assms(1)] .
  have all: "ended (snd t)" if "t \<in> set ts" for t using assms(2) that by (simp add: list_all_iff)
  then have fin: "ended (snd (ts ! i))" if "i < length ts" for i using that by simp
  obtain ens where len: "length ens = length order"
    and run: "run (serve rfc pf cf) (zip ens (map (\<lambda>i. fst (ts ! i)) order)) client_new =
       ((fold (emit (cf_local_copy_dir cf)) (concat (map (\<lambda>i. handed (snd (ts ! i))) order)) client_new)\<lparr>cs_store := cs_store s\<rparr>,
        map2 (reply pf cf) ens outs)"
    and ans: "\<And>k p r. k < length order \<Longrightarrow> snd (ts ! (order ! k)) = Ended p (Some r) \<Longrightarrow>
       ens ! k \<in> mixes hosts \<and> reply pf cf (ens ! k) (outs ! k) = r"
    by (rule serial_execution [OF ser fin]) auto
  have order: "distinct order" "set order = {i. i < length ts \<and> locked (snd (ts ! i))}" "length outs = length order"
    using ser by (auto simp: serial_order_def list_all2_conv_all_nth)
  have waits: "snd (ts ! i) \<noteq> Waiting" if "i < length ts" for i using fin [OF that] by auto
  have "mset (concat (map (\<lambda>i. handed (snd (ts ! i))) order)) = mset (concat (map (\<lambda>t. handed (snd t)) ts))"
    by (rule mset_order [OF order(1)]) (auto simp: order(2))
  note same = finished_outside [OF out ser all this]
  show ?thesis
    by (intro exI conjI, rule order(1), use order(2) waits in blast, rule len, rule run)
      (use same ans order len in auto)
qed

text \<open>
  C10: safety at every moment of every interleaving, also while calls are under way. Each batch
  the host was given is the lawful batch of a submitted event, its consent in force at the
  gate of that call; no call hands out more than one; and with a copy directory every batch
  was copied before it was handed out, every copy under a name of its own.
\<close>

theorem interleaved_batches_are_lawful:
  assumes "reaches rfc pf cf hosts (s, ts)"
  shows "(\<forall>b \<in> set (cs_persist_calls s). \<exists>ev \<in> {ev. Feed ev \<in> fst ` set ts}. \<exists>en \<in> mixes hosts. \<exists>t. lawful_batch pf cf en ev t b)
    \<and> length (cs_persist_calls s) \<le> length (filter (\<lambda>t. \<exists>ev. fst t = Feed ev) ts)
    \<and> (\<forall>d. cf_local_copy_dir cf = Some d \<longrightarrow>
         mset (cs_persist_calls s) \<subseteq># mset (bytes_of (cs_tee_writes s))
         \<and> (length ts < 2 ^ 64 \<longrightarrow> distinct (names_of (cs_tee_writes s))))"
proof -
  obtain order outs where ser: "serial_order rfc pf cf hosts s ts order outs" and out: "outside_inv cf s ts"
    using reaches_inv [OF assms] .
  have task: "\<exists>ev en t b. fst x = Feed ev \<and> en \<in> mixes hosts \<and> handed (snd x) = [b] \<and> lawful_batch pf cf en ev t b"
    if "x \<in> set ts" "handed (snd x) \<noteq> []" for x
    using handed_lawful [OF ser that] .
  have calls: "mset (cs_persist_calls s) = mset (concat (map (\<lambda>t. handed (snd t)) ts))"
    using out by (simp add: outside_inv_def)
  have "length (cs_persist_calls s) \<le> length (filter (\<lambda>t. \<exists>ev. fst t = Feed ev) ts)"
    unfolding calls [THEN mset_eq_length] by (rule length_concat_one) (use task in fastforce)
  moreover have "\<exists>ev \<in> {ev. Feed ev \<in> fst ` set ts}. \<exists>en \<in> mixes hosts. \<exists>t. lawful_batch pf cf en ev t b"
    if "b \<in> set (cs_persist_calls s)" for b
  proof -
    from that obtain x where x: "x \<in> set ts" "b \<in> set (handed (snd x))"
      using mset_eq_setD [OF calls] by auto
    then obtain ev en t where "fst x = Feed ev" "en \<in> mixes hosts" "lawful_batch pf cf en ev t b"
      using task [OF x(1)] by fastforce
    with x(1) show ?thesis by (force simp: image_iff)
  qed
  ultimately show ?thesis using copies_in_time [OF out] by blast
qed

text \<open>A sample execution: each entry names a host and the call that goes on there.\<close>

fun scheduled ::
    "(string \<Rightarrow> instant option) \<Rightarrow> 'vk platform \<Rightarrow> client_config \<Rightarrow> (('de, 'pe) engine \<times> nat) list \<Rightarrow>
       ('de, 'pe) pool \<Rightarrow> ('de, 'pe) pool option" where
  "scheduled rfc pf cf [] S = Some S"
| "scheduled rfc pf cf ((en, i) # steps) (s, ts) =
     (if i < length ts then
        (case advance rfc pf cf en (fst (ts ! i)) (snd (ts ! i)) s of
           None \<Rightarrow> None
         | Some (s', p') \<Rightarrow> scheduled rfc pf cf steps (s', ts[i := (fst (ts ! i), p')]))
      else None)"

lemma scheduled_reaches:
  "scheduled rfc pf cf steps S = Some S' \<Longrightarrow> fst ` set steps \<subseteq> hosts \<Longrightarrow> reaches rfc pf cf hosts S \<Longrightarrow>
     reaches rfc pf cf hosts S'"
proof (induction rfc pf cf steps S rule: scheduled.induct)
  case (2 rfc pf cf en i steps s ts)
  from 2(2,3) obtain s' p' where go: "i < length ts" "en \<in> hosts"
      "advance rfc pf cf en (fst (ts ! i)) (snd (ts ! i)) s = Some (s', p')"
      "scheduled rfc pf cf steps (s', ts[i := (fst (ts ! i), p')]) = Some S'"
    by (auto split: if_splits option.splits)
  have "moves rfc pf cf hosts (s, ts) (s', ts[i := (fst (ts ! i), p')])"
    by (rule moves.go_on [OF go(1) _ go(2,3)]) simp
  then have "reaches rfc pf cf hosts (s', ts[i := (fst (ts ! i), p')])" by (rule reaches.later [OF 2(4)])
  with 2(1) [OF go(1,3) refl go(4)] 2(3) show ?case by simp
qed simp

lemma submitted_reaches: "reaches rfc pf cf hosts (client_new, map (\<lambda>req. (req, Waiting)) reqs)"
proof (induction reqs rule: rev_induct)
  case (snoc req reqs)
  show ?case using reaches.later [OF snoc moves.call] by simp
qed (simp add: reaches.fresh)

text \<open>
  Two completing events; the second call overtakes the first after the lock, takes copy number
  0 and hands out its batch first. The batch bytes of the example are the time stamp.
\<close>

definition race_platform :: "unit platform" where
  "race_platform = demo_platform\<lparr>pf_to_vec := \<lambda>v. Inr (case jget v ''batch_timestamp'' of
     Some (JStr s) \<Rightarrow> map (\<lambda>c. of_nat (of_char c)) s | _ \<Rightarrow> [])\<rparr>"

definition race_host :: "string \<Rightarrow> (unit, unit) engine" where
  "race_host now = (demo_engine [demo_row ''1'' ''scores'' 5])\<lparr>en_now_rfc3339 := now\<rparr>"

definition race :: "(unit, unit) pool option" where
  "race = scheduled (\<lambda>_. None) race_platform demo_config
     (map (\<lambda>i. (race_host (if i = 0 then ''1'' else ''2''), i)) [0, 1, 1, 0, 1, 1, 0, 0, 0, 1, 1, 0, 0, 1])
     (client_new, map (\<lambda>req. (req, Waiting))
        [Feed (demo_event ''ACTION_RESULT'' ''a'' ''5''), Feed (demo_event ''ACTION_RESULT'' ''b'' ''6'')])"

lemma race_reaches:
  obtains s ts where "race = Some (s, ts)"
    "reaches (\<lambda>_. None) race_platform demo_config {race_host ''1'', race_host ''2''} (s, ts)"
    "cs_persist_calls s = [[50], [49]]" "cs_tee_writes s = [(''/tee'', ''lens-batch-00000001.json'', [49]), (''/tee'', ''lens-batch-00000000.json'', [50])]"
    "list_all (\<lambda>t. ended (snd t)) ts"
proof -
  have "case race of Some (s, ts) \<Rightarrow> cs_persist_calls s = [[50], [49]] \<and> list_all (\<lambda>t. ended (snd t)) ts
      \<and> cs_tee_writes s = [(''/tee'', ''lens-batch-00000001.json'', [49]), (''/tee'', ''lens-batch-00000000.json'', [50])]
    | None \<Rightarrow> False"
    by code_simp
  then obtain s ts where r: "race = Some (s, ts)" "cs_persist_calls s = [[50], [49]]" "list_all (\<lambda>t. ended (snd t)) ts"
      "cs_tee_writes s = [(''/tee'', ''lens-batch-00000001.json'', [49]), (''/tee'', ''lens-batch-00000000.json'', [50])]"
    by (auto split: option.splits)
  have "reaches (\<lambda>_. None) race_platform demo_config {race_host ''1'', race_host ''2''} (s, ts)"
    by (rule scheduled_reaches [OF r(1) [unfolded race_def] _ submitted_reaches]) auto
  with r that show thesis by blast
qed

lemma calls_are_serializable_witness:
  "\<exists>s ts order (ens :: (unit, unit) engine list) s' answers. race = Some (s, ts) \<and> set order = {0, 1::nat}
     \<and> run (serve (\<lambda>_. None) race_platform demo_config) (zip ens (map (\<lambda>i. fst (ts ! i)) order)) client_new = (s', answers)
     \<and> cs_persist_calls s = [[50], [49]] \<and> mset (cs_persist_calls s') = {#[49], [50]#}"
proof -
  obtain s ts where r: "race = Some (s, ts)"
      "reaches (\<lambda>_. None) race_platform demo_config {race_host ''1'', race_host ''2''} (s, ts)"
      "cs_persist_calls s = [[50], [49]]" "list_all (\<lambda>t. ended (snd t)) ts"
    by (rule race_reaches) (rule that)
  have "case race of Some (s, ts) \<Rightarrow> map (\<lambda>t. snd t = Ended Waiting None) ts = [False, False] | None \<Rightarrow> False"
    by code_simp
  then have locks: "{i. i < length ts \<and> snd (ts ! i) \<noteq> Ended Waiting None} = {0, 1}"
    by (auto simp: r(1) map_eq_Cons_conv less_Suc_eq)
  from calls_are_serializable [OF r(2,4)] obtain order s' answers and ens :: "(unit, unit) engine list" where
      o: "set order = {i. i < length ts \<and> snd (ts ! i) \<noteq> Ended Waiting None}"
      "run (serve (\<lambda>_. None) race_platform demo_config) (zip ens (map (\<lambda>i. fst (ts ! i)) order)) client_new = (s', answers)"
      "mset (cs_persist_calls s') = mset (cs_persist_calls s)"
    by (elim exE conjE) (rule that, assumption+)
  have "mset (cs_persist_calls s') = {#[49], [50]#}" by (simp add: o(3) r(3))
  then show ?thesis
    by (intro exI conjI) (rule r(1) o(1) [unfolded locks] o(2) r(3) | assumption)+
qed

lemma interleaved_batches_are_lawful_witness:
  "\<exists>s ts ev (en :: (unit, unit) engine) t. race = Some (s, ts) \<and> lawful_batch race_platform demo_config en ev t [50] \<and> distinct (names_of (cs_tee_writes s))"
proof -
  obtain s ts where r: "race = Some (s, ts)"
      "reaches (\<lambda>_. None) race_platform demo_config {race_host ''1'', race_host ''2''} (s, ts)"
      "cs_persist_calls s = [[50], [49]]"
    by (rule race_reaches) (rule that)
  have "case race of Some (s, ts) \<Rightarrow> length ts = 2 | None \<Rightarrow> False" by code_simp
  then have "length ts < 2 ^ 64" by (simp add: r(1))
  moreover have "cf_local_copy_dir demo_config = Some ''/tee''" by (simp add: demo_config_def)
  ultimately have "distinct (names_of (cs_tee_writes s))"
    using interleaved_batches_are_lawful [OF r(2)] by blast
  moreover have "[50] \<in> set (cs_persist_calls s)" by (simp add: r(3))
  then obtain ev t and en :: "(unit, unit) engine" where "lawful_batch race_platform demo_config en ev t [50]"
    using interleaved_batches_are_lawful [OF r(2)] by blast
  ultimately show ?thesis using r(1) by blast
qed

end
