(* ===== verification/PyCapture.thy ===== *)
theory PyCapture
  imports CaptureClient
begin

text \<open>
  \<open>src/src/capture/py_engine.rs\<close> and the \<open>LensClient\<close> methods of \<open>src/src/ffi/pyo3.rs\<close>: the
  cohabitation path, in which the host engine is a Python object that signs and persists.
  The path is a second implementation of the client pipeline with configuration-only
  consent; it is shown to do exactly what \<open>CaptureClient\<close> does on the same host.
\<close>

section \<open>Data\<close>

datatype non_sealing_kind = NsOpened | NsAppended | NsRejected string

datatype py_prepare_outcome =
    NonSealing non_sealing_kind
  | PyConsentBlocked string
  | PyReadyToSeal complete_trace batch_provenance

record py_config =
  pc_consent_config :: consent_config
  pc_correlation :: "correlation_metadata option"
  pc_deployment_profile :: "json option"
  pc_trace_level :: string
  pc_trace_schema_version :: string
  pc_local_copy_dir :: "string option"

record py_state =
  ps_store :: partial_store
  ps_tee_seq :: u64
  ps_tee_writes :: "(string \<times> string \<times> bytes) list"
  ps_persist_calls :: "bytes list"

text \<open>
  The methods called on the Python engine, each of which may raise; the summary dict is
  given by its two entries, which may be missing.
\<close>

record 'x py_engine =
  pn_local_key_id :: "'x + string"
  pn_local_sign :: "bytes \<Rightarrow> 'x + bytes"
  pn_receive_and_persist :: "bytes \<Rightarrow> 'x + nat option \<times> nat option"
  pn_now_rfc3339 :: string

datatype 'x py_error =
    PyCanonicalBytes string
  | PyRaised 'x
  | PySignatureLength nat
  | PyBatch batch_error
  | PyMissingField string

type_synonym pydict = "(string \<times> json) list"

section \<open>Operations\<close>

definition py_new :: py_state where
  "py_new = \<lparr>ps_store = store_new, ps_tee_seq = 0, ps_tee_writes = [], ps_persist_calls = []\<rparr>"

definition py_finish_seal ::
  "'vk platform \<Rightarrow> py_config \<Rightarrow> string \<Rightarrow> complete_trace \<Rightarrow> py_prepare_outcome" where
  "py_finish_seal pf pc now t =
     (let ready = (\<lambda>ts.
        let t1 = (if ct_deployment_profile t = None
                  then t\<lparr>ct_deployment_profile := pc_deployment_profile pc\<rparr> else t);
            t2 = (if ct_trace_level t1 = None
                  then t1\<lparr>ct_trace_level := Some (pc_trace_level pc)\<rparr> else t1);
            prov = \<lparr>bp_batch_timestamp = now, bp_consent_timestamp = ts,
                    bp_trace_level = pc_trace_level pc,
                    bp_trace_schema_version = pc_trace_schema_version pc,
                    bp_correlation_metadata = (case pc_correlation pc of
                        None \<Rightarrow> None
                      | Some c \<Rightarrow> if correlation_is_empty c then None else Some (correlation_to_value c))\<rparr>
        in PyReadyToSeal t2 prov)
      in case resolve_consent Absent (pc_consent_config pc) of
           CegGrant since \<Rightarrow> ready (pf_to_rfc3339 pf since)
         | ConfigFallback ts \<Rightarrow> ready ts
         | ConsentWithdrawn _ \<Rightarrow> PyConsentBlocked ''withdrawn''
         | NoConsent \<Rightarrow> PyConsentBlocked ''no_consent'')"

definition py_prepare ::
  "'vk platform \<Rightarrow> py_config \<Rightarrow> string \<Rightarrow> inbound_event \<Rightarrow> py_state \<Rightarrow> py_state \<times> py_prepare_outcome" where
  "py_prepare pf pc now ev s =
     (case capture ev (in_thought_id ev) (ps_store s) of (store, out) \<Rightarrow>
        (s\<lparr>ps_store := store\<rparr>,
         case out of
           Opened \<Rightarrow> NonSealing NsOpened
         | Appended \<Rightarrow> NonSealing NsAppended
         | UnknownEvent raw \<Rightarrow> NonSealing (NsRejected raw)
         | Sealed t \<Rightarrow> py_finish_seal pf pc now t))"

definition canonical_bytes_for :: "'vk crypto \<Rightarrow> complete_trace \<Rightarrow> string + bytes" where
  "canonical_bytes_for cr t = canonical_bytes cr t"

definition apply_signature_and_batch ::
  "'vk platform \<Rightarrow> complete_trace \<Rightarrow> bytes \<Rightarrow> string \<Rightarrow> batch_provenance \<Rightarrow> batch_error + bytes" where
  "apply_signature_and_batch pf t sig key_id prov =
     build_batch_bytes (pf_to_vec pf) [apply_signature (pf_crypto pf) sig key_id t] prov"

definition py_tee_write :: "string option \<Rightarrow> bytes \<Rightarrow> py_state \<Rightarrow> py_state" where
  "py_tee_write dir bytes s =
     (case dir of
        None \<Rightarrow> s
      | Some d \<Rightarrow> s\<lparr>ps_tee_seq := ps_tee_seq s + 1,
          ps_tee_writes := ps_tee_writes s
            @ [(d, ''lens-batch-'' @ pad8 (unat (ps_tee_seq s)) @ ''.json'', bytes)]\<rparr>)"

definition py_orphan_sweep ::
  "(string \<Rightarrow> instant option) \<Rightarrow> instant \<Rightarrow> u64 \<Rightarrow> py_state \<Rightarrow> py_state \<times> nat" where
  "py_orphan_sweep rfc3339 now max_age s =
     (case orphan_sweep rfc3339 now (clamp_max_age max_age) (ps_store s) of
        (store, n) \<Rightarrow> (s\<lparr>ps_store := store\<rparr>, n))"

text \<open>The result dicts: one of the sovereign path, one built inline by the cohabitation path.\<close>

definition j_of_usize :: "nat \<Rightarrow> json" where
  "j_of_usize n = JNum (PosInt (of_nat n))"

fun outcome_to_dict :: "event_outcome \<Rightarrow> pydict" where
  "outcome_to_dict EvOpened = [(''outcome'', JStr ''opened'')]"
| "outcome_to_dict EvAppended = [(''outcome'', JStr ''appended'')]"
| "outcome_to_dict (EvRejected raw) = [(''outcome'', JStr ''rejected''), (''raw'', JStr raw)]"
| "outcome_to_dict (SealedAndPersisted i n v) =
     [(''outcome'', JStr ''sealed_and_persisted''), (''trace_id'', JStr i),
      (''trace_events_inserted'', j_of_usize n), (''signatures_verified'', j_of_usize v)]"
| "outcome_to_dict (ConsentBlocked r) = [(''outcome'', JStr ''consent_blocked''), (''reason'', JStr r)]"

fun non_sealing_dict :: "non_sealing_kind \<Rightarrow> pydict" where
  "non_sealing_dict NsOpened = [(''outcome'', JStr ''opened'')]"
| "non_sealing_dict NsAppended = [(''outcome'', JStr ''appended'')]"
| "non_sealing_dict (NsRejected raw) = [(''outcome'', JStr ''rejected''), (''raw'', JStr raw)]"

definition required :: "string \<Rightarrow> 'a option \<Rightarrow> 'x py_error + 'a" where
  "required k v = (case v of None \<Rightarrow> Inl (PyMissingField k) | Some a \<Rightarrow> Inr a)"

text \<open>Signing and batching of a prepared trace: the steps before anything leaves.\<close>

definition py_sign_and_batch ::
  "'vk platform \<Rightarrow> 'x py_engine \<Rightarrow> complete_trace \<Rightarrow> batch_provenance \<Rightarrow> 'x py_error + bytes" where
  "py_sign_and_batch pf pn t prov =
     rbind (map_err PyCanonicalBytes (canonical_bytes_for (pf_crypto pf) t)) (\<lambda>canonical.
     rbind (map_err PyRaised (pn_local_key_id pn)) (\<lambda>key_id.
     rbind (map_err PyRaised (pn_local_sign pn canonical)) (\<lambda>sig.
     if length sig \<noteq> 64 then Inl (PySignatureLength (length sig))
     else map_err PyBatch (apply_signature_and_batch pf t sig key_id prov))))"

text \<open>The last step of a sealing event: the batch goes to the host's engine.\<close>

definition py_persist_batch ::
  "'x py_engine \<Rightarrow> string \<Rightarrow> bytes \<Rightarrow> py_state \<Rightarrow> py_state \<times> ('x py_error + pydict)" where
  "py_persist_batch pn trace_id bytes s =
     (s\<lparr>ps_persist_calls := ps_persist_calls s @ [bytes]\<rparr>,
      rbind (map_err PyRaised (pn_receive_and_persist pn bytes)) (\<lambda>(n, v).
        rbind (required ''trace_events_inserted'' n) (\<lambda>n.
        rbind (required ''signatures_verified'' v) (\<lambda>v.
        Inr [(''outcome'', JStr ''sealed_and_persisted''), (''trace_id'', JStr trace_id),
          (''trace_events_inserted'', j_of_usize n), (''signatures_verified'', j_of_usize v)]))))"

definition py_capture_event ::
  "'vk platform \<Rightarrow> py_config \<Rightarrow> 'x py_engine \<Rightarrow> inbound_event \<Rightarrow> py_state \<Rightarrow> py_state \<times> ('x py_error + pydict)" where
  "py_capture_event pf pc pn ev s =
     (case py_prepare pf pc (pn_now_rfc3339 pn) ev s of
        (s1, NonSealing k) \<Rightarrow> (s1, Inr (non_sealing_dict k))
      | (s1, PyConsentBlocked r) \<Rightarrow>
          (s1, Inr [(''outcome'', JStr ''consent_blocked''), (''reason'', JStr r)])
      | (s1, PyReadyToSeal t prov) \<Rightarrow>
          (case py_sign_and_batch pf pn t prov of
             Inl e \<Rightarrow> (s1, Inl e)
           | Inr bytes \<Rightarrow>
               py_persist_batch pn (ct_trace_id t) bytes (py_tee_write (pc_local_copy_dir pc) bytes s1)))"

section \<open>The same host seen by both paths\<close>

definition client_config_of :: "py_config \<Rightarrow> client_config" where
  "client_config_of pc =
     \<lparr>cf_trace_level = pc_trace_level pc, cf_trace_schema_version = pc_trace_schema_version pc,
      cf_correlation = pc_correlation pc, cf_deployment_profile = pc_deployment_profile pc,
      cf_consent_attesting_key_id = None, cf_consent_config = pc_consent_config pc,
      cf_local_copy_dir = pc_local_copy_dir pc\<rparr>"

definition client_state_of :: "py_state \<Rightarrow> client_state" where
  "client_state_of s =
     \<lparr>cs_store = ps_store s, cs_tee_seq = ps_tee_seq s, cs_tee_writes = ps_tee_writes s,
      cs_persist_calls = ps_persist_calls s\<rparr>"

text \<open>The Rust engine and the Python object expose the same identity and storage.\<close>

definition same_host :: "('de, 'pe) engine \<Rightarrow> 'x py_engine \<Rightarrow> bool" where
  "same_host en pn =
     (pn_local_key_id pn = Inr (en_current_alias en)
      \<and> pn_now_rfc3339 pn = en_now_rfc3339 en
      \<and> (\<forall>m sig. en_sign en m = Inr sig \<longleftrightarrow> pn_local_sign pn m = Inr sig)
      \<and> (\<forall>m sig. en_sign en m = Inr sig \<longrightarrow> length sig = 64)
      \<and> (\<forall>b n v. en_receive_and_persist en b = Inr (n, v) \<longleftrightarrow>
            pn_receive_and_persist pn b = Inr (Some n, Some v))
      \<and> (\<forall>b n v. pn_receive_and_persist pn b = Inr (n, v) \<longrightarrow> n \<noteq> None \<and> v \<noteq> None))"

definition result_agrees :: "('e + event_outcome) \<Rightarrow> 'x py_error + pydict \<Rightarrow> bool" where
  "result_agrees r q =
     (case r of
        Inr out \<Rightarrow> q = Inr (outcome_to_dict out)
      | Inl _ \<Rightarrow> (\<exists>e. q = Inl e))"

lemma config_consent:
  "consent_at_seal (client_config_of pc) en = Inr (resolve_consent Absent (pc_consent_config pc))"
  by (simp add: consent_at_seal_def client_config_of_def)

lemma resolve_absent:
  "resolve_consent Absent cfg =
     (case effective_timestamp cfg of Some ts \<Rightarrow> ConfigFallback ts | None \<Rightarrow> NoConsent)"
  by (simp add: resolve_consent_def)

lemma stamp_steps:
  "(let t1 = (if ct_deployment_profile t = None then t\<lparr>ct_deployment_profile := dp\<rparr> else t)
    in if ct_trace_level t1 = None then t1\<lparr>ct_trace_level := Some l\<rparr> else t1) = stamp dp l t"
  by (cases t) (auto simp: stamp_def Let_def split: option.split)

lemma py_ready_iff:
  "py_finish_seal pf pc now t =
     (case permitted_timestamp pf (resolve_consent Absent (pc_consent_config pc)) of
        Some ts \<Rightarrow> PyReadyToSeal (stamp (pc_deployment_profile pc) (pc_trace_level pc) t)
                     (make_provenance (client_config_of pc) now ts)
      | None \<Rightarrow> PyConsentBlocked ''no_consent'')"
  unfolding py_finish_seal_def resolve_absent
  by (cases "effective_timestamp (pc_consent_config pc)")
    (simp_all add: permitted_timestamp_def make_provenance_def client_config_of_def
      stamp_steps [unfolded Let_def] Let_def)

lemma gate_sealed_config:
  "gate_sealed pf (client_config_of pc) en t =
     (case permitted_timestamp pf (resolve_consent Absent (pc_consent_config pc)) of
        Some ts \<Rightarrow> Inr (ReadyToSeal t (make_provenance (client_config_of pc) (en_now_rfc3339 en) ts)
                         (pc_deployment_profile pc))
      | None \<Rightarrow> Inr (NotSealing (ConsentBlocked ''no_consent'')))"
proof -
  have "cf_deployment_profile (client_config_of pc) = pc_deployment_profile pc"
    by (simp add: client_config_of_def)
  then show ?thesis
    unfolding gate_sealed_def config_consent resolve_absent
    by (cases "effective_timestamp (pc_consent_config pc)") (simp_all add: permitted_timestamp_def)
qed

lemma same_host_persist_fails:
  assumes "same_host en pn" "en_receive_and_persist en b = Inl e"
  shows "\<exists>x. pn_receive_and_persist pn b = Inl x"
proof (cases "pn_receive_and_persist pn b")
  case (Inr nv)
  obtain n v where nv: "nv = (n, v)" by fastforce
  with assms(1) Inr obtain n' v' where "n = Some n'" "v = Some v'"
    unfolding same_host_def by blast
  with assms Inr nv have "en_receive_and_persist en b = Inr (n', v')"
    unfolding same_host_def by blast
  with assms(2) show ?thesis by simp
qed simp

lemma sign_batch_agree:
  assumes "same_host en pn" "bp_trace_level prov = level"
  shows "(\<exists>b. seal_sign_wrap pf en t prov profile = Inr b \<and>
              py_sign_and_batch pf pn (stamp profile level t) prov = Inr b)
       \<or> (\<exists>e e'. seal_sign_wrap pf en t prov profile = Inl e \<and>
              py_sign_and_batch pf pn (stamp profile level t) prov = Inl e')"
proof -
  let ?u = "stamp profile level t"
  have key: "pn_local_key_id pn = Inr (en_current_alias en)"
    and sign: "\<And>m sig. en_sign en m = Inr sig \<longleftrightarrow> pn_local_sign pn m = Inr sig"
    and len: "\<And>m sig. en_sign en m = Inr sig \<Longrightarrow> length sig = 64"
    using assms(1) by (simp_all add: same_host_def)
  note defs = seal_sign_wrap_def py_sign_and_batch_def sign_trace_via_hardware_signer_def
    canonical_bytes_for_def apply_signature_and_batch_def assms(2) key
  show ?thesis
  proof (cases "canonical_bytes (pf_crypto pf) ?u")
    case (Inl e)
    then show ?thesis by (simp add: defs)
  next
    case (Inr m)
    show ?thesis
    proof (cases "en_sign en m")
      case (Inl e)
      then have "\<exists>x. pn_local_sign pn m = Inl x"
        using sign [of m] by (cases "pn_local_sign pn m") auto
      with Inl Inr show ?thesis by (auto simp: defs)
    next
      case (Inr sig)
      with sign have "pn_local_sign pn m = Inr sig" by simp
      with Inr \<open>canonical_bytes (pf_crypto pf) ?u = Inr m\<close> len [OF Inr] show ?thesis
        by (cases "build_batch_bytes (pf_to_vec pf)
            [apply_signature (pf_crypto pf) sig (en_current_alias en) ?u] prov") (simp_all add: defs)
    qed
  qed
qed

lemma py_tee_agrees: "client_state_of (py_tee_write d b s) = tee_write_if_configured d b (client_state_of s)"
  by (simp add: py_tee_write_def tee_write_if_configured_def client_state_of_def split: option.split)

lemma persist_agrees:
  assumes "same_host en pn"
  shows "fst (persist_batch en i b (client_state_of s)) = client_state_of (fst (py_persist_batch pn i b s))"
    and "result_agrees (snd (persist_batch en i b (client_state_of s))) (snd (py_persist_batch pn i b s))"
proof -
  show "fst (persist_batch en i b (client_state_of s)) = client_state_of (fst (py_persist_batch pn i b s))"
    by (simp add: persist_batch_def py_persist_batch_def client_state_of_def)
  show "result_agrees (snd (persist_batch en i b (client_state_of s))) (snd (py_persist_batch pn i b s))"
  proof (cases "en_receive_and_persist en b")
    case (Inl e)
    then have "\<exists>x. pn_receive_and_persist pn b = Inl x"
      using assms by (rule same_host_persist_fails [rotated])
    with Inl show ?thesis by (auto simp: persist_batch_def py_persist_batch_def result_agrees_def)
  next
    case (Inr nv)
    obtain n v where nv: "nv = (n, v)" by fastforce
    then have "pn_receive_and_persist pn b = Inr (Some n, Some v)"
      using assms Inr by (simp add: same_host_def)
    with Inr nv show ?thesis
      by (simp add: persist_batch_def py_persist_batch_def result_agrees_def required_def)
  qed
qed

text \<open>A sealed trace, from the consent gate to the host.\<close>

lemma sealed_agrees:
  assumes host: "same_host en pn" and cap: "capture ev (in_thought_id ev) (ps_store s) = (st, Sealed t)"
  shows "fst (capture_event pf (client_config_of pc) en ev (client_state_of s))
        = client_state_of (fst (py_capture_event pf pc pn ev s))
    \<and> result_agrees (snd (capture_event pf (client_config_of pc) en ev (client_state_of s)))
        (snd (py_capture_event pf pc pn ev s))"
proof -
  let ?cf = "client_config_of pc" and ?dp = "pc_deployment_profile pc"
  have now: "pn_now_rfc3339 pn = en_now_rfc3339 en" using host by (simp add: same_host_def)
  have st: "cs_store (client_state_of s) = ps_store s"
    "client_state_of s\<lparr>cs_store := st\<rparr> = client_state_of (s\<lparr>ps_store := st\<rparr>)"
    by (simp_all add: client_state_of_def)
  note defs = py_capture_event_def capture_event_def py_prepare_def prepare_for_seal_def cap st
    py_ready_iff gate_sealed_config
  show ?thesis
  proof (cases "permitted_timestamp pf (resolve_consent Absent (pc_consent_config pc))")
    case None
    then show ?thesis by (simp add: defs result_agrees_def)
  next
    case (Some ts)
    define prov where "prov = make_provenance ?cf (en_now_rfc3339 en) ts"
    have lvl: "bp_trace_level prov = pc_trace_level pc"
      by (simp add: prov_def make_provenance_def client_config_of_def)
    have dir: "cf_local_copy_dir ?cf = pc_local_copy_dir pc" by (simp add: client_config_of_def)
    have id: "ct_trace_id (stamp ?dp (pc_trace_level pc) t) = ct_trace_id t" by (simp add: stamp_def)
    from sign_batch_agree [OF host lvl, of pf t ?dp]
    consider b where "seal_sign_wrap pf en t prov ?dp = Inr b"
        "py_sign_and_batch pf pn (stamp ?dp (pc_trace_level pc) t) prov = Inr b"
      | e e' where "seal_sign_wrap pf en t prov ?dp = Inl e"
        "py_sign_and_batch pf pn (stamp ?dp (pc_trace_level pc) t) prov = Inl e'"
      by blast
    then show ?thesis
    proof cases
      case 1
      with Some show ?thesis
        using persist_agrees [OF host, of "ct_trace_id t" b "py_tee_write (pc_local_copy_dir pc) b (s\<lparr>ps_store := st\<rparr>)"]
        by (simp add: defs dir py_tee_agrees now id flip: prov_def)
    next
      case 2
      with Some show ?thesis by (simp add: defs now result_agrees_def flip: prov_def)
    qed
  qed
qed

lemma events_agree:
  assumes host: "same_host en pn"
  shows "fst (capture_event pf (client_config_of pc) en ev (client_state_of s))
        = client_state_of (fst (py_capture_event pf pc pn ev s))
    \<and> result_agrees (snd (capture_event pf (client_config_of pc) en ev (client_state_of s)))
        (snd (py_capture_event pf pc pn ev s))"
proof -
  obtain st o1 where cap: "capture ev (in_thought_id ev) (ps_store s) = (st, o1)" by fastforce
  have st: "cs_store (client_state_of s) = ps_store s" by (simp add: client_state_of_def)
  note defs = py_capture_event_def capture_event_def py_prepare_def prepare_for_seal_def cap st result_agrees_def
  show ?thesis
  proof (cases o1)
    case (Sealed t)
    show ?thesis by (rule sealed_agrees [OF host cap [unfolded Sealed]])
  qed (simp_all add: defs, simp_all add: client_state_of_def)
qed

section \<open>Properties\<close>

text \<open>
  C2: the two capture paths are equivalent. On the same host, with the same configuration
  and no consent key, the cohabitation path and the Rust client take every event to the
  same store, the same tee files and the same persisted batches in the same order; one
  succeeds exactly when the other does, and then the dicts they return are equal.
\<close>

theorem cohabitation_refines_client:
  assumes "same_host en pn"
    and "py_capture_event pf pc pn ev s = (s', q)"
    and "capture_event pf (client_config_of pc) en ev (client_state_of s) = (c', r)"
  shows "c' = client_state_of s' \<and> result_agrees r q"
  using events_agree [OF assms(1), of pf pc ev s] by (simp add: assms(2,3))

definition demo_py_config :: py_config where
  "demo_py_config = \<lparr>pc_consent_config = \<lparr>cc_consent_timestamp = Some ''2026''\<rparr>, pc_correlation = None,
     pc_deployment_profile = None, pc_trace_level = ''generic'',
     pc_trace_schema_version = trace_schema_version, pc_local_copy_dir = None\<rparr>"

definition demo_py_engine :: "unit py_engine" where
  "demo_py_engine = \<lparr>pn_local_key_id = Inr ''host'',
     pn_local_sign = \<lambda>m. if length m = 1 then Inr (replicate 63 0 @ m) else Inl (),
     pn_receive_and_persist = \<lambda>b. Inr (Some 1, Some 1), pn_now_rfc3339 = ''now''\<rparr>"

lemma demo_same_host: "same_host (demo_engine []) demo_py_engine"
  by (auto simp: same_host_def demo_engine_def demo_py_engine_def)

lemma cohabitation_refines_client_witness:
  "let ev = demo_event ''ACTION_RESULT'' ''a'' ''5'';
       (s, q) = py_capture_event demo_platform demo_py_config demo_py_engine ev py_new;
       (c, r) = capture_event demo_platform (client_config_of demo_py_config) (demo_engine []) ev client_new
   in ps_persist_calls s = [[2]] \<and> c = client_state_of s \<and> result_agrees r q"
proof -
  let ?ev = "demo_event ''ACTION_RESULT'' ''a'' ''5''"
  let ?p = "py_capture_event demo_platform demo_py_config demo_py_engine ?ev py_new"
  let ?c = "capture_event demo_platform (client_config_of demo_py_config) (demo_engine []) ?ev client_new"
  have new: "client_new = client_state_of py_new"
    by (simp add: client_new_def py_new_def client_state_of_def)
  have "ps_persist_calls (fst ?p) = [[2]]" by code_simp
  moreover have "fst ?c = client_state_of (fst ?p) \<and> result_agrees (snd ?c) (snd ?p)"
    unfolding new by (rule cohabitation_refines_client [OF demo_same_host]) simp_all
  ultimately show ?thesis by (simp add: case_prod_unfold Let_def)
qed

end
