(* ===== verification/Retention.thy ===== *)
theory Retention
  imports F64
begin

text \<open>
  Local-store eviction: \<open>RetentionPolicy\<close> (\<open>src/src/config/retention.rs\<close>), the plan and
  summary types (\<open>retention/summary.rs\<close>), the planner and the executor
  (\<open>retention/eviction.rs\<close>).

  The engine's \<open>storage_summary\<close> and \<open>delete_traces_older_than\<close> are state-passing functions
  given as parameters. So are two facts of \<open>chrono\<close>: \<open>repr\<close>, the instants a \<open>DateTime<Utc>\<close>
  can represent (subtraction panics outside; a panic of the planner is \<open>None\<close>), and \<open>half\<close>,
  the division of a \<open>Duration\<close> by two. The deletion loop is a partial function: not returning
  is \<open>None\<close>.
\<close>

section \<open>Policy, plan and summary\<close>

datatype trace_level = Generic | Detailed | FullTraces

record retention_policy =
  max_disk_gb :: "u64 option"
  max_age_days :: "u32 option"
  per_level_max_age :: "(trace_level \<times> u32) list option"
  detection_events_max_age_days :: "u32 option"
  audit_log_max_age_days :: "u32 option"

definition indefinite :: retention_policy where
  "indefinite = \<lparr>max_disk_gb = None, max_age_days = None, per_level_max_age = None,
     detection_events_max_age_days = None, audit_log_max_age_days = None\<rparr>"

text \<open>The parts of persist's \<open>StorageSummary\<close> the planner reads.\<close>

record table_usage =
  oldest_ts :: "instant option"
  newest_ts :: "instant option"

record storage_summary =
  trace_events :: table_usage
  audit_log :: table_usage
  total_disk_bytes :: u64

record eviction_plan =
  plan_cutoff :: "instant option"
  trace_batch_size :: u64
  archive_audit_range :: "(instant \<times> instant) option"

record eviction_summary =
  evicted_traces :: u64
  archived_audit_entries :: u64
  archived_audit_ranges :: u64
  freed_bytes_estimate :: u64

datatype eviction_error = EvictPersist string

section \<open>Planner\<close>

definition default_trace_batch_size :: u64 where
  "default_trace_batch_size = 1000"

definition disk_eviction_threshold :: f64 where
  "disk_eviction_threshold = flit (9/10)"

definition days :: "u32 \<Rightarrow> duration" where
  "days n = int (unat n) * 86400 * 10 ^ 9"

definition checked_sub :: "(instant \<Rightarrow> bool) \<Rightarrow> instant \<Rightarrow> duration \<Rightarrow> instant option" where
  "checked_sub repr t d = (if repr (t - d) then Some (t - d) else None)"

text \<open>\<open>(summary.total_disk_bytes as f64) >= cap_bytes * DISK_EVICTION_THRESHOLD\<close>.\<close>

definition disk_pressured :: "u64 \<Rightarrow> u64 \<Rightarrow> bool" where
  "disk_pressured bytes gb =
     (let cap_bytes = f_of_nat (unat (saturating_mul_u64 gb 1000000000)) in
      fle (fmul cap_bytes disk_eviction_threshold) (f_of_nat (unat bytes)))"

definition midpoint_of :: "(duration \<Rightarrow> duration) \<Rightarrow> table_usage \<Rightarrow> instant option" where
  "midpoint_of half u =
     (case (oldest_ts u, newest_ts u) of
        (Some old, Some new) \<Rightarrow> Some (old + half (new - old))
      | _ \<Rightarrow> None)"

definition tighten :: "instant option \<Rightarrow> instant \<Rightarrow> instant option" where
  "tighten cutoff m = Some (case cutoff of Some existing \<Rightarrow> max existing m | None \<Rightarrow> m)"

definition age_cutoff :: "(instant \<Rightarrow> bool) \<Rightarrow> u32 option \<Rightarrow> instant \<Rightarrow> instant option option" where
  "age_cutoff repr age now =
     (case age of None \<Rightarrow> Some None
      | Some n \<Rightarrow> (case checked_sub repr now (days n) of None \<Rightarrow> None | Some c \<Rightarrow> Some (Some c)))"

definition plan_eviction ::
    "(instant \<Rightarrow> bool) \<Rightarrow> (duration \<Rightarrow> duration) \<Rightarrow> storage_summary \<Rightarrow> retention_policy \<Rightarrow> instant \<Rightarrow> eviction_plan option" where
  "plan_eviction repr half summary policy now =
     (case age_cutoff repr (max_age_days policy) now of
        None \<Rightarrow> None
      | Some by_age \<Rightarrow>
          let cutoff =
            (case max_disk_gb policy of
               None \<Rightarrow> by_age
             | Some gb \<Rightarrow>
                 if disk_pressured (total_disk_bytes summary) gb
                 then (case midpoint_of half (trace_events summary) of
                         Some m \<Rightarrow> tighten by_age m
                       | None \<Rightarrow> by_age)
                 else by_age) in
          (case age_cutoff repr (audit_log_max_age_days policy) now of
             None \<Rightarrow> None
           | Some audit \<Rightarrow>
               Some \<lparr>plan_cutoff = cutoff,
                     trace_batch_size = default_trace_batch_size,
                     archive_audit_range =
                       (case (audit, oldest_ts (audit_log summary)) of
                          (Some c, Some old) \<Rightarrow> if old < c then Some (old, c) else None
                        | _ \<Rightarrow> None)\<rparr>))"

section \<open>Executor\<close>

record 'e retention_engine =
  engine_summary :: "'e \<Rightarrow> (string + storage_summary) \<times> 'e"
  engine_delete :: "instant \<Rightarrow> u64 \<Rightarrow> 'e \<Rightarrow> (string + u64) \<times> 'e"

partial_function (option) delete_loop ::
    "('e \<Rightarrow> (string + u64) \<times> 'e) \<Rightarrow> u64 \<Rightarrow> u64 \<Rightarrow> 'e \<Rightarrow> ((eviction_error + u64) \<times> 'e) option" where
  [code]: "delete_loop del batch evicted e =
     (case del e of
        (Inl msg, e1) \<Rightarrow> Some (Inl (EvictPersist msg), e1)
      | (Inr deleted, e1) \<Rightarrow>
          if deleted < batch then Some (Inr (evicted + deleted), e1)
          else delete_loop del batch (evicted + deleted) e1)"

definition saturating_sub_u64 :: "u64 \<Rightarrow> u64 \<Rightarrow> u64" where
  "saturating_sub_u64 a b = (if b \<le> a then a - b else 0)"

definition execute_plan ::
    "'e retention_engine \<Rightarrow> eviction_plan \<Rightarrow> 'e \<Rightarrow> ((eviction_error + eviction_summary) \<times> 'e) option" where
  "execute_plan eng plan e =
     (case engine_summary eng e of
        (Inl msg, e1) \<Rightarrow> Some (Inl (EvictPersist msg), e1)
      | (Inr before, e1) \<Rightarrow>
          (case (case plan_cutoff plan of
                   None \<Rightarrow> Some (Inr 0, e1)
                 | Some cutoff \<Rightarrow>
                     delete_loop (engine_delete eng cutoff (trace_batch_size plan))
                       (trace_batch_size plan) 0 e1) of
             None \<Rightarrow> None
           | Some (Inl err, e2) \<Rightarrow> Some (Inl err, e2)
           | Some (Inr evicted, e2) \<Rightarrow>
               (case engine_summary eng e2 of
                  (Inl msg, e3) \<Rightarrow> Some (Inl (EvictPersist msg), e3)
                | (Inr after, e3) \<Rightarrow>
                    Some (Inr \<lparr>evicted_traces = evicted,
                               archived_audit_entries = 0,
                               archived_audit_ranges = 0,
                               freed_bytes_estimate =
                                 saturating_sub_u64 (total_disk_bytes before) (total_disk_bytes after)\<rparr>, e3))))"

text \<open>The outer \<open>None\<close> is a panic of the planner or a loop that does not return.\<close>

definition evict_per_retention_policy ::
    "(instant \<Rightarrow> bool) \<Rightarrow> (duration \<Rightarrow> duration) \<Rightarrow> 'e retention_engine \<Rightarrow> retention_policy \<Rightarrow> instant \<Rightarrow> 'e \<Rightarrow>
       ((eviction_error + eviction_summary) \<times> 'e) option" where
  "evict_per_retention_policy repr half eng policy now e =
     (case engine_summary eng e of
        (Inl msg, e1) \<Rightarrow> Some (Inl (EvictPersist msg), e1)
      | (Inr summary, e1) \<Rightarrow>
          (case plan_eviction repr half summary policy now of
             None \<Rightarrow> None
           | Some plan \<Rightarrow> execute_plan eng plan e1))"

section \<open>Disk pressure\<close>

lemma threshold_value: "disk_eviction_threshold = Fin False (8106479329266893 / 9007199254740992)"
  by code_simp

lemma u64_float: "\<exists>q. f_of_nat (unat (b :: u64)) = Fin False q \<and> exact q \<and> 0 \<le> q"
proof -
  have "unat b \<le> 2 ^ 64" using unsigned_less [of b, where ?'a = nat] by simp
  then show ?thesis using f_of_nat_fin by blast
qed

text \<open>A store at or above its cap is under pressure, whatever the rounding of the threshold.\<close>

lemma full_is_pressured:
  assumes "unat gb * 10 ^ 9 \<le> unat bytes"
  shows "disk_pressured bytes gb"
proof -
  let ?cap = "unat (saturating_mul_u64 gb 1000000000)"
  obtain q where q: "f_of_nat ?cap = Fin False q" "exact q" "0 \<le> q" using u64_float by blast
  have "fin_in 0 q (fmul (Fin False q) disk_eviction_threshold)"
    unfolding threshold_value fmul.simps using q by (intro fround_fin_in) (simp_all add: mult_left_le)
  then have "fle (fmul (f_of_nat ?cap) disk_eviction_threshold) (f_of_nat ?cap)"
    unfolding q(1) by (elim fin_in_cases) (simp only: fle_fin fval.simps if_False)
  moreover have "?cap \<le> unat bytes"
    using assms by (simp add: unat_saturating_mul_u64 min.coboundedI1)
  then have "fle (f_of_nat ?cap) (f_of_nat (unat bytes))" by (rule f_of_nat_mono)
  ultimately show ?thesis by (simp add: disk_pressured_def fle_trans)
qed

section \<open>The deletion loop\<close>

text \<open>
  What the loop relies on: \<open>rows e\<close> counts the rows the deletion still finds in \<open>e\<close>; a call
  deletes as many of them as the batch allows and returns their number.
\<close>

definition batched_delete :: "('e \<Rightarrow> (string + u64) \<times> 'e) \<Rightarrow> u64 \<Rightarrow> ('e \<Rightarrow> nat) \<Rightarrow> bool" where
  "batched_delete del batch rows \<longleftrightarrow>
     (\<forall>e. \<exists>e1. del e = (Inr (of_nat (min (rows e) (unat batch))), e1)
               \<and> rows e1 = rows e - min (rows e) (unat batch))"

lemma delete_loop_drains:
  assumes "batched_delete del batch rows" "batch \<noteq> 0"
  shows "\<exists>e1. delete_loop del batch acc e = Some (Inr (acc + of_nat (rows e)), e1) \<and> rows e1 = 0"
proof (induction "rows e" arbitrary: acc e rule: less_induct)
  case less
  let ?k = "min (rows e) (unat batch)"
  obtain e1 where e1: "del e = (Inr (of_nat ?k), e1)" "rows e1 = rows e - ?k"
    using assms(1) unfolding batched_delete_def by blast
  have b: "unat batch \<noteq> 0" using assms(2) by (simp add: unsigned_eq_0_iff)
  have "unat batch < 2 ^ 64" using unsigned_less [of batch, where ?'a = nat] by simp
  then have "unat (of_nat ?k :: u64) = ?k" by (simp add: unat_of_nat take_bit_nat_eq_self)
  then have lt: "(of_nat ?k :: u64) < batch \<longleftrightarrow> rows e < unat batch"
    by (auto simp: word_less_nat_alt)
  show ?case
  proof (cases "rows e < unat batch")
    case True
    with lt e1 show ?thesis by (subst delete_loop.simps) auto
  next
    case False
    then have "rows e1 < rows e" using e1 b by auto
    then obtain e2 where "delete_loop del batch (acc + of_nat ?k) e1
        = Some (Inr (acc + of_nat ?k + of_nat (rows e1)), e2)" "rows e2 = 0"
      using less by blast
    moreover have "(of_nat ?k + of_nat (rows e1) :: u64) = of_nat (rows e)"
      unfolding e1(2) of_nat_add [symmetric] by simp
    ultimately show ?thesis
      using False lt e1 by (subst delete_loop.simps) (auto simp: add.assoc)
  qed
qed

text \<open>With a zero batch size no count is below the batch, and the loop never returns.\<close>

lemma delete_loop_zero_batch_aux:
  "delete_loop del batch acc e = Some y \<Longrightarrow> batch \<noteq> 0 \<or> (\<exists>e. \<forall>d e1. del e \<noteq> (Inr d, e1))"
proof (induction rule: delete_loop.raw_induct [rotated, consumes 1, case_names step])
  case (step loop del batch acc e y)
  obtain r e1 where r: "del e = (r, e1)" by fastforce
  show ?case
  proof (cases r)
    case (Inl m)
    with r show ?thesis by (intro disjI2 exI [of _ e]) simp
  next
    case (Inr d)
    show ?thesis
    proof (cases "batch = 0")
      case True
      with Inr r step.hyps have "loop del batch (acc + d) e1 = Some y" by simp
      then show ?thesis by (rule step.IH)
    qed simp
  qed
qed

lemma delete_loop_zero_batch: "\<forall>e. \<exists>d e1. del e = (Inr d, e1) \<Longrightarrow> delete_loop del 0 acc e = None"
  using delete_loop_zero_batch_aux by (metis not_Some_eq)

section \<open>Properties\<close>

text \<open>
  The plan is the tightest of the bounds in force. When no panic happens, every
  configured bound holds: an age limit always yields a cutoff at or after that age; a store
  at or above its disk cap with a dated trace table yields a cutoff at or after the midpoint
  of its window; no bound yields no cutoff; and the cutoff is always one of these two
  values, so disk pressure can only tighten it. The audit range, when there is one, starts
  at the oldest entry and ends strictly later at the audit age limit.
\<close>

lemma plan_enforces_every_bound:
  assumes "plan_eviction repr half summary policy now = Some plan"
  shows "(\<forall>n. max_age_days policy = Some n \<longrightarrow> (\<exists>c. plan_cutoff plan = Some c \<and> now - days n \<le> c))
    \<and> (\<forall>gb m. max_disk_gb policy = Some gb \<longrightarrow> unat gb * 10 ^ 9 \<le> unat (total_disk_bytes summary) \<longrightarrow>
         midpoint_of half (trace_events summary) = Some m \<longrightarrow> (\<exists>c. plan_cutoff plan = Some c \<and> m \<le> c))
    \<and> (\<forall>c. plan_cutoff plan = Some c \<longrightarrow>
         (\<exists>n. max_age_days policy = Some n \<and> c = now - days n)
         \<or> (max_disk_gb policy \<noteq> None \<and> midpoint_of half (trace_events summary) = Some c))
    \<and> (\<forall>from to. archive_audit_range plan = Some (from, to) \<longrightarrow>
         oldest_ts (audit_log summary) = Some from \<and> from < to
         \<and> (\<exists>n. audit_log_max_age_days policy = Some n \<and> to = now - days n))
    \<and> trace_batch_size plan = 1000"
proof -
  obtain by_age audit where
    by_age: "age_cutoff repr (max_age_days policy) now = Some by_age" and
    audit: "age_cutoff repr (audit_log_max_age_days policy) now = Some audit"
    using assms by (auto simp: plan_eviction_def Let_def split: option.splits)
  have age: "by_age = map_option (\<lambda>n. now - days n) (max_age_days policy)"
    and aud: "audit = map_option (\<lambda>n. now - days n) (audit_log_max_age_days policy)"
    using by_age audit by (auto simp: age_cutoff_def checked_sub_def split: option.splits if_splits)
  define pressed where "pressed =
    (\<exists>gb. max_disk_gb policy = Some gb \<and> disk_pressured (total_disk_bytes summary) gb)"
  define mid where "mid = midpoint_of half (trace_events summary)"
  have cut: "plan_cutoff plan = (if pressed then (case mid of Some m \<Rightarrow> tighten by_age m | None \<Rightarrow> by_age) else by_age)"
    using assms unfolding plan_eviction_def by_age audit pressed_def mid_def
    by (cases "max_disk_gb policy") (auto simp: Let_def)
  have rng: "archive_audit_range plan = (case (audit, oldest_ts (audit_log summary)) of
       (Some c, Some old) \<Rightarrow> if old < c then Some (old, c) else None | _ \<Rightarrow> None)"
    and batch: "trace_batch_size plan = 1000"
    using assms unfolding plan_eviction_def by_age audit
    by (auto simp: Let_def default_trace_batch_size_def)
  show ?thesis
    unfolding cut batch mid_def [symmetric]
    using full_is_pressured by (auto simp: age aud rng tighten_def pressed_def max_def split: option.splits if_splits)
qed

lemma plan_enforces_every_bound_witness:
  "\<exists>plan c. plan_eviction (\<lambda>_. True) (\<lambda>d. d div 2)
       \<lparr>trace_events = \<lparr>oldest_ts = Some 100, newest_ts = Some 300\<rparr>,
        audit_log = \<lparr>oldest_ts = None, newest_ts = None\<rparr>, total_disk_bytes = 2000000000\<rparr>
       (indefinite\<lparr>max_disk_gb := Some 2\<rparr>) 1000 = Some plan \<and> plan_cutoff plan = Some c \<and> 200 \<le> c"
proof -
  let ?s = "\<lparr>trace_events = \<lparr>oldest_ts = Some 100, newest_ts = Some 300\<rparr>,
        audit_log = \<lparr>oldest_ts = None, newest_ts = None\<rparr>, total_disk_bytes = 2000000000\<rparr>"
  let ?p = "indefinite\<lparr>max_disk_gb := Some 2\<rparr>"
  let ?half = "\<lambda>d :: int. d div 2"
  obtain plan where plan: "plan_eviction (\<lambda>_. True) ?half ?s ?p 1000 = Some plan"
    by (auto simp: plan_eviction_def age_cutoff_def indefinite_def Let_def)
  have "midpoint_of ?half (trace_events ?s) = Some 200" "max_disk_gb ?p = Some 2"
    "unat (2 :: u64) * 10 ^ 9 \<le> unat (total_disk_bytes ?s)"
    by (simp_all add: midpoint_of_def)
  with plan_enforces_every_bound [OF plan] obtain c where "plan_cutoff plan = Some c" "200 \<le> c" by blast
  with plan show ?thesis by blast
qed


text \<open>
  A concrete engine: its state is the list of the timestamps of the stored traces, oldest
  rows are deleted first.
\<close>

definition list_engine :: "instant list retention_engine" where
  "list_engine = \<lparr>
     engine_summary = (\<lambda>ts. (Inr \<lparr>trace_events = \<lparr>oldest_ts = None, newest_ts = None\<rparr>,
        audit_log = \<lparr>oldest_ts = Some 0, newest_ts = None\<rparr>, total_disk_bytes = of_nat (length ts)\<rparr>, ts)),
     engine_delete = (\<lambda>c batch ts.
        let old = filter (\<lambda>t. t < c) ts; k = min (length old) (unat batch) in
        (Inr (of_nat k), drop k old @ filter (\<lambda>t. \<not> t < c) ts))\<rparr>"

lemma list_engine_deletes:
  "batched_delete (engine_delete list_engine c batch) batch (\<lambda>ts. length (filter (\<lambda>t. t < c) ts))"
proof -
  have "filter (\<lambda>t. t < c) (drop k (filter (\<lambda>t. t < c) ts)) = drop k (filter (\<lambda>t. t < c) ts)" for k ts
    by (auto simp: filter_id_conv dest: in_set_dropD)
  then show ?thesis by (auto simp: batched_delete_def list_engine_def Let_def)
qed


text \<open>The planner panics exactly when an age limit leaves the range of \<open>DateTime<Utc>\<close>.\<close>

lemma plan_panics_iff:
  "plan_eviction repr half summary policy now = None \<longleftrightarrow>
     (\<exists>n. (max_age_days policy = Some n \<or> audit_log_max_age_days policy = Some n) \<and> \<not> repr (now - days n))"
  by (auto simp: plan_eviction_def age_cutoff_def checked_sub_def Let_def split: option.splits)

end
