(* ===== verification/Egress.thy ===== *)
theory Egress
  imports Batch Retention Scoring
begin

text \<open>
  The per-upstream forwarding policy of \<open>src/src/config/egress.rs\<close>: the filter record, its
  constructors, and the rewriting of a batch that is applied before it is forwarded. The
  severity vocabulary's parser \<open>DetectionSeverity::from_db_str\<close> belongs to the persistence
  crate and is the parameter \<open>from_db\<close>. In-place edits of a field (\<open>get_mut\<close>) are \<open>bt_edit\<close>.
\<close>

section \<open>Policy\<close>

record egress_filter =
  ef_trace_level :: trace_level
  min_severity :: "severity option"
  include_detection_events :: bool
  include_scores :: bool
  redact_user_prompts :: bool
  redact_completions :: bool

definition egress_with_all ::
    "trace_level \<Rightarrow> severity option \<Rightarrow> bool \<Rightarrow> bool \<Rightarrow> bool \<Rightarrow> bool \<Rightarrow> egress_filter" where
  "egress_with_all level sev events scores prompts completions =
     \<lparr>ef_trace_level = level, min_severity = sev, include_detection_events = events,
      include_scores = scores, redact_user_prompts = prompts, redact_completions = completions\<rparr>"

definition egress_new :: "trace_level \<Rightarrow> egress_filter" where
  "egress_new level =
     \<lparr>ef_trace_level = level, min_severity = None, include_detection_events = True,
      include_scores = True, redact_user_prompts = True, redact_completions = True\<rparr>"

definition egress_default :: egress_filter where
  "egress_default = egress_new Generic"

record upstream_lens =
  lens_steward_key_id :: string
  ul_egress_filter :: egress_filter

definition score_fields :: "string list" where
  "score_fields = [''conformity'', ''k_eff'', ''n_eff'', ''cohort_id'', ''phase'']"

definition detection_component_types :: "string list" where
  "detection_component_types = [''llm_call'']"

fun severity_ord :: "severity \<Rightarrow> u8" where
  "severity_ord SevInfo = 0"
| "severity_ord SevWarning = 1"
| "severity_ord SevCritical = 2"

fun trace_level_wire_str :: "trace_level \<Rightarrow> string" where
  "trace_level_wire_str Generic = ''generic''"
| "trace_level_wire_str Detailed = ''detailed''"
| "trace_level_wire_str FullTraces = ''full_traces''"

section \<open>Rewriting a batch\<close>

definition bt_edit :: "'k::linorder \<Rightarrow> ('v \<Rightarrow> 'v) \<Rightarrow> ('k \<times> 'v) list \<Rightarrow> ('k \<times> 'v) list" where
  "bt_edit k e m = (case bt_get m k of None \<Rightarrow> m | Some v \<Rightarrow> bt_put k (e v) m)"

text \<open>Score fields are removed, prompt and completion are replaced by null where present.\<close>

definition filter_data :: "egress_filter \<Rightarrow> fields \<Rightarrow> fields" where
  "filter_data f d =
     (let d1 = (if \<not> include_scores f then fold bt_del score_fields d else d);
          d2 = (if redact_user_prompts f \<and> bt_get d1 ''user_prompt'' \<noteq> None
                then bt_put ''user_prompt'' JNull d1 else d1)
      in if redact_completions f \<and> bt_get d2 ''llm_completion'' \<noteq> None
         then bt_put ''llm_completion'' JNull d2 else d2)"

fun filter_data_value :: "egress_filter \<Rightarrow> json \<Rightarrow> json" where
  "filter_data_value f (JObj d) = JObj (filter_data f d)"
| "filter_data_value f v = v"

fun filter_component :: "egress_filter \<Rightarrow> json \<Rightarrow> json" where
  "filter_component f (JObj c) = JObj (bt_edit ''data'' (filter_data_value f) c)"
| "filter_component f v = v"

definition is_detection_component :: "json \<Rightarrow> bool" where
  "is_detection_component c =
     ((case Option.bind (jget c ''component_type'') as_str of None \<Rightarrow> [] | Some ct \<Rightarrow> ct)
        \<in> set detection_component_types)"

fun filter_components :: "egress_filter \<Rightarrow> json \<Rightarrow> json" where
  "filter_components f (JArr cs) =
     JArr (map (filter_component f)
       (if \<not> include_detection_events f then filter (\<lambda>c. \<not> is_detection_component c) cs else cs))"
| "filter_components f v = v"

fun apply_component_filters :: "egress_filter \<Rightarrow> json \<Rightarrow> json" where
  "apply_component_filters f (JObj t) = JObj (bt_edit ''components'' (filter_components f) t)"
| "apply_component_filters f v = v"

definition passes_severity :: "(string \<Rightarrow> severity option) \<Rightarrow> egress_filter \<Rightarrow> json \<Rightarrow> bool" where
  "passes_severity from_db f ev =
     (case min_severity f of
        None \<Rightarrow> True
      | Some m \<Rightarrow>
          (case Option.bind (jget ev ''severity'') as_str of
             None \<Rightarrow> True
           | Some s \<Rightarrow> (case from_db s of None \<Rightarrow> True | Some sev \<Rightarrow> severity_ord sev \<ge> severity_ord m)))"

fun filter_event :: "egress_filter \<Rightarrow> json \<Rightarrow> json" where
  "filter_event f (JObj ev) =
     JObj (bt_edit ''trace'' (apply_component_filters f)
       (bt_put ''trace_level'' (JStr (trace_level_wire_str (ef_trace_level f))) ev))"
| "filter_event f v = v"

fun filter_events :: "(string \<Rightarrow> severity option) \<Rightarrow> egress_filter \<Rightarrow> json \<Rightarrow> json" where
  "filter_events from_db f (JArr evs) = JArr (map (filter_event f) (filter (passes_severity from_db f) evs))"
| "filter_events from_db f v = v"

fun apply_egress_filter :: "(string \<Rightarrow> severity option) \<Rightarrow> json \<Rightarrow> egress_filter \<Rightarrow> json" where
  "apply_egress_filter from_db (JObj b) f =
     JObj (bt_edit ''events'' (filter_events from_db f)
       (bt_put ''trace_level'' (JStr (trace_level_wire_str (ef_trace_level f))) b))"
| "apply_egress_filter from_db other f = other"

section \<open>Edits that settle\<close>

text \<open>
  Every level of the rewriting is an edit of a value that keeps well-formedness and does
  nothing the second time; such edits lift to the items of an array and to a field of an
  object.
\<close>

lemma bt_edit_get: "bt_inv m \<Longrightarrow> bt_get (bt_edit k e m) k' = (if k' = k then map_option e (bt_get m k) else bt_get m k')"
  by (simp add: bt_edit_def bt_facts split: option.split)

lemma bt_edit_inv: "bt_inv m \<Longrightarrow> bt_inv (bt_edit k e m)"
  by (simp add: bt_edit_def bt_facts split: option.split)

lemma wf_bt_get: "wf_fields m \<Longrightarrow> bt_get m k = Some v \<Longrightarrow> wf_json v"
  by (auto simp: bt_get_def wf_fields_iff dest: map_of_SomeD)

locale settling_edit =
  fixes edit :: "json \<Rightarrow> json"
  assumes wf_edit: "wf_json v \<Longrightarrow> wf_json (edit v)"
    and edit_twice: "wf_json v \<Longrightarrow> edit (edit v) = edit v"
begin

lemma wf_items: "wf_values xs \<Longrightarrow> wf_values (map edit xs)"
  by (simp add: wf_values_iff wf_edit)

lemma items_twice: "wf_values xs \<Longrightarrow> map edit (map edit xs) = map edit xs"
  by (simp add: wf_values_iff edit_twice)

lemma wf_field: "wf_fields m \<Longrightarrow> wf_fields (bt_edit k edit m)"
  by (auto simp: bt_edit_def wf_fields_put wf_edit wf_bt_get split: option.split)

lemma field_twice: "bt_inv m \<Longrightarrow> wf_fields m \<Longrightarrow> bt_edit k edit (bt_edit k edit m) = bt_edit k edit m"
  by (rule bt_ext) (auto simp: bt_edit_inv bt_edit_get edit_twice wf_bt_get fun_eq_iff
      option.map_comp intro!: option.map_cong)

end

lemma fold_bt_del: "bt_inv d \<Longrightarrow> bt_inv (fold bt_del ks d) \<and> (\<forall>k. bt_get (fold bt_del ks d) k = (if k \<in> set ks then None else bt_get d k))"
  by (induction ks arbitrary: d) (auto simp: bt_facts)

text \<open>What stands under a key of the data after filtering.\<close>

definition redacted :: "egress_filter \<Rightarrow> string \<Rightarrow> bool" where
  "redacted f k \<longleftrightarrow> redact_user_prompts f \<and> k = ''user_prompt'' \<or> redact_completions f \<and> k = ''llm_completion''"

definition withheld :: "egress_filter \<Rightarrow> string \<Rightarrow> bool" where
  "withheld f k \<longleftrightarrow> \<not> include_scores f \<and> k \<in> set score_fields"

lemma redact_step:
  "(if r \<and> bt_get d k \<noteq> None then bt_put k JNull d else d) = (if r then bt_edit k (\<lambda>_. JNull) d else d)"
  by (simp add: bt_edit_def split: option.split)

lemma filter_data_steps:
  "filter_data f d =
     (let d1 = (if \<not> include_scores f then fold bt_del score_fields d else d);
          d2 = (if redact_user_prompts f then bt_edit ''user_prompt'' (\<lambda>_. JNull) d1 else d1)
      in if redact_completions f then bt_edit ''llm_completion'' (\<lambda>_. JNull) d2 else d2)"
  by (simp only: filter_data_def redact_step Let_def)

lemma filter_data_spec:
  assumes d: "bt_inv d"
  shows "bt_inv (filter_data f d)"
    "bt_get (filter_data f d) k =
       (if withheld f k then None else if redacted f k then map_option (\<lambda>_. JNull) (bt_get d k) else bt_get d k)"
proof -
  define d1 where "d1 = (if \<not> include_scores f then fold bt_del score_fields d else d)"
  define d2 where "d2 = (if redact_user_prompts f then bt_edit ''user_prompt'' (\<lambda>_. JNull) d1 else d1)"
  have 1: "bt_inv d1" "bt_get d1 k = (if withheld f k then None else bt_get d k)" for k
    using fold_bt_del [OF d, of score_fields] d by (simp_all add: d1_def withheld_def)
  have 2: "bt_inv d2"
    "bt_get d2 k = (if redact_user_prompts f \<and> k = ''user_prompt'' then map_option (\<lambda>_. JNull) (bt_get d1 k) else bt_get d1 k)" for k
    using 1(1) by (simp_all add: d2_def bt_edit_inv bt_edit_get)
  have e: "filter_data f d = (if redact_completions f then bt_edit ''llm_completion'' (\<lambda>_. JNull) d2 else d2)"
    by (simp only: filter_data_steps d1_def d2_def Let_def)
  show "bt_inv (filter_data f d)" using 2(1) by (simp add: e bt_edit_inv)
  have "bt_get (filter_data f d) k =
     (if redact_completions f \<and> k = ''llm_completion'' then map_option (\<lambda>_. JNull) (bt_get d2 k) else bt_get d2 k)"
    using 2(1) by (simp add: e bt_edit_get)
  then show "bt_get (filter_data f d) k =
     (if withheld f k then None else if redacted f k then map_option (\<lambda>_. JNull) (bt_get d k) else bt_get d k)"
    unfolding 2(2) 1(2) redacted_def by (auto simp: option.map_comp o_def)
qed

lemma wf_filter_data: "bt_inv d \<Longrightarrow> wf_fields d \<Longrightarrow> wf_fields (filter_data f d)"
  unfolding wf_fields_iff
proof clarify
  fix k v
  assume d: "bt_inv d" and w: "\<forall>(k, v) \<in> set d. wf_json v" and v: "(k, v) \<in> set (filter_data f d)"
  have "bt_get (filter_data f d) k = Some v"
    using v filter_data_spec(1) [OF d, of f] by (simp add: bt_get_def bt_inv_distinct)
  then have "v = JNull \<or> bt_get d k = Some v"
    unfolding filter_data_spec(2) [OF d] by (auto split: if_splits)
  then show "wf_json v" using w by (auto simp: bt_get_def dest: map_of_SomeD)
qed

interpretation data_edit: settling_edit "filter_data_value f" for f
proof
  fix v
  assume w: "wf_json v"
  show "wf_json (filter_data_value f v)"
    using w by (cases v) (simp_all add: filter_data_spec wf_filter_data)
  show "filter_data_value f (filter_data_value f v) = filter_data_value f v"
  proof (cases v)
    case (JObj d)
    then have "filter_data f (filter_data f d) = filter_data f d"
      using w by (intro bt_ext) (auto simp: filter_data_spec fun_eq_iff option.map_comp o_def)
    then show ?thesis by (simp add: JObj)
  qed simp_all
qed

interpretation component_edit: settling_edit "filter_component f" for f
proof
  fix v
  assume "wf_json v"
  then show "wf_json (filter_component f v)"
    and "filter_component f (filter_component f v) = filter_component f v"
    by (cases v; simp add: bt_edit_inv data_edit.wf_field data_edit.field_twice)+
qed

lemma component_type_kept: "wf_json c \<Longrightarrow> is_detection_component (filter_component f c) = is_detection_component c"
  by (cases c) (simp_all add: is_detection_component_def bt_edit_get)

interpretation components_edit: settling_edit "filter_components f" for f
proof
  fix v
  assume w: "wf_json v"
  show "wf_json (filter_components f v)"
    using w by (cases v) (auto simp: wf_values_iff component_edit.wf_edit)
  have "filter (\<lambda>c. \<not> is_detection_component c) (map (filter_component f) xs)
      = map (filter_component f) (filter (\<lambda>c. \<not> is_detection_component c) xs)" if "wf_values xs" for xs
    using that by (induction xs) (auto simp: component_type_kept)
  then show "filter_components f (filter_components f v) = filter_components f v"
    using w by (cases v) (auto simp: component_edit.edit_twice wf_values_iff)
qed

interpretation trace_edit: settling_edit "apply_component_filters f" for f
proof
  fix v
  assume "wf_json v"
  then show "wf_json (apply_component_filters f v)"
    and "apply_component_filters f (apply_component_filters f v) = apply_component_filters f v"
    by (cases v; simp add: bt_edit_inv components_edit.wf_field components_edit.field_twice)+
qed

text \<open>Stamping a field and editing another one settle as well.\<close>

lemma stamp_then_edit:
  assumes e: "settling_edit e" and k: "k \<noteq> k'" and m: "bt_inv m" "wf_fields m" and x: "wf_json x"
  defines "n \<equiv> bt_edit k' e (bt_put k x m)"
  shows "bt_inv n \<and> wf_fields n \<and> bt_edit k' e (bt_put k x n) = n"
proof -
  have p: "bt_inv (bt_put k x m)" "wf_fields (bt_put k x m)" using m x by (simp_all add: bt_inv_put wf_fields_put)
  have n: "bt_inv n" "wf_fields n" "bt_edit k' e n = n"
    using settling_edit.wf_field [OF e p(2)] settling_edit.field_twice [OF e p] p(1)
    by (simp_all add: n_def bt_edit_inv)
  have "bt_get n k = Some x" using p k by (simp add: n_def bt_edit_get bt_get_put)
  then have "bt_put k x n = n" by (rule bt.put_get_same [OF n(1)])
  with n show ?thesis by simp
qed

interpretation event_edit: settling_edit "filter_event f" for f
proof
  fix v
  assume w: "wf_json v"
  note s = stamp_then_edit [OF trace_edit.settling_edit_axioms, of "''trace_level''" "''trace''" _
      "JStr (trace_level_wire_str (ef_trace_level f))" f]
  show "wf_json (filter_event f v)" using w by (cases v) (simp_all add: s)
  show "filter_event f (filter_event f v) = filter_event f v" using w by (cases v) (simp_all add: s)
qed

lemma event_get:
  "wf_json ev \<Longrightarrow> jget (filter_event f ev) k =
     (if k = ''trace'' then map_option (apply_component_filters f) (jget ev k)
      else if k = ''trace_level'' \<and> (\<exists>m. ev = JObj m) then Some (JStr (trace_level_wire_str (ef_trace_level f)))
      else jget ev k)"
  by (cases ev) (auto simp: bt_edit_get bt_inv_put bt_get_put)

lemma severity_kept: "wf_json ev \<Longrightarrow> passes_severity db f (filter_event f' ev) = passes_severity db f ev"
  by (cases "min_severity f") (simp_all add: passes_severity_def event_get)

interpretation events_edit: settling_edit "filter_events db f" for db f
proof
  fix v
  assume w: "wf_json v"
  show "wf_json (filter_events db f v)"
    using w by (cases v) (auto simp: wf_values_iff event_edit.wf_edit)
  have "filter (passes_severity db f) (map (filter_event f) xs)
      = map (filter_event f) (filter (passes_severity db f) xs)" if "wf_values xs" for xs
    using that by (induction xs) (auto simp: severity_kept)
  then show "filter_events db f (filter_events db f v) = filter_events db f v"
    using w by (cases v) (auto simp: event_edit.edit_twice wf_values_iff)
qed

interpretation batch_edit: settling_edit "\<lambda>b. apply_egress_filter db b f" for db f
proof
  fix v
  assume w: "wf_json v"
  note s = stamp_then_edit [OF events_edit.settling_edit_axioms, of "''trace_level''" "''events''" _
      "JStr (trace_level_wire_str (ef_trace_level f))" db f]
  show "wf_json (apply_egress_filter db v f)" using w by (cases v) (simp_all add: s)
  show "apply_egress_filter db (apply_egress_filter db v f) f = apply_egress_filter db v f"
    using w by (cases v) (simp_all add: s)
qed

section \<open>What the upstream receives\<close>

definition jitems :: "json \<Rightarrow> string \<Rightarrow> json list" where
  "jitems v k = (case jget v k of Some (JArr xs) \<Rightarrow> xs | _ \<Rightarrow> [])"

definition event_components :: "json \<Rightarrow> json list" where
  "event_components ev = (case jget ev ''trace'' of None \<Rightarrow> [] | Some t \<Rightarrow> jitems t ''components'')"

definition dropped :: "egress_filter \<Rightarrow> json \<Rightarrow> bool" where
  "dropped f c \<longleftrightarrow> \<not> include_detection_events f \<and> is_detection_component c"

lemma wf_jitems: "wf_json v \<Longrightarrow> x \<in> set (jitems v k) \<Longrightarrow> wf_json x"
proof (cases "jget v k")
  case (Some w)
  moreover assume "wf_json v" "x \<in> set (jitems v k)"
  ultimately show ?thesis
    using wf_jget [of v k w] by (cases w) (simp_all add: jitems_def wf_values_iff)
qed (simp add: jitems_def)

lemma wf_event_components: "wf_json ev \<Longrightarrow> c \<in> set (event_components ev) \<Longrightarrow> wf_json c"
  by (cases "jget ev ''trace''") (auto simp: event_components_def dest: wf_jget intro: wf_jitems)

lemma trace_components:
  "wf_json t \<Longrightarrow> jitems (apply_component_filters f t) ''components'' =
     map (filter_component f) (filter (\<lambda>c. \<not> dropped f c) (jitems t ''components''))"
proof (cases t)
  case (JObj m)
  moreover assume "wf_json t"
  ultimately have m: "bt_inv m" by simp
  show ?thesis
  proof (cases "bt_get m ''components''")
    case (Some v)
    then show ?thesis by (cases v) (auto simp: JObj jitems_def bt_edit_get m dropped_def)
  qed (simp add: JObj jitems_def bt_edit_get m)
qed (simp_all add: jitems_def)

lemma components_of_event:
  "wf_json ev \<Longrightarrow> event_components (filter_event f ev) =
     map (filter_component f) (filter (\<lambda>c. \<not> dropped f c) (event_components ev))"
  by (auto simp: event_components_def event_get trace_components dest: wf_jget split: option.split)

lemma batch_get:
  "wf_json b \<Longrightarrow> k \<noteq> ''events'' \<Longrightarrow> jget (apply_egress_filter db b f) k =
     (if k = ''trace_level'' \<and> (\<exists>m. b = JObj m) then Some (JStr (trace_level_wire_str (ef_trace_level f))) else jget b k)"
  by (cases b) (auto simp: bt_edit_get bt_inv_put bt_get_put)

lemma batch_events_of:
  "wf_json b \<Longrightarrow> jitems (apply_egress_filter db b f) ''events'' =
     map (filter_event f) (filter (passes_severity db f) (jitems b ''events''))"
proof (cases b)
  case (JObj m)
  moreover assume "wf_json b"
  ultimately have m: "bt_inv m" by simp
  show ?thesis
  proof (cases "bt_get m ''events''")
    case (Some v)
    then show ?thesis by (cases v) (simp_all add: JObj jitems_def bt_edit_get bt_inv_put bt_get_put m)
  qed (simp add: JObj jitems_def bt_edit_get bt_inv_put bt_get_put m)
qed (simp_all add: jitems_def)

lemma component_get_filtered:
  "wf_json c \<Longrightarrow> jget (filter_component f c) k =
     (if k = ''data'' then map_option (filter_data_value f) (jget c k) else jget c k)"
  by (cases c) (simp_all add: bt_edit_get)

text \<open>What a component may show an upstream, key by key.\<close>

definition data_get :: "json \<Rightarrow> string \<Rightarrow> json option" where
  "data_get c k = Option.bind (jget c ''data'') (\<lambda>d. jget d k)"

lemma data_get_filtered:
  assumes "wf_json c"
  shows "data_get (filter_component f c) k =
     (if withheld f k then None else if redacted f k then map_option (\<lambda>_. JNull) (data_get c k) else data_get c k)"
proof (cases "jget c ''data''")
  case (Some d)
  with assms have "wf_json d" by (auto dest: wf_jget)
  then show ?thesis by (cases d) (auto simp: data_get_def component_get_filtered [OF assms] Some filter_data_spec)
qed (simp add: data_get_def component_get_filtered [OF assms])

text \<open>A component, and an event, as the policy lets an upstream see it.\<close>

definition shown_component :: "egress_filter \<Rightarrow> json \<Rightarrow> json \<Rightarrow> bool" where
  "shown_component f c c' \<longleftrightarrow>
     (\<forall>k. k \<noteq> ''data'' \<longrightarrow> jget c' k = jget c k)
     \<and> (\<forall>k. data_get c' k =
          (if withheld f k then None
           else if redacted f k then map_option (\<lambda>_. JNull) (data_get c k)
           else data_get c k))"

definition shown_event :: "egress_filter \<Rightarrow> json \<Rightarrow> json \<Rightarrow> bool" where
  "shown_event f ev ev' \<longleftrightarrow>
     (\<forall>k. k \<noteq> ''trace'' \<longrightarrow> k \<noteq> ''trace_level'' \<longrightarrow> jget ev' k = jget ev k)
     \<and> (ev' = ev \<or> jget ev' ''trace_level'' = Some (JStr (trace_level_wire_str (ef_trace_level f))))
     \<and> list_all2 (shown_component f)
         (filter (\<lambda>c. include_detection_events f \<or> \<not> is_detection_component c) (event_components ev))
         (event_components ev')"

lemma shown_component_filter: "wf_json c \<Longrightarrow> shown_component f c (filter_component f c)"
  by (simp add: shown_component_def component_get_filtered data_get_filtered)

lemma shown_event_filter:
  assumes e: "wf_json e"
  shows "shown_event f e (filter_event f e)"
  unfolding shown_event_def
proof (intro conjI)
  show "\<forall>k. k \<noteq> ''trace'' \<longrightarrow> k \<noteq> ''trace_level'' \<longrightarrow> jget (filter_event f e) k = jget e k"
    by (simp add: event_get [OF e])
  show "filter_event f e = e \<or> jget (filter_event f e) ''trace_level'' = Some (JStr (trace_level_wire_str (ef_trace_level f)))"
  proof (cases "\<exists>m. e = JObj m")
    case True
    then show ?thesis using event_get [OF e, of f "''trace_level''"] by simp
  next
    case False
    then show ?thesis by (cases e) simp_all
  qed
  show "list_all2 (shown_component f)
      (filter (\<lambda>c. include_detection_events f \<or> \<not> is_detection_component c) (event_components e))
      (event_components (filter_event f e))"
    unfolding components_of_event [OF e] dropped_def list.rel_map de_Morgan_conj not_not
    by (rule list.rel_refl_strong) (use wf_event_components [OF e] in \<open>simp add: shown_component_filter\<close>)
qed

section \<open>Properties\<close>

text \<open>
  C8: what an upstream receives. From a well-formed batch the filter forwards, in order,
  exactly the events that pass the severity gate (an event without a known severity
  passes), stamps the policy's level on the batch and on each event, and changes no other
  field around the traces. In every forwarded component no withheld score field is left and
  a redacted text is null, whatever the component; every other field of the data and of
  the component is what was captured; a dropped detection component does not appear. The
  result is well formed, and filtering it again with the same policy changes nothing.
\<close>

theorem egress_withholds_exactly:
  assumes wf: "wf_json batch"
  shows "wf_json (apply_egress_filter db batch f)
    \<and> apply_egress_filter db (apply_egress_filter db batch f) f = apply_egress_filter db batch f
    \<and> (\<forall>k. k \<noteq> ''events'' \<longrightarrow> jget (apply_egress_filter db batch f) k =
         (if k = ''trace_level'' \<and> (\<exists>m. batch = JObj m)
          then Some (JStr (trace_level_wire_str (ef_trace_level f))) else jget batch k))
    \<and> list_all2 (shown_event f)
        (filter (passes_severity db f) (jitems batch ''events''))
        (jitems (apply_egress_filter db batch f) ''events'')"
proof (intro conjI)
  have "wf_json ev" if "ev \<in> set (jitems batch ''events'')" for ev
    using that wf by (rule wf_jitems [rotated])
  then show "list_all2 (shown_event f)
        (filter (passes_severity db f) (jitems batch ''events''))
        (jitems (apply_egress_filter db batch f) ''events'')"
    unfolding batch_events_of [OF wf] list.rel_map
    by (intro list.rel_refl_strong) (simp add: shown_event_filter)
qed (simp_all add: batch_edit.wf_edit [OF wf] batch_edit.edit_twice [OF wf] batch_get [OF wf])

definition sample_event :: json where
  "sample_event = jobject [(''severity'', JStr ''warning''),
     (''trace'', jobject [(''components'', JArr
        [jobject [(''component_type'', JStr ''llm_call'')],
         jobject [(''component_type'', JStr ''action''),
           (''data'', jobject [(''user_prompt'', JStr ''secret''), (''k_eff'', JBool True), (''x'', JBool False)])]])])]"

definition sample_batch :: json where
  "sample_batch = jobject [(''events'', JArr [sample_event, jobject [(''severity'', JStr ''info'')]])]"

definition sample_from_db :: "string \<Rightarrow> severity option" where
  "sample_from_db s = (if s = ''warning'' then Some SevWarning else if s = ''info'' then Some SevInfo else None)"

lemma egress_withholds_exactly_witness:
  "wf_json sample_batch
   \<and> list_all2 (shown_event (egress_with_all Generic (Some SevWarning) False False True True)) [sample_event]
       (jitems (apply_egress_filter sample_from_db sample_batch
          (egress_with_all Generic (Some SevWarning) False False True True)) ''events'')"
proof -
  have w: "wf_json sample_batch" by code_simp
  have "filter (passes_severity sample_from_db (egress_with_all Generic (Some SevWarning) False False True True))
      (jitems sample_batch ''events'') = [sample_event]"
    by code_simp
  with w egress_withholds_exactly [OF w, of sample_from_db "egress_with_all Generic (Some SevWarning) False False True True"]
  show ?thesis by simp
qed

section \<open>Forwarding and the signature\<close>

definition nothing_taken :: "egress_filter \<Rightarrow> json \<Rightarrow> bool" where
  "nothing_taken f c \<longleftrightarrow>
     (include_detection_events f \<or> \<not> is_detection_component c)
     \<and> (\<forall>k. withheld f k \<longrightarrow> data_get c k = None)
     \<and> (\<forall>k. redacted f k \<longrightarrow> data_get c k = None \<or> data_get c k = Some JNull)"

lemma filter_data_id:
  assumes "bt_inv d"
  shows "filter_data f d = d \<longleftrightarrow>
     (\<forall>k. withheld f k \<longrightarrow> bt_get d k = None) \<and> (\<forall>k. redacted f k \<longrightarrow> bt_get d k = None \<or> bt_get d k = Some JNull)"
proof -
  have "filter_data f d = d \<longleftrightarrow> (\<forall>k. bt_get (filter_data f d) k = bt_get d k)"
    using bt_ext [OF filter_data_spec(1) [OF assms, of f] assms] by auto
  moreover have "bt_get (filter_data f d) k = bt_get d k \<longleftrightarrow>
      (withheld f k \<longrightarrow> bt_get d k = None) \<and> (redacted f k \<longrightarrow> bt_get d k = None \<or> bt_get d k = Some JNull)" for k
    by (cases "bt_get d k") (auto simp: filter_data_spec(2) [OF assms])
  ultimately show ?thesis by auto
qed

lemma filter_component_id:
  assumes c: "wf_json c"
  shows "filter_component f c = c \<longleftrightarrow>
     (\<forall>k. withheld f k \<longrightarrow> data_get c k = None) \<and> (\<forall>k. redacted f k \<longrightarrow> data_get c k = None \<or> data_get c k = Some JNull)"
proof (cases "\<exists>m d. c = JObj m \<and> bt_get m ''data'' = Some (JObj d)")
  case True
  then obtain m d where m: "c = JObj m" "bt_get m ''data'' = Some (JObj d)" by blast
  have i: "bt_inv m" "bt_inv d" using c wf_jget [OF c, of "''data''"] by (simp_all add: m)
  have "bt_put ''data'' (JObj d') m = m \<longleftrightarrow> d' = d" for d'
    using m(2) bt.put_get_same [OF i(1) m(2)] fun_cong [OF bt_get_put [of "''data''" "JObj d'" m], of "''data''"]
    by auto
  then show ?thesis by (simp add: m bt_edit_def data_get_def filter_data_id [OF i(2)])
next
  case False
  have "filter_component f c = c"
  proof (cases c)
    case (JObj m)
    show ?thesis
    proof (cases "bt_get m ''data''")
      case (Some v)
      then have "filter_data_value f v = v" using False JObj by (cases v) auto
      then show ?thesis using c Some by (simp add: JObj bt_edit_def bt.put_get_same)
    qed (simp add: JObj bt_edit_def)
  qed simp_all
  moreover have "data_get c k = None" for k
  proof (cases "jget c ''data''")
    case (Some v)
    then show ?thesis using False by (cases c; cases v) (auto simp: data_get_def)
  qed (simp add: data_get_def)
  ultimately show ?thesis by simp
qed

lemma map_filter_id: "map e (filter p xs) = xs \<longleftrightarrow> (\<forall>x \<in> set xs. p x \<and> e x = x)"
proof (induction xs)
  case (Cons x xs)
  have "length (map e (filter p xs)) < length (x # xs)" by (simp add: le_imp_less_Suc)
  then have "map e (filter p xs) \<noteq> x # xs" by (metis less_irrefl)
  then show ?case using Cons.IH by simp
qed simp

lemma without_signature_get:
  "wf_json v \<Longrightarrow> jget (without_signature v) k =
     (if k = ''signature'' \<or> k = ''signature_key_id'' then None else jget v k)"
  by (cases v) (simp_all add: bt_facts)

lemma wf_component: "wf_json (tc_data c) \<Longrightarrow> wf_json (canonical_component t c)"
  unfolding canonical_component_def
  by (intro wf_strip wf_jobject)
    (auto simp: data_with_attempt_index_def wf_fields_put bt_inv_put bt_inv_def [of "[_]"] split: json.splits)

lemma wf_wire:
  assumes "trace_wf t" "\<And>dp. ct_deployment_profile t = Some dp \<Longrightarrow> wf_json dp"
  shows "wf_json (trace_to_wire_json t)"
proof -
  obtain m where m: "build_canonical_envelope t = JObj m" "bt_inv m"
    using envelope_fields by blast
  have "wf_json (build_canonical_envelope t)"
    unfolding build_canonical_envelope_def using assms
    by (intro wf_jobject)
      (auto simp: wf_jopt wf_values_iff trace_wf_def wf_component split: option.splits)
  then show ?thesis by (simp add: trace_to_wire_json_def m bt_inv_put wf_fields_put wf_jopt)
qed

text \<open>
  C24: what forwarding does to the signature. Filtering a wire trace keeps every field but
  its components, the two signature fields among them, and the value under the signature is
  still the signed envelope exactly when the policy finds nothing to take away: no
  detection component it drops, no score field it withholds, no prompt or completion it
  blanks. Otherwise the upstream receives, under the original signature, a value different
  from the one that was signed.
\<close>

theorem forwarding_keeps_signed_value_iff:
  assumes t: "trace_wf t" "\<And>dp. ct_deployment_profile t = Some dp \<Longrightarrow> wf_json dp"
  shows "(\<forall>k. k \<noteq> ''components'' \<longrightarrow>
       jget (apply_component_filters f (trace_to_wire_json t)) k = jget (trace_to_wire_json t) k)
    \<and> (without_signature (apply_component_filters f (trace_to_wire_json t)) = build_canonical_envelope t
       \<longleftrightarrow> (\<forall>c \<in> set (ct_components t). nothing_taken f (canonical_component t c)))"
proof (intro conjI)
  let ?w = "trace_to_wire_json t" and ?cs = "map (canonical_component t) (ct_components t)"
  have w: "wf_json ?w" using t by (rule wf_wire)
  then have fw: "wf_json (apply_component_filters f ?w)" by (rule trace_edit.wf_edit)
  obtain m where m: "?w = JObj m" "bt_inv m"
    using w envelope_fields [of t] by (auto simp: trace_to_wire_json_def)
  show "\<forall>k. k \<noteq> ''components'' \<longrightarrow> jget (apply_component_filters f ?w) k = jget ?w k"
    by (simp add: m bt_edit_get)
  have cs: "jget ?w ''components'' = Some (JArr ?cs)" by (simp add: wire_get envelope_get)
  define es where "es = map (filter_component f) (filter (\<lambda>c. \<not> dropped f c) ?cs)"
  have fcs: "jget (apply_component_filters f ?w) ''components'' = Some (JArr es)"
    using cs by (auto simp: m bt_edit_get es_def dropped_def)
  have es: "es = ?cs \<longleftrightarrow> (\<forall>c \<in> set (ct_components t). nothing_taken f (canonical_component t c))"
    using t(1) unfolding es_def map_filter_id
    by (simp add: filter_component_id wf_component trace_wf_def nothing_taken_def dropped_def)
  have "apply_component_filters f ?w = ?w" if "es = ?cs"
  proof -
    have "filter_components f (JArr ?cs) = JArr ?cs" using that by (auto simp: es_def dropped_def)
    then show ?thesis using cs m(2) by (simp add: m(1) bt_edit_def bt.put_get_same)
  qed
  moreover have "es = ?cs" if "without_signature (apply_component_filters f ?w) = build_canonical_envelope t"
    using arg_cong [OF that, of "\<lambda>v. jget v ''components''"] fcs
    by (simp add: without_signature_get [OF fw] envelope_get)
  ultimately show "without_signature (apply_component_filters f ?w) = build_canonical_envelope t
       \<longleftrightarrow> (\<forall>c \<in> set (ct_components t). nothing_taken f (canonical_component t c))"
    unfolding es [symmetric] using without_signature_wire [of t] by metis
qed

definition prompt_trace :: complete_trace where
  "prompt_trace = demo_trace\<lparr>ct_components :=
     [\<lparr>tc_component_type = CLlmCall, tc_event_type = LlmCall, tc_timestamp = ''1'', tc_attempt_index = 0,
       tc_data = jobject [(''user_prompt'', JStr ''secret'')], tc_agent_id_hash = []\<rparr>]\<rparr>"

text \<open>The default policy, on a trace with a prompt: the signature no longer fits what is forwarded.\<close>

lemma forwarding_keeps_signed_value_iff_witness:
  "without_signature (apply_component_filters egress_default (trace_to_wire_json prompt_trace))
     \<noteq> build_canonical_envelope prompt_trace
   \<and> (let open_policy = egress_with_all FullTraces None True True False False in
      without_signature (apply_component_filters open_policy (trace_to_wire_json prompt_trace))
        = build_canonical_envelope prompt_trace)"
proof -
  have "trace_wf prompt_trace" by code_simp
  then have t: "trace_wf prompt_trace" "\<And>dp. ct_deployment_profile prompt_trace = Some dp \<Longrightarrow> wf_json dp"
    by (simp_all add: prompt_trace_def demo_trace_def)
  define c where "c = hd (ct_components prompt_trace)"
  have c: "ct_components prompt_trace = [c]" by (simp add: c_def prompt_trace_def)
  have "data_get (canonical_component prompt_trace c) ''user_prompt'' = Some (JStr ''secret'')"
    unfolding c_def by code_simp
  then have "\<not> nothing_taken egress_default (canonical_component prompt_trace c)"
    by (auto simp: nothing_taken_def egress_default_def egress_new_def redacted_def)
  moreover have "nothing_taken (egress_with_all FullTraces None True True False False) (canonical_component prompt_trace c)"
    by (simp add: nothing_taken_def egress_with_all_def redacted_def withheld_def)
  ultimately show ?thesis
    using forwarding_keeps_signed_value_iff [OF t] by (simp add: c)
qed

end
