(* ===== verification/NodeApi.thy ===== *)
theory NodeApi
  imports Scores Egress
begin

text \<open>
  Node mode: the access list and the configuration of \<open>src/src/config/node.rs\<close>, and the read
  API of \<open>src/src/role/node.rs\<close>, one definition per route handler. A handler answers with a
  body or with a status code and a typed error; the engine is absent only in tests
  (\<open>None\<close>). Parsing a UUID is the parameter \<open>parse_uuid\<close>, which gives the canonical text
  under which rows are stored; \<open>now\<close> is the clock and \<open>repr\<close> tells which instants
  \<open>DateTime<Utc>\<close> can represent (its subtraction panics outside: \<open>None\<close>).
\<close>

section \<open>Configuration\<close>

datatype 'e peer_acl = AllowAll | AllowList "string list" | FromDirectory 'e

fun permits :: "'e peer_acl \<Rightarrow> string \<Rightarrow> bool" where
  "permits AllowAll key_id = True"
| "permits (AllowList keys) key_id = list_ex (\<lambda>k. k = key_id) keys"
| "permits (FromDirectory e) key_id = True"

record scoring_config =
  sc_sample_size_gate :: u32
  sc_ratchet_calibration_version :: i32

definition scoring_config_default :: scoring_config where
  "scoring_config_default = \<lparr>sc_sample_size_gate = 500, sc_ratchet_calibration_version = 0\<rparr>"

record ux_config =
  api_root :: string
  web_root :: "string option"

definition ux_api_only :: "string \<Rightarrow> ux_config" where
  "ux_api_only path = \<lparr>api_root = path, web_root = None\<rparr>"

definition ux_config_default :: ux_config where
  "ux_config_default = ux_api_only ''/lens/api/v1''"

section \<open>Responses\<close>

record lens_query_error =
  qe_error :: string
  qe_detail :: "string option"

datatype 'a response = Ok200 'a | Failed nat lens_query_error

record score_response =
  sr_detection_id :: string
  sr_trace_id :: string
  sr_detector :: string
  sr_severity :: string
  sr_conformity_variant :: string
  sr_conformity_payload :: json
  sr_ratchet_calibration_version :: i32
  sr_lens_core_version :: string
  sr_ts :: instant

record score_list =
  items :: "score_response list"
  next_cursor :: "string option"

record manifold_aggregate =
  ma_window_start :: instant
  ma_window_end :: instant
  ma_traces_scored :: u32
  ma_conformity_numeric :: u32
  ma_conformity_indeterminate :: u32
  ma_conformity_unavailable :: u32
  ma_detector_fire_counts :: "(string, u32) hmap"
  ma_severity_info :: u32
  ma_severity_warning :: u32
  ma_severity_critical :: u32

record bundle_response =
  bundle_version :: i32
  registered_at :: "instant option"
  is_current :: bool

definition query_error :: "string \<Rightarrow> string \<Rightarrow> lens_query_error" where
  "query_error e d = \<lparr>qe_error = e, qe_detail = Some d\<rparr>"

definition engine_unavailable :: "'a response" where
  "engine_unavailable = Failed 503 (query_error ''engine_unavailable'' ''Engine not initialized'')"

definition internal_error :: "string \<Rightarrow> 'a response" where
  "internal_error msg = Failed 500 (query_error ''internal_error'' msg)"

definition not_found :: "string \<Rightarrow> 'a response" where
  "not_found detail = Failed 404 (query_error ''not_found'' detail)"

fun response_severity :: "severity \<Rightarrow> string" where
  "response_severity SevInfo = ''info''"
| "response_severity SevWarning = ''warning''"
| "response_severity SevCritical = ''critical''"

fun response_variant :: "conformity_variant \<Rightarrow> string" where
  "response_variant VNumeric = ''numeric''"
| "response_variant VIndeterminate = ''indeterminate''"
| "response_variant VUnavailable = ''unavailable''"

definition score_response_of :: "detection_event \<Rightarrow> score_response" where
  "score_response_of e =
     \<lparr>sr_detection_id = detection_id e, sr_trace_id = ev_trace_id e, sr_detector = detector e,
      sr_severity = response_severity (ev_severity e),
      sr_conformity_variant = response_variant (variant e),
      sr_conformity_payload = conformity_payload e,
      sr_ratchet_calibration_version = ratchet_version e,
      sr_lens_core_version = lens_core_version e, sr_ts = ev_ts e\<rparr>"

definition manifold_aggregate_of :: "agent_score_aggregate \<Rightarrow> manifold_aggregate" where
  "manifold_aggregate_of a =
     \<lparr>ma_window_start = window_start a, ma_window_end = window_end a, ma_traces_scored = traces_scored a,
      ma_conformity_numeric = conformity_numeric a, ma_conformity_indeterminate = conformity_indeterminate a,
      ma_conformity_unavailable = conformity_unavailable a,
      ma_detector_fire_counts = detector_fire_counts a,
      ma_severity_info = info (severity_counts a), ma_severity_warning = warning (severity_counts a),
      ma_severity_critical = critical (severity_counts a)\<rparr>"

section \<open>Handlers\<close>

record node_state =
  ns_engine :: "event_store option"
  ns_peer_acl :: "event_store peer_acl"
  ns_ratchet_version :: i32
  ns_api_root :: string

record scores_query =
  sq_trace_id :: "string option"
  sq_agent_id_hash :: "string option"
  sq_since :: "instant option"
  sq_until :: "instant option"
  sq_page_size :: "u32 option"
  sq_cursor :: "string option"

record events_query =
  eq_detector :: "string option"
  eq_severity :: "string option"
  eq_since :: "instant option"
  eq_until :: "instant option"
  eq_page_size :: "u32 option"
  eq_cursor :: "string option"

record aggregate_query =
  aq_window_start :: "instant option"
  aq_window_end :: "instant option"
  aq_detector :: "string option"

text \<open>The tail the two list handlers share: one row beyond the page, cut off again.\<close>

definition page_limit :: "u32 option \<Rightarrow> nat" where
  "page_limit requested = unat (case requested of None \<Rightarrow> 100 | Some n \<Rightarrow> n)"

definition page_of :: "u32 option \<Rightarrow> (detection_event \<Rightarrow> bool) \<Rightarrow> detection_event list \<Rightarrow> score_list" where
  "page_of requested keep events =
     (let page_size = page_limit requested;
          filtered = map score_response_of (take (page_size + 1) (filter keep events))
      in if length filtered > page_size
         then (let shown = take page_size filtered
               in \<lparr>items = shown,
                   next_cursor = (if shown = [] then None else Some (sr_detection_id (last shown)))\<rparr>)
         else \<lparr>items = filtered, next_cursor = None\<rparr>)"

definition not_after :: "instant option \<Rightarrow> detection_event \<Rightarrow> bool" where
  "not_after bound e = (case bound of None \<Rightarrow> True | Some u \<Rightarrow> ev_ts e \<le> u)"

definition get_scores :: "node_state \<Rightarrow> scores_query \<Rightarrow> score_list response" where
  "get_scores st q =
     (case ns_engine st of
        None \<Rightarrow> engine_unavailable
      | Some engine \<Rightarrow>
          (case engine \<lparr>by_trace = sq_trace_id q, by_detector = None, since = sq_since q\<rparr> of
             Inl e \<Rightarrow> internal_error e
           | Inr events \<Rightarrow> Ok200 (page_of (sq_page_size q) (not_after (sq_until q)) events)))"

definition get_score_by_trace :: "node_state \<Rightarrow> string \<Rightarrow> score_list response" where
  "get_score_by_trace st tid =
     (case ns_engine st of
        None \<Rightarrow> engine_unavailable
      | Some engine \<Rightarrow>
          (case engine \<lparr>by_trace = Some tid, by_detector = None, since = None\<rparr> of
             Inl e \<Rightarrow> internal_error e
           | Inr events \<Rightarrow>
               if events = [] then not_found (''trace_id '' @ tid @ '' not found'')
               else Ok200 \<lparr>items = map score_response_of events, next_cursor = None\<rparr>))"

definition parse_min_severity :: "(string \<Rightarrow> string) \<Rightarrow> string option \<Rightarrow> lens_query_error + severity option" where
  "parse_min_severity debug s =
     (case s of
        None \<Rightarrow> Inr None
      | Some v \<Rightarrow>
          if v = ''info'' then Inr (Some SevInfo)
          else if v = ''warning'' then Inr (Some SevWarning)
          else if v = ''critical'' then Inr (Some SevCritical)
          else Inl (query_error ''invalid_severity'' (''unknown severity '' @ debug v)))"

definition get_detection_events :: "(string \<Rightarrow> string) \<Rightarrow> node_state \<Rightarrow> events_query \<Rightarrow> score_list response" where
  "get_detection_events debug st q =
     (case parse_min_severity debug (eq_severity q) of
        Inl e \<Rightarrow> Failed 400 e
      | Inr lowest \<Rightarrow>
          (case ns_engine st of
             None \<Rightarrow> engine_unavailable
           | Some engine \<Rightarrow>
               (case engine \<lparr>by_trace = None, by_detector = eq_detector q, since = eq_since q\<rparr> of
                  Inl e \<Rightarrow> internal_error e
                | Inr events \<Rightarrow>
                    let min_level = (case lowest of None \<Rightarrow> 0 | Some s \<Rightarrow> severity_level s)
                    in Ok200 (page_of (eq_page_size q)
                         (\<lambda>e. severity_level (ev_severity e) \<ge> min_level \<and> not_after (eq_until q) e) events))))"

definition get_detection_event_by_id ::
    "(string \<Rightarrow> string option) \<Rightarrow> node_state \<Rightarrow> string \<Rightarrow> score_response response" where
  "get_detection_event_by_id parse_uuid st did =
     (case parse_uuid did of
        None \<Rightarrow> Failed 400 (query_error ''invalid_detection_id'' (''not a valid UUID: '' @ did))
      | Some uuid \<Rightarrow>
          (case ns_engine st of
             None \<Rightarrow> engine_unavailable
           | Some engine \<Rightarrow>
               (case engine \<lparr>by_trace = None, by_detector = None, since = None\<rparr> of
                  Inl e \<Rightarrow> internal_error e
                | Inr events \<Rightarrow>
                    (case find (\<lambda>e. detection_id e = uuid) events of
                       None \<Rightarrow> not_found (''detection_id '' @ did @ '' not found'')
                     | Some e \<Rightarrow> Ok200 (score_response_of e)))))"

definition hours_24 :: duration where
  "hours_24 = 24 * 3600 * 10 ^ 9"

definition get_manifold_conformity_aggregate ::
    "(instant \<Rightarrow> bool) \<Rightarrow> instant \<Rightarrow> node_state \<Rightarrow> aggregate_query \<Rightarrow> manifold_aggregate response option" where
  "get_manifold_conformity_aggregate repr now st q =
     (let to = (case aq_window_end q of None \<Rightarrow> now | Some t \<Rightarrow> t)
      in if aq_window_start q = None \<and> \<not> repr (to - hours_24) then None
         else
           (let from = (case aq_window_start q of None \<Rightarrow> to - hours_24 | Some t \<Rightarrow> t)
            in Some (case ns_engine st of
                 None \<Rightarrow> engine_unavailable
               | Some engine \<Rightarrow>
                   (case engine \<lparr>by_trace = None, by_detector = aq_detector q, since = Some from\<rparr> of
                      Inl e \<Rightarrow> internal_error e
                    | Inr events \<Rightarrow>
                        Ok200 (manifold_aggregate_of
                          (compute_aggregate events from to (map_option (\<lambda>d. [d]) (aq_detector q)) ev_ts))))))"

definition bundle_entry :: "i32 \<Rightarrow> i32 \<Rightarrow> bundle_response" where
  "bundle_entry current v = \<lparr>bundle_version = v, registered_at = None, is_current = (v = current)\<rparr>"

definition get_calibration_bundles :: "node_state \<Rightarrow> bundle_response list response" where
  "get_calibration_bundles st =
     (let current = ns_ratchet_version st
      in Ok200 (if current = 0 then [\<lparr>bundle_version = 0, registered_at = None, is_current = True\<rparr>]
                else map (\<lambda>v. bundle_entry current (word_of_int v)) [1 .. sint current]))"

definition parse_i32 :: "string \<Rightarrow> i32 option" where
  "parse_i32 s = map_option word_of_int (parse_int 32 s)"

definition get_calibration_bundle_by_version ::
    "(string \<Rightarrow> string) \<Rightarrow> node_state \<Rightarrow> string \<Rightarrow> bundle_response response" where
  "get_calibration_bundle_by_version debug st version =
     (case parse_i32 version of
        None \<Rightarrow> Failed 400 (query_error ''invalid_version'' (''version must be an integer, got '' @ debug version))
      | Some v \<Rightarrow>
          (let current = ns_ratchet_version st
           in if v = 0 \<or> sint v > sint current
              then not_found (''calibration bundle version '' @ show_int (sint v) @ '' not found'')
              else Ok200 (bundle_entry current v)))"

section \<open>Starting a node\<close>

text \<open>
  What \<open>LensCore::node\<close> derives from its arguments. The relay it starts first is the
  parameter \<open>relay\<close>; the HTTP listener runs as a separate task afterwards.
\<close>

record ('r) node_handle =
  nh_relay :: 'r
  nh_state :: node_state
  nh_listen_port :: "16 word"

definition saturating_succ_u16 :: "16 word \<Rightarrow> 16 word" where
  "saturating_succ_u16 p = (if p = - 1 then - 1 else p + 1)"

definition node_peer_urls :: "upstream_lens list \<Rightarrow> (string, string) hmap" where
  "node_peer_urls us = fold (\<lambda>u m. hm_put (lens_steward_key_id u) [] m) us []"

definition node ::
    "('s \<Rightarrow> string \<Rightarrow> 16 word \<Rightarrow> (string, string) hmap \<Rightarrow> 'err + 'r) \<Rightarrow> event_store \<Rightarrow> 16 word \<Rightarrow> string \<Rightarrow> 's \<Rightarrow>
     event_store peer_acl \<Rightarrow> upstream_lens list \<Rightarrow> 'retention \<Rightarrow> scoring_config \<Rightarrow> ux_config \<Rightarrow> 'err + 'r node_handle" where
  "node relay engine port key_id seed acl upstream retention scoring ux =
     rbind (relay seed key_id (saturating_succ_u16 port) (node_peer_urls upstream)) (\<lambda>r.
       Inr \<lparr>nh_relay = r,
            nh_state = \<lparr>ns_engine = Some engine, ns_peer_acl = acl, ns_ratchet_version = sc_ratchet_calibration_version scoring,
                        ns_api_root = api_root ux\<rparr>,
            nh_listen_port = port\<rparr>)"

lemma parse_show_i32: "parse_i32 (show_int (sint v)) = Some v"
  using parse_show_int [of 32 "sint v"] sint_ge [of v] sint_lt [of v] by (simp add: parse_i32_def)

section \<open>Properties\<close>

lemma page_of_items:
  "items (page_of l keep events) = map score_response_of (take (page_limit l) (filter keep events))"
  by (auto simp: page_of_def Let_def take_map min_def)

lemma page_of_cursor:
  "next_cursor (page_of l keep events) =
    (if 0 < page_limit l \<and> page_limit l < length (filter keep events)
     then Some (detection_id (filter keep events ! (page_limit l - 1))) else None)"
proof -
  define n where "n = page_limit l"
  define kept where "kept = filter keep events"
  have "sr_detection_id (last (take n (map score_response_of (take (n + 1) kept)))) = detection_id (kept ! (n - 1))"
    if "0 < n" "n < length kept"
  proof -
    have "take n kept \<noteq> []" using that by auto
    then show ?thesis
      using that by (simp add: take_map min_def last_map last_conv_nth score_response_of_def)
  qed
  then show ?thesis
    by (auto simp: page_of_def Let_def min_def n_def [symmetric] kept_def [symmetric])
qed

lemma page_of_eq:
  "page_of l keep events = \<lparr>items = map score_response_of (take (page_limit l) (filter keep events)),
     next_cursor = (if 0 < page_limit l \<and> page_limit l < length (filter keep events)
       then Some (detection_id (filter keep events ! (page_limit l - 1))) else None)\<rparr>"
  using page_of_items page_of_cursor by simp

lemma parse_known_severity: "parse_min_severity debug (map_option response_severity s) = Inr s"
proof (cases s)
  case (Some v)
  then show ?thesis by (cases v) (simp_all add: parse_min_severity_def)
qed (simp add: parse_min_severity_def)


definition sample_rows :: "detection_event list" where
  "sample_rows = map (\<lambda>(i, s, t). \<lparr>detection_id = i, ev_trace_id = ''t'', body_sha256 = [], detector = ''d'',
      ev_severity = s, ev_cohort_cell = JNull, variant = VNumeric, conformity_payload = JNull,
      lens_core_version = [], ratchet_version = 1, ev_canonical_bytes = [], ed25519_sig = [],
      ml_dsa_65_sig = [], signing_key_id = [], ev_ts = t\<rparr>)
     [(''a'', SevInfo, 1), (''b'', SevCritical, 2), (''c'', SevWarning, 3)]"

definition sample_state :: node_state where
  "sample_state = \<lparr>ns_engine = Some (\<lambda>f. Inr sample_rows), ns_peer_acl = AllowAll, ns_ratchet_version = 2, ns_api_root = []\<rparr>"

definition sample_scores_query :: scores_query where
  "sample_scores_query = \<lparr>sq_trace_id = None, sq_agent_id_hash = None, sq_since = None, sq_until = Some 2,
     sq_page_size = Some 1, sq_cursor = None\<rparr>"

definition sample_events_query :: events_query where
  "sample_events_query = \<lparr>eq_detector = None, eq_severity = Some ''warning'', eq_since = None, eq_until = None,
     eq_page_size = Some 1, eq_cursor = None\<rparr>"


text \<open>
  The list of calibration bundles and the lookup of one. For a positive version the two
  endpoints agree: the lookup answers with an entry exactly when the list holds it. They
  part at the other versions: version 0 is never found, although a node without a bundle
  lists it as its current one; a negative version up to the current one is found, although
  no list contains it. The path is read back exactly as the decimal number it shows.
\<close>

theorem bundle_lookup_matches_list:
  "\<exists>listed. get_calibration_bundles st = Ok200 listed
     \<and> (\<forall>v e. 0 < sint v \<longrightarrow>
          (get_calibration_bundle_by_version debug st (show_int (sint v)) = Ok200 e
             \<longleftrightarrow> e \<in> set listed \<and> bundle_version e = v))
     \<and> (\<forall>e. get_calibration_bundle_by_version debug st ''0'' \<noteq> Ok200 e)
     \<and> (ns_ratchet_version st = 0 \<longrightarrow> listed = [bundle_entry 0 0])
     \<and> (\<forall>v. sint v < 0 \<longrightarrow> bundle_version ` set listed \<subseteq> - {v}
          \<and> (get_calibration_bundle_by_version debug st (show_int (sint v)) = Ok200 (bundle_entry (ns_ratchet_version st) v)
               \<longleftrightarrow> sint v \<le> sint (ns_ratchet_version st)))"
proof -
  define cur where "cur = ns_ratchet_version st"
  define listed where "listed = (if cur = 0 then [bundle_entry 0 0]
      else map (\<lambda>v. bundle_entry cur (word_of_int v)) [1 .. sint cur])"
  have l: "get_calibration_bundles st = Ok200 listed"
    by (simp add: get_calibration_bundles_def listed_def cur_def bundle_entry_def Let_def)
  have cur: "sint cur < 2 ^ 31" using sint_lt [of cur] by simp
  have r: "sint (word_of_int i :: i32) = i" if "1 \<le> i" "i \<le> sint cur" for i
    using that cur by (simp add: sint_sbintrunc' signed_take_bit_int_eq_self)
  have mem: "e \<in> set listed \<and> bundle_version e = v \<longleftrightarrow>
      e = bundle_entry cur v \<and> (if cur = 0 then v = 0 else 1 \<le> sint v \<and> sint v \<le> sint cur)" for e v
    by (auto simp: listed_def bundle_entry_def r intro!: image_eqI [of _ _ "sint v"])
  have look: "get_calibration_bundle_by_version debug st (show_int (sint v)) =
      (if v = 0 \<or> sint v > sint cur then not_found (''calibration bundle version '' @ show_int (sint v) @ '' not found'')
       else Ok200 (bundle_entry cur v))" for v
    by (simp add: get_calibration_bundle_by_version_def parse_show_i32 cur_def Let_def)
  show ?thesis
  proof (intro exI conjI allI impI)
    show "get_calibration_bundles st = Ok200 listed" by (rule l)
    show "ns_ratchet_version st = 0 \<Longrightarrow> listed = [bundle_entry 0 0]"
      by (simp add: listed_def cur_def)
    fix v e
    show "get_calibration_bundle_by_version debug st ''0'' \<noteq> Ok200 e"
    proof -
      have "show_int (sint (0 :: i32)) = ''0''" by code_simp
      then show ?thesis using look [of 0] by (simp add: not_found_def)
    qed
    show "get_calibration_bundle_by_version debug st (show_int (sint v)) = Ok200 e \<longleftrightarrow>
        e \<in> set listed \<and> bundle_version e = v" if "0 < sint v"
      using that unfolding look mem by (auto simp: not_found_def)
    show "bundle_version ` set listed \<subseteq> - {v}" if "sint v < 0"
    proof -
      have "bundle_version x \<noteq> v" if "x \<in> set listed" for x
      proof
        assume "bundle_version x = v"
        with \<open>x \<in> set listed\<close> have "if cur = 0 then v = 0 else 1 \<le> sint v \<and> sint v \<le> sint cur"
          using mem [of x v] by blast
        with \<open>sint v < 0\<close> show False by (auto split: if_splits)
      qed
      then show ?thesis by blast
    qed
    show "get_calibration_bundle_by_version debug st (show_int (sint v)) = Ok200 (bundle_entry (ns_ratchet_version st) v)
        \<longleftrightarrow> sint v \<le> sint (ns_ratchet_version st)" if "sint v < 0"
      using that unfolding look by (auto simp: not_found_def cur_def)
  qed
qed

end
