(* ===== verification/PySurface.thy ===== *)
theory PySurface
  imports PyCapture NodeApi Retention
begin

text \<open>
  The Python boundary, \<open>src/src/ffi/pyo3.rs\<close>: parsing of the level and severity strings, the
  constructors of the configuration classes, the conversion of an event dict, the two ways
  to construct a \<open>LensClient\<close>, and \<open>install_node\<close> with the shutdown of its handle. A Python
  object is none, a string or something else; \<open>dumps\<close> is \<open>json.dumps\<close>, which may raise, and
  \<open>from_str\<close> the JSON parser. \<open>debug\<close> quotes a string for a message; the process-wide engine
  and runtime are options, the relay is the parameter of \<open>node\<close>. The texts of the runtime
  errors about a missing engine are shortened.
\<close>

section \<open>Values and errors\<close>

datatype 'o pyval = PyNone | PyStr string | PyObj 'o

datatype surface_error = ValueError string | RuntimeError string | Raised string

record 'o json_bridge =
  jb_dumps :: "'o pyval \<Rightarrow> string + string"
  jb_from_str :: "string \<Rightarrow> string + json"
  jb_debug :: "string \<Rightarrow> string"

section \<open>Constructors\<close>

definition parse_level :: "(string \<Rightarrow> string) \<Rightarrow> string \<Rightarrow> surface_error + trace_level" where
  "parse_level debug s =
     (if s = ''generic'' then Inr Generic
      else if s = ''detailed'' then Inr Detailed
      else if s = ''full_traces'' then Inr FullTraces
      else Inl (ValueError (''invalid trace_level '' @ debug s
                  @ ''; expected one of: generic, detailed, full_traces'')))"

definition parse_severity :: "(string \<Rightarrow> string) \<Rightarrow> string \<Rightarrow> surface_error + severity" where
  "parse_severity debug s =
     (if s = ''info'' then Inr SevInfo
      else if s = ''warning'' then Inr SevWarning
      else if s = ''critical'' then Inr SevCritical
      else Inl (ValueError (''invalid severity '' @ debug s @ ''; expected one of: info, warning, critical'')))"

definition py_egress_filter_new ::
    "(string \<Rightarrow> string) \<Rightarrow> string \<Rightarrow> string option \<Rightarrow> bool \<Rightarrow> bool \<Rightarrow> bool \<Rightarrow> bool \<Rightarrow> surface_error + egress_filter" where
  "py_egress_filter_new debug level sev events scores prompts completions =
     rbind (parse_level debug level) (\<lambda>tl.
     rbind (case sev of None \<Rightarrow> Inr None | Some s \<Rightarrow> rbind (parse_severity debug s) (\<lambda>x. Inr (Some x))) (\<lambda>ms.
     Inr (egress_with_all tl ms events scores prompts completions)))"

definition py_peer_acl_new :: "string list option \<Rightarrow> 'e peer_acl" where
  "py_peer_acl_new allow_list = (case allow_list of None \<Rightarrow> AllowAll | Some l \<Rightarrow> AllowList l)"

definition py_peer_acl_from_directory :: "'o pyval \<Rightarrow> 'e peer_acl" where
  "py_peer_acl_from_directory engine = AllowAll"

section \<open>Event dicts\<close>

definition require_str :: "(string \<Rightarrow> string) \<Rightarrow> (string \<Rightarrow> 'o pyval option) \<Rightarrow> string \<Rightarrow> surface_error + string" where
  "require_str debug d k =
     (case d k of
        None \<Rightarrow> Inl (ValueError (''component dict missing required field '' @ debug k))
      | Some (PyStr s) \<Rightarrow> Inr s
      | Some _ \<Rightarrow> Inl (ValueError (''component field '' @ debug k @ '' must be a str'')))"

definition optional_str :: "(string \<Rightarrow> 'o pyval option) \<Rightarrow> string \<Rightarrow> surface_error + string option" where
  "optional_str d k =
     (case d k of
        None \<Rightarrow> Inr None
      | Some PyNone \<Rightarrow> Inr None
      | Some (PyStr s) \<Rightarrow> Inr (Some s)
      | Some (PyObj _) \<Rightarrow> Inl (ValueError (''component field \"'' @ k @ ''\" must be a str or None'')))"

definition data_of :: "'o json_bridge \<Rightarrow> (string \<Rightarrow> 'o pyval option) \<Rightarrow> surface_error + json" where
  "data_of jb d =
     (case d ''data'' of
        None \<Rightarrow> Inr (JObj [])
      | Some PyNone \<Rightarrow> Inr (JObj [])
      | Some v \<Rightarrow> rbind (map_err Raised (jb_dumps jb v)) (\<lambda>s.
          map_err (\<lambda>e. ValueError (''component field \"data\" is not JSON-serializable: '' @ e)) (jb_from_str jb s)))"

definition dict_to_inbound_event ::
    "'o json_bridge \<Rightarrow> (string \<Rightarrow> 'o pyval option) \<Rightarrow> surface_error + inbound_event" where
  "dict_to_inbound_event jb d =
     rbind (require_str (jb_debug jb) d ''event_type'') (\<lambda>event_type.
     rbind (require_str (jb_debug jb) d ''thought_id'') (\<lambda>thought_id.
     rbind (require_str (jb_debug jb) d ''timestamp'') (\<lambda>timestamp.
     rbind (require_str (jb_debug jb) d ''agent_id_hash'') (\<lambda>agent_id_hash.
     rbind (optional_str d ''task_id'') (\<lambda>task_id.
     rbind (optional_str d ''trace_level'') (\<lambda>trace_level.
     rbind (data_of jb d) (\<lambda>data.
     Inr \<lparr>in_event_type = event_type, in_thought_id = thought_id, in_task_id = task_id,
          in_agent_id_hash = agent_id_hash, in_timestamp = timestamp, in_trace_level = trace_level,
          in_data = data\<rparr>)))))))"

section \<open>Constructing a client\<close>

text \<open>The keyword arguments of \<open>LensClient(...)\<close> but the host engine.\<close>

record 'o client_kwargs =
  kw_consent_timestamp :: "string option"
  kw_trace_level :: string
  kw_trace_schema_version :: string
  kw_deployment_profile :: "'o pyval option"
  kw_consent_attesting_key_id :: "string option"
  kw_local_copy_dir :: "string option"
  kw_deployment_region :: "string option"
  kw_deployment_type :: "string option"
  kw_agent_role :: "string option"
  kw_agent_template :: "string option"
  kw_share_location :: bool
  kw_user_location :: "string option"
  kw_user_timezone :: "string option"
  kw_user_latitude :: "f64 option"
  kw_user_longitude :: "f64 option"

datatype ('h, 'r) lens_client = SovereignClient 'r client_config | CohabitationClient 'h py_config

definition unwrap_or_empty :: "string option \<Rightarrow> string" where
  "unwrap_or_empty x = (case x of None \<Rightarrow> [] | Some s \<Rightarrow> s)"

definition profile_of :: "'o json_bridge \<Rightarrow> 'o pyval option \<Rightarrow> surface_error + json option" where
  "profile_of jb p =
     (case p of
        None \<Rightarrow> Inr None
      | Some v \<Rightarrow> rbind (map_err Raised (jb_dumps jb v)) (\<lambda>s.
          rbind (map_err (\<lambda>e. ValueError (''deployment_profile: failed to parse as JSON: '' @ e)) (jb_from_str jb s))
            (\<lambda>j. Inr (Some j))))"

definition correlation_of :: "'o client_kwargs \<Rightarrow> correlation_metadata option" where
  "correlation_of kw =
     (let cm = correlation_build (unwrap_or_empty (kw_deployment_region kw)) (unwrap_or_empty (kw_deployment_type kw))
          (unwrap_or_empty (kw_agent_role kw)) (unwrap_or_empty (kw_agent_template kw)) (kw_share_location kw)
          (unwrap_or_empty (kw_user_location kw)) (unwrap_or_empty (kw_user_timezone kw))
          (kw_user_latitude kw) (kw_user_longitude kw)
      in if correlation_is_empty cm then None else Some cm)"

definition lens_client_new ::
    "'o json_bridge \<Rightarrow> 'r option \<Rightarrow> 'h option \<Rightarrow> 'o client_kwargs \<Rightarrow> surface_error + ('h, 'r) lens_client" where
  "lens_client_new jb process_engine engine kw =
     rbind (parse_level (jb_debug jb) (kw_trace_level kw)) (\<lambda>_.
     rbind (profile_of jb (kw_deployment_profile kw)) (\<lambda>dp.
       case engine of
         Some host \<Rightarrow> Inr (CohabitationClient host
           \<lparr>pc_consent_config = \<lparr>cc_consent_timestamp = kw_consent_timestamp kw\<rparr>, pc_correlation = correlation_of kw,
            pc_deployment_profile = dp, pc_trace_level = kw_trace_level kw,
            pc_trace_schema_version = kw_trace_schema_version kw, pc_local_copy_dir = kw_local_copy_dir kw\<rparr>)
       | None \<Rightarrow>
           (case process_engine of
              None \<Rightarrow> Inl (RuntimeError ''no process Engine'')
            | Some r \<Rightarrow> Inr (SovereignClient r
                \<lparr>cf_trace_level = kw_trace_level kw, cf_trace_schema_version = kw_trace_schema_version kw,
                 cf_correlation = correlation_of kw, cf_deployment_profile = dp,
                 cf_consent_attesting_key_id = kw_consent_attesting_key_id kw,
                 cf_consent_config = \<lparr>cc_consent_timestamp = kw_consent_timestamp kw\<rparr>,
                 cf_local_copy_dir = kw_local_copy_dir kw\<rparr>))))"

text \<open>\<open>LensClient.capture_event\<close> on a dict, for the path through a host engine.\<close>

definition capture_dict ::
    "'o json_bridge \<Rightarrow> 'vk platform \<Rightarrow> py_config \<Rightarrow> 'x py_engine \<Rightarrow> (string \<Rightarrow> 'o pyval option) \<Rightarrow> py_state \<Rightarrow>
       py_state \<times> (surface_error + 'x py_error + pydict)" where
  "capture_dict jb pf pc pn d s =
     (case dict_to_inbound_event jb d of
        Inl e \<Rightarrow> (s, Inl e)
      | Inr ev \<Rightarrow> (case py_capture_event pf pc pn ev s of (s', r) \<Rightarrow> (s', Inr r)))"

section \<open>Node mode from Python\<close>

definition install_node ::
    "(string \<Rightarrow> string + string \<times> 16 word) \<Rightarrow> (string \<Rightarrow> string) \<Rightarrow> ('err \<Rightarrow> string) \<Rightarrow>
     (string \<Rightarrow> string \<Rightarrow> 16 word \<Rightarrow> (string, string) hmap \<Rightarrow> 'err + 'r) \<Rightarrow> event_store option \<Rightarrow> bool \<Rightarrow>
     string \<Rightarrow> event_store peer_acl \<Rightarrow> string list \<Rightarrow> scoring_config \<Rightarrow> ux_config \<Rightarrow> surface_error + 'r node_handle" where
  "install_node parse_addr debug show_error relay process_engine runtime listen_addr acl upstream scoring ux =
     (case process_engine of
        None \<Rightarrow> Inl (RuntimeError ''persist Engine not initialized'')
      | Some engine \<Rightarrow>
          if \<not> runtime then Inl (RuntimeError ''persist runtime handle not available'')
          else
            rbind (map_err (\<lambda>e. ValueError (''invalid listen_addr '' @ debug listen_addr @ '': '' @ e))
                    (parse_addr listen_addr)) (\<lambda>(ip, port).
            map_err (\<lambda>e. RuntimeError (''node mode: '' @ show_error e))
              (node relay engine port ''ciris-node-v0.4'' ''/tmp/ciris-node-v0.4-seed''
                (case acl of AllowAll \<Rightarrow> AllowAll | AllowList l \<Rightarrow> AllowList l | FromDirectory _ \<Rightarrow> AllowAll)
                (map (\<lambda>k. \<lparr>lens_steward_key_id = k, ul_egress_filter = egress_default\<rparr>) upstream)
                indefinite scoring ux)))"

text \<open>The handle is taken by the first shutdown.\<close>

definition py_lens_node_shutdown ::
    "('r node_handle \<Rightarrow> string + unit) \<Rightarrow> bool \<Rightarrow> 'r node_handle option \<Rightarrow> (surface_error + unit) \<times> 'r node_handle option" where
  "py_lens_node_shutdown shutdown runtime inner =
     (if \<not> runtime then (Inl (RuntimeError ''persist runtime handle not available''), inner)
      else (case inner of
          None \<Rightarrow> (Inr (), None)
        | Some h \<Rightarrow> (map_err (\<lambda>e. RuntimeError (''node shutdown: '' @ e)) (shutdown h), None)))"

section \<open>Facts\<close>

lemma parse_level_Inr: "parse_level debug s = Inr lv \<longleftrightarrow> s = trace_level_wire_str lv"
  by (cases lv) (auto simp: parse_level_def split: if_splits)

lemma parse_severity_Inr: "parse_severity debug s = Inr x \<longleftrightarrow> s = response_severity x"
  by (cases x) (auto simp: parse_severity_def split: if_splits)

lemma require_str_Inr [simp]: "require_str debug d k = Inr s \<longleftrightarrow> d k = Some (PyStr s)"
  by (auto simp: require_str_def split: option.splits pyval.splits)

lemma optional_str_Inr [simp]:
  "optional_str d k = Inr x \<longleftrightarrow>
     (case x of None \<Rightarrow> d k = None \<or> d k = Some PyNone | Some s \<Rightarrow> d k = Some (PyStr s))"
  by (auto simp: optional_str_def split: option.splits pyval.splits)

text \<open>An event dict is accepted exactly when it spells out the event.\<close>

lemma dict_to_inbound_event_iff:
  "dict_to_inbound_event jb d = Inr ev \<longleftrightarrow>
     d ''event_type'' = Some (PyStr (in_event_type ev)) \<and> d ''thought_id'' = Some (PyStr (in_thought_id ev))
     \<and> d ''timestamp'' = Some (PyStr (in_timestamp ev)) \<and> d ''agent_id_hash'' = Some (PyStr (in_agent_id_hash ev))
     \<and> optional_str d ''task_id'' = Inr (in_task_id ev) \<and> optional_str d ''trace_level'' = Inr (in_trace_level ev)
     \<and> data_of jb d = Inr (in_data ev)"
  by (cases ev) (auto simp: dict_to_inbound_event_def rbind_eq_Inr_iff simp del: optional_str_Inr)

text \<open>A dict that is refused, for instance for a missing field, leaves the client as it was.\<close>

lemma capture_dict_refused:
  "dict_to_inbound_event jb d = Inl e \<Longrightarrow> capture_dict jb pf pc pn d s = (s, Inl e)"
  "d k = None \<Longrightarrow> k \<in> {''event_type'', ''thought_id'', ''timestamp'', ''agent_id_hash''} \<Longrightarrow>
     \<exists>why. capture_dict jb pf pc pn d s = (s, Inl (ValueError why))"
  by (auto simp: capture_dict_def dict_to_inbound_event_def require_str_def rbind_def
      split: option.splits pyval.splits sum.splits)

text \<open>
  A node does not start without its relay, whatever the relay's error: the read API is not
  served either, although \<open>install_node\<close> counts on it. A second shutdown does nothing.
\<close>

lemma install_node_needs_relay:
  assumes "\<And>key port peers. relay ''/tmp/ciris-node-v0.4-seed'' key port peers = Inl e"
  shows "\<exists>why. install_node parse_addr debug show_error relay process_engine runtime listen_addr acl upstream scoring ux
     = Inl why"
  using assms
  by (auto simp: install_node_def node_def rbind_def map_err_def split: option.splits sum.splits)

lemma shutdown_once:
  "snd (py_lens_node_shutdown shutdown True inner) = None" "py_lens_node_shutdown shutdown True None = (Inr (), None)"
  by (auto simp: py_lens_node_shutdown_def split: option.splits)

lemma parse_level_Inl:
  "s \<notin> range trace_level_wire_str \<Longrightarrow> \<exists>why. parse_level debug s = Inl (ValueError why)"
  using rangeI [of trace_level_wire_str Generic] rangeI [of trace_level_wire_str Detailed]
    rangeI [of trace_level_wire_str FullTraces]
  by (auto simp: parse_level_def)

lemma correlation_of_unshared:
  "\<not> kw_share_location kw \<Longrightarrow>
   correlation_of (kw\<lparr>kw_user_location := loc, kw_user_timezone := tz, kw_user_latitude := lat,
     kw_user_longitude := lng\<rparr>) = correlation_of kw"
  by (simp add: correlation_of_def correlation_build_def)

text \<open>The part of the constructor that does not depend on the engine.\<close>

lemma lens_client_new_host:
  "lens_client_new jb pe (Some h) kw = Inr c \<longleftrightarrow>
     (\<exists>lv dp. parse_level (jb_debug jb) (kw_trace_level kw) = Inr lv
        \<and> profile_of jb (kw_deployment_profile kw) = Inr dp
        \<and> c = CohabitationClient h
           \<lparr>pc_consent_config = \<lparr>cc_consent_timestamp = kw_consent_timestamp kw\<rparr>, pc_correlation = correlation_of kw,
            pc_deployment_profile = dp, pc_trace_level = kw_trace_level kw,
            pc_trace_schema_version = kw_trace_schema_version kw, pc_local_copy_dir = kw_local_copy_dir kw\<rparr>)"
  by (auto simp: lens_client_new_def rbind_eq_Inr_iff)

lemma lens_client_new_both:
  fixes h :: 'h and pe :: "'r option"
  assumes "lens_client_new jb pe (Some h) kw = Inr cl"
  obtains pc where "cl = CohabitationClient h pc"
    "\<And>r :: 'r. lens_client_new jb (Some r) (None :: 'h option) kw = Inr (SovereignClient r
        ((client_config_of pc)\<lparr>cf_consent_attesting_key_id := kw_consent_attesting_key_id kw\<rparr>))"
    "pc_consent_config pc = \<lparr>cc_consent_timestamp = kw_consent_timestamp kw\<rparr>"
    "pc_trace_level pc \<in> range trace_level_wire_str"
proof -
  obtain lv dp where c: "parse_level (jb_debug jb) (kw_trace_level kw) = Inr lv"
      "profile_of jb (kw_deployment_profile kw) = Inr dp" and cl: "cl = CohabitationClient h
           \<lparr>pc_consent_config = \<lparr>cc_consent_timestamp = kw_consent_timestamp kw\<rparr>, pc_correlation = correlation_of kw,
            pc_deployment_profile = dp, pc_trace_level = kw_trace_level kw,
            pc_trace_schema_version = kw_trace_schema_version kw, pc_local_copy_dir = kw_local_copy_dir kw\<rparr>"
    using assms unfolding lens_client_new_host by blast
  from c show thesis
    by (intro that [OF cl]) (auto simp: lens_client_new_def client_config_of_def rbind_eq_Inr_iff parse_level_Inr)
qed

section \<open>Properties\<close>

text \<open>
  Two ways to construct one client: from the same keyword arguments, the constructor that
  is handed a host engine and the one that finds an engine in the process fail together or
  give the same configuration, up to the attesting key, which the host path drops: what such
  a client resolves at sealing is its configured consent, whatever attestations (withdrawals
  included) the directory holds. An unknown trace level is refused before any engine is
  looked at, an accepted one is among the three wire strings, and without the sharing flag
  no location argument has any effect.
\<close>

lemma lens_client_configs_agree:
  fixes kw :: "'o client_kwargs" and h :: 'h and pe :: "'r option"
  shows "(\<forall>c. lens_client_new jb pe (Some h) kw = Inr c \<longrightarrow>
        (\<exists>pc. c = CohabitationClient h pc
           \<and> (\<forall>r :: 'r. lens_client_new jb (Some r) (None :: 'h option) kw = Inr (SovereignClient r
                ((client_config_of pc)\<lparr>cf_consent_attesting_key_id := kw_consent_attesting_key_id kw\<rparr>)))
           \<and> (\<forall>en. consent_at_seal (client_config_of pc) en
                = Inr (resolve_consent Absent \<lparr>cc_consent_timestamp = kw_consent_timestamp kw\<rparr>))
           \<and> pc_trace_level pc \<in> range trace_level_wire_str))
    \<and> (\<forall>e. lens_client_new jb pe (Some h) kw = Inl e \<longrightarrow> (\<forall>r. lens_client_new jb (Some r) (None :: 'h option) kw = Inl e))
    \<and> (kw_trace_level kw \<notin> range trace_level_wire_str \<longrightarrow>
        (\<exists>why. \<forall>pe' (eng :: 'h option). lens_client_new jb pe' eng kw = Inl (ValueError why)))
    \<and> (\<not> kw_share_location kw \<longrightarrow>
        (\<forall>eng. lens_client_new jb pe eng (kw\<lparr>kw_user_location := loc, kw_user_timezone := tz,
              kw_user_latitude := lat, kw_user_longitude := lng\<rparr>) = lens_client_new jb pe eng kw))"
proof (intro conjI allI impI)
  fix c assume "lens_client_new jb pe (Some h) kw = Inr c"
  then show "\<exists>pc. c = CohabitationClient h pc
           \<and> (\<forall>r :: 'r. lens_client_new jb (Some r) (None :: 'h option) kw = Inr (SovereignClient r
                ((client_config_of pc)\<lparr>cf_consent_attesting_key_id := kw_consent_attesting_key_id kw\<rparr>)))
           \<and> (\<forall>en. consent_at_seal (client_config_of pc) en
                = Inr (resolve_consent Absent \<lparr>cc_consent_timestamp = kw_consent_timestamp kw\<rparr>))
           \<and> pc_trace_level pc \<in> range trace_level_wire_str"
    by (rule lens_client_new_both) (simp add: config_consent)
next
  fix e r assume "lens_client_new jb pe (Some h) kw = Inl e"
  then show "lens_client_new jb (Some r) (None :: 'h option) kw = Inl e"
    by (auto simp: lens_client_new_def rbind_eq_Inl_iff)
next
  assume "kw_trace_level kw \<notin> range trace_level_wire_str"
  then obtain why where "parse_level (jb_debug jb) (kw_trace_level kw) = Inl (ValueError why)"
    using parse_level_Inl by blast
  then show "\<exists>why. \<forall>pe' (eng :: 'h option). lens_client_new jb pe' eng kw = Inl (ValueError why)"
    by (auto simp: lens_client_new_def)
next
  fix eng assume "\<not> kw_share_location kw"
  then show "lens_client_new jb pe eng (kw\<lparr>kw_user_location := loc, kw_user_timezone := tz,
              kw_user_latitude := lat, kw_user_longitude := lng\<rparr>) = lens_client_new jb pe eng kw"
    by (cases eng; cases pe) (simp_all add: lens_client_new_def correlation_of_unshared)
qed

definition ex_kwargs :: "string \<Rightarrow> nat client_kwargs" where
  "ex_kwargs level =
     \<lparr>kw_consent_timestamp = Some ''2025-01-01T00:00:00Z'', kw_trace_level = level,
      kw_trace_schema_version = ''2.7.9'', kw_deployment_profile = None,
      kw_consent_attesting_key_id = Some ''agent-key'', kw_local_copy_dir = None,
      kw_deployment_region = Some ''eu'', kw_deployment_type = None, kw_agent_role = None,
      kw_agent_template = None, kw_share_location = False, kw_user_location = Some ''Berlin'',
      kw_user_timezone = None, kw_user_latitude = None, kw_user_longitude = None\<rparr>"

definition ex_bridge :: "nat json_bridge" where
  "ex_bridge = \<lparr>jb_dumps = (\<lambda>_. Inr ''null''), jb_from_str = (\<lambda>_. Inr JNull), jb_debug = (\<lambda>s. s)\<rparr>"

lemma lens_client_configs_agree_witness:
  "(\<exists>pc. lens_client_new ex_bridge (None :: nat option) (Some (0::nat)) (ex_kwargs ''generic'') = Inr (CohabitationClient 0 pc)
     \<and> lens_client_new ex_bridge (Some (7::nat)) (None :: nat option) (ex_kwargs ''generic'')
        = Inr (SovereignClient 7 ((client_config_of pc)\<lparr>cf_consent_attesting_key_id := Some ''agent-key''\<rparr>)))
   \<and> (\<exists>why. lens_client_new ex_bridge (Some (7::nat)) (None :: nat option) (ex_kwargs ''verbose'') = Inl (ValueError why))"
proof -
  obtain c where ok: "lens_client_new ex_bridge (None :: nat option) (Some (0::nat)) (ex_kwargs ''generic'') = Inr c"
    by (simp add: lens_client_new_def parse_level_def profile_of_def ex_kwargs_def)
  have bad: "kw_trace_level (ex_kwargs ''verbose'') \<notin> range trace_level_wire_str"
  proof
    assume "kw_trace_level (ex_kwargs ''verbose'') \<in> range trace_level_wire_str"
    then obtain lv where "''verbose'' = trace_level_wire_str lv" by (auto simp: ex_kwargs_def)
    then show False by (cases lv) simp_all
  qed
  have key: "kw_consent_attesting_key_id (ex_kwargs ''generic'') = Some ''agent-key''"
    by (simp add: ex_kwargs_def)
  show ?thesis
    using ok lens_client_configs_agree [THEN conjunct1, rule_format, OF ok, unfolded key]
      lens_client_configs_agree [where jb = ex_bridge and pe = "None :: nat option" and h = "0::nat"
        and kw = "ex_kwargs ''verbose''", THEN conjunct2, THEN conjunct2, THEN conjunct1, rule_format, OF bad]
    by auto
qed

end
