(* ===== verification/PyMethods.thy ===== *)
theory PyMethods
  imports PySurface Scrubber
begin

text \<open>
  The scrubbing entry points of the Python module and the methods of a \<open>LensClient\<close>
  (\<open>src/src/ffi/pyo3.rs\<close>). The former call the scrubber of the persistence crate, which is
  not part of the repository: the parameters \<open>scrub\<close> and \<open>scrub_all\<close>, with a value and its
  counters as result. The JSON parser and printer are fields of \<open>scrub_bridge\<close>. The client
  that was handed a host engine is \<open>capture_dict\<close> of PySurface; \<open>capture_dict_sovereign\<close> is
  the one on the engine of the process.
\<close>

section \<open>Scrubbing from Python\<close>

record scrub_bridge =
  sb_from_str :: "string \<Rightarrow> string + json"
  sb_to_string :: "json \<Rightarrow> string + string"
  sb_debug :: "string \<Rightarrow> string"

datatype stat_value = StatInt nat | StatBool bool

definition stats_to_dict :: "scrub_stats \<Rightarrow> (string \<times> stat_value) list" where
  "stats_to_dict st =
     [(''entities_redacted'', StatInt (entities_redacted st)), (''regex_redactions'', StatInt (regex_redactions st)),
      (''fields_modified'', StatInt (fields_modified st)), (''walker_max_depth'', StatInt (walker_max_depth st)),
      (''ner_ran'', StatBool (ner_ran st)), (''ner_cache_hits'', StatInt (ner_cache_hits st)),
      (''ner_cache_misses'', StatInt (ner_cache_misses st))]"

record scrubbed_dict =
  sd_trace :: string
  sd_level :: string
  sd_stats :: "(string \<times> stat_value) list"

definition scrubbed_to_dict :: "scrub_bridge \<Rightarrow> string \<Rightarrow> json \<times> scrub_stats \<Rightarrow> surface_error + scrubbed_dict" where
  "scrubbed_to_dict sb level out =
     rbind (map_err (\<lambda>e. RuntimeError (''serialize scrubbed trace: '' @ e)) (sb_to_string sb (fst out))) (\<lambda>text.
       Inr \<lparr>sd_trace = text, sd_level = level, sd_stats = stats_to_dict (snd out)\<rparr>)"

definition py_scrub_trace ::
    "scrub_bridge \<Rightarrow> (json \<Rightarrow> trace_level \<Rightarrow> string + json \<times> scrub_stats) \<Rightarrow> string \<Rightarrow> string \<Rightarrow> surface_error + scrubbed_dict" where
  "py_scrub_trace sb scrub trace_json level =
     rbind (map_err (\<lambda>e. ValueError (''invalid trace JSON: '' @ e)) (sb_from_str sb trace_json)) (\<lambda>v.
     rbind (parse_level (sb_debug sb) level) (\<lambda>lv.
     rbind (map_err (\<lambda>e. RuntimeError (''scrub failed: '' @ e)) (scrub v lv)) (\<lambda>out.
     scrubbed_to_dict sb level out)))"

text \<open>A loop that stops at the first error.\<close>

primrec try_all :: "('a \<Rightarrow> 'e + 'b) \<Rightarrow> 'a list \<Rightarrow> 'e + 'b list" where
  "try_all f [] = Inr []"
| "try_all f (x # xs) = rbind (f x) (\<lambda>y. rbind (try_all f xs) (\<lambda>ys. Inr (y # ys)))"

definition parse_traces :: "scrub_bridge \<Rightarrow> string list \<Rightarrow> surface_error + json list" where
  "parse_traces sb traces_json =
     try_all (\<lambda>(i, s). map_err (\<lambda>e. ValueError (''invalid trace JSON at index '' @ show_nat i @ '': '' @ e)) (sb_from_str sb s))
       (zip [0..<length traces_json] traces_json)"

definition py_scrub_traces_batch ::
    "scrub_bridge \<Rightarrow> (json list \<Rightarrow> trace_level \<Rightarrow> string + (json \<times> scrub_stats) list) \<Rightarrow> string list \<Rightarrow> string \<Rightarrow>
       surface_error + scrubbed_dict list" where
  "py_scrub_traces_batch sb scrub_all traces_json level =
     rbind (parse_traces sb traces_json) (\<lambda>vs.
     rbind (parse_level (sb_debug sb) level) (\<lambda>lv.
     rbind (map_err (\<lambda>e. RuntimeError (''batch scrub failed: '' @ e)) (scrub_all vs lv)) (\<lambda>out.
     try_all (scrubbed_to_dict sb level) out)))"

section \<open>Methods of a client\<close>

definition capture_dict_sovereign ::
    "'o json_bridge \<Rightarrow> (('de, 'pe) client_error \<Rightarrow> string) \<Rightarrow> bool \<Rightarrow> 'vk platform \<Rightarrow> client_config \<Rightarrow>
     ('de, 'pe) engine \<Rightarrow> (string \<Rightarrow> 'o pyval option) \<Rightarrow> client_state \<Rightarrow> client_state \<times> (surface_error + pydict)" where
  "capture_dict_sovereign jb show_error runtime pf cf en d s =
     (case dict_to_inbound_event jb d of
        Inl e \<Rightarrow> (s, Inl e)
      | Inr ev \<Rightarrow>
          if \<not> runtime then (s, Inl (RuntimeError ''persist runtime handle not available''))
          else (case capture_event pf cf en ev s of
              (s', Inl e) \<Rightarrow> (s', Inl (RuntimeError (''capture_event: '' @ show_error e)))
            | (s', Inr outcome) \<Rightarrow> (s', Inr (outcome_to_dict outcome))))"

datatype lens_state = SovereignState client_state | CohabitationState py_state

fun lens_orphan_sweep ::
    "(string \<Rightarrow> instant option) \<Rightarrow> bool \<Rightarrow> instant \<Rightarrow> u64 \<Rightarrow> lens_state \<Rightarrow> (surface_error + nat) \<times> lens_state" where
  "lens_orphan_sweep rfc3339 runtime now max_age (SovereignState s) =
     (if \<not> runtime then (Inl (RuntimeError ''persist runtime handle not available''), SovereignState s)
      else (case client_orphan_sweep rfc3339 now max_age s of (s', n) \<Rightarrow> (Inr n, SovereignState s')))"
| "lens_orphan_sweep rfc3339 runtime now max_age (CohabitationState s) =
     (case py_orphan_sweep rfc3339 now max_age s of (s', n) \<Rightarrow> (Inr n, CohabitationState s'))"

section \<open>Facts\<close>

lemma try_all_Inr: "try_all f xs = Inr ys \<longleftrightarrow> list_all2 (\<lambda>x y. f x = Inr y) xs ys"
  by (induction xs arbitrary: ys) (auto simp: rbind_eq_Inr_iff list_all2_Cons1)

text \<open>The error is that of the first item that fails.\<close>

lemma try_all_Inl:
  "try_all f xs = Inl e \<longleftrightarrow> (\<exists>i < length xs. f (xs ! i) = Inl e \<and> (\<forall>j < i. \<exists>y. f (xs ! j) = Inr y))"
proof (induction xs)
  case (Cons x xs)
  show ?case
    by (cases "f x") (auto simp: rbind_eq_Inl_iff Cons.IH Ex_less_Suc2 All_less_Suc2)
qed simp

lemma parse_traces_Inr: "parse_traces sb ts = Inr vs \<longleftrightarrow> list_all2 (\<lambda>s v. sb_from_str sb s = Inr v) ts vs"
  by (auto simp: parse_traces_def try_all_Inr list_all2_conv_all_nth)

lemma lens_sweeps_agree:
  assumes "lens_orphan_sweep rfc3339 True now age (SovereignState (client_state_of s)) = (r, SovereignState c)"
    and "lens_orphan_sweep rfc3339 runtime now age (CohabitationState s) = (r', CohabitationState s')"
  shows "r = r'" "c = client_state_of s'"
  using assms by (auto simp: client_orphan_sweep_def py_orphan_sweep_def client_state_of_def split: prod.splits)

text \<open>One dict, on both clients.\<close>

definition same_dict :: "surface_error + pydict \<Rightarrow> surface_error + 'x py_error + pydict \<Rightarrow> bool" where
  "same_dict r q \<longleftrightarrow> (\<forall>d. r = Inr d \<longleftrightarrow> q = Inr (Inr d))"

lemma dicts_agree:
  assumes "same_host en pn"
    and "capture_dict_sovereign jb show_error True pf (client_config_of pc) en d (client_state_of s) = (c, r)"
    and "capture_dict jb pf pc pn d s = (s', q)"
  shows "c = client_state_of s' \<and> same_dict r q"
proof (cases "dict_to_inbound_event jb d")
  case (Inl e)
  with assms(2,3) show ?thesis by (auto simp: capture_dict_sovereign_def capture_dict_def same_dict_def)
next
  case (Inr ev)
  with assms(2,3) events_agree [OF assms(1), of pf pc ev s] show ?thesis
    by (auto simp: capture_dict_sovereign_def capture_dict_def same_dict_def result_agrees_def
        split: prod.splits sum.splits)
qed

text \<open>Two machines that agree step by step agree on every run.\<close>

lemma run_agrees:
  assumes step: "\<And>i s c r s' q. cstep i (aview s) = (c, r) \<Longrightarrow> astep i s = (s', q) \<Longrightarrow> c = aview s' \<and> rel r q"
  shows "run cstep is (aview s) = (c, rs) \<Longrightarrow> run astep is s = (s', qs) \<Longrightarrow> c = aview s' \<and> list_all2 rel rs qs"
proof (induction "is" arbitrary: s c rs s' qs)
  case (Cons i "is")
  obtain c1 r where c: "cstep i (aview s) = (c1, r)" by fastforce
  obtain s1 q where a: "astep i s = (s1, q)" by fastforce
  note one = step [OF c a]
  show ?case
    using Cons.prems one Cons.IH [of s1] by (auto simp: c a split: prod.splits)
qed simp

section \<open>Properties\<close>

text \<open>
  C12: one client, two wheels. Take one set of keyword arguments without an attesting key.
  If the constructor accepts them for a host engine, it accepts them for an engine of the
  process, and on the same host the two clients answer any stream of event dicts, malformed
  ones included, with the same dicts, fail on the same inputs, and hold the same traces,
  tee files and persisted batches at the end. Arguments that one constructor refuses are
  refused by the other with the same error, whatever the key.
\<close>

theorem python_clients_agree:
  fixes kw :: "'o client_kwargs" and h :: 'h and pe :: "'r option" and e :: 'r
  assumes host: "same_host en pn" and key: "kw_consent_attesting_key_id kw = None"
  shows "(\<forall>cl. lens_client_new jb pe (Some h) kw = Inr cl \<longrightarrow>
      (\<exists>pc cf. cl = CohabitationClient h pc \<and> lens_client_new jb (Some e) (None :: 'h option) kw = Inr (SovereignClient e cf)
         \<and> (\<forall>dicts c rs s qs. run (capture_dict_sovereign jb show_error True pf cf en) dicts client_new = (c, rs) \<longrightarrow>
              run (capture_dict jb pf pc pn) dicts py_new = (s, qs) \<longrightarrow>
              c = client_state_of s \<and> list_all2 same_dict rs qs)))
    \<and> (\<forall>err. lens_client_new jb pe (Some h) kw = Inl err \<longrightarrow> lens_client_new jb (Some e) (None :: 'h option) kw = Inl err)"
proof (intro conjI allI impI)
  fix err assume "lens_client_new jb pe (Some h) kw = Inl err"
  then show "lens_client_new jb (Some e) (None :: 'h option) kw = Inl err"
    by (auto simp: lens_client_new_def rbind_eq_Inl_iff)
next
  fix cl assume new_host: "lens_client_new jb pe (Some h) kw = Inr cl"
  obtain pc where cl: "cl = CohabitationClient h pc"
    and both: "\<And>r :: 'r. lens_client_new jb (Some r) (None :: 'h option) kw = Inr (SovereignClient r
        ((client_config_of pc)\<lparr>cf_consent_attesting_key_id := kw_consent_attesting_key_id kw\<rparr>))"
    by (rule lens_client_new_both [OF new_host]) (rule that)
  have "(client_config_of pc)\<lparr>cf_consent_attesting_key_id := kw_consent_attesting_key_id kw\<rparr> = client_config_of pc"
    by (simp add: client_config_of_def key)
  with both have sov: "lens_client_new jb (Some e) (None :: 'h option) kw = Inr (SovereignClient e (client_config_of pc))"
    by simp
  have new: "client_new = client_state_of py_new"
    by (simp add: client_new_def py_new_def client_state_of_def)
  have "c = client_state_of s \<and> list_all2 same_dict rs qs"
    if "run (capture_dict_sovereign jb show_error True pf (client_config_of pc) en) dicts client_new = (c, rs)"
      "run (capture_dict jb pf pc pn) dicts py_new = (s, qs)" for dicts c rs s qs
    by (rule run_agrees [where aview = client_state_of and rel = same_dict, OF _ that(1) [unfolded new] that(2)])
      (rule dicts_agree [OF host])
  with cl sov show "\<exists>pc cf. cl = CohabitationClient h pc \<and> lens_client_new jb (Some e) (None :: 'h option) kw = Inr (SovereignClient e cf)
         \<and> (\<forall>dicts c rs s qs. run (capture_dict_sovereign jb show_error True pf cf en) dicts client_new = (c, rs) \<longrightarrow>
              run (capture_dict jb pf pc pn) dicts py_new = (s, qs) \<longrightarrow>
              c = client_state_of s \<and> list_all2 same_dict rs qs)"
    by blast
qed

definition ex_dict :: "string \<Rightarrow> string \<Rightarrow> nat pyval option" where
  "ex_dict e = map_of [(''event_type'', PyStr e), (''thought_id'', PyStr ''a''), (''timestamp'', PyStr ''1''),
     (''agent_id_hash'', PyStr ''agent'')]"

definition ex_sovereign_kwargs :: "nat client_kwargs" where
  "ex_sovereign_kwargs = (ex_kwargs ''generic'')\<lparr>kw_consent_attesting_key_id := None\<rparr>"

lemma python_clients_agree_witness:
  "\<exists>pc cf c rs s qs. lens_client_new ex_bridge (None :: nat option) (Some (0::nat)) ex_sovereign_kwargs = Inr (CohabitationClient 0 pc)
     \<and> lens_client_new ex_bridge (Some (7::nat)) (None :: nat option) ex_sovereign_kwargs = Inr (SovereignClient 7 cf)
     \<and> run (capture_dict_sovereign ex_bridge (\<lambda>_. []) True demo_platform cf (demo_engine []))
          [ex_dict ''LLM_CALL'', Map.empty, ex_dict ''ACTION_RESULT''] client_new = (c, rs)
     \<and> run (capture_dict ex_bridge demo_platform pc demo_py_engine)
          [ex_dict ''LLM_CALL'', Map.empty, ex_dict ''ACTION_RESULT''] py_new = (s, qs)
     \<and> c = client_state_of s \<and> list_all2 same_dict rs qs"
proof -
  have key: "kw_consent_attesting_key_id ex_sovereign_kwargs = None"
    by (simp add: ex_sovereign_kwargs_def)
  obtain cl where new: "lens_client_new ex_bridge (None :: nat option) (Some (0::nat)) ex_sovereign_kwargs = Inr cl"
    by (simp add: lens_client_new_def parse_level_def profile_of_def ex_kwargs_def ex_sovereign_kwargs_def)
  note both = python_clients_agree [where jb = ex_bridge and pe = "None :: nat option" and h = "0 :: nat" and e = "7 :: nat"
      and pf = demo_platform and show_error = "\<lambda>_. []", OF demo_same_host key, THEN conjunct1, rule_format, OF new]
  obtain pc cf where c: "lens_client_new ex_bridge (None :: nat option) (Some (0::nat)) ex_sovereign_kwargs = Inr (CohabitationClient 0 pc)"
     "lens_client_new ex_bridge (Some (7::nat)) (None :: nat option) ex_sovereign_kwargs = Inr (SovereignClient 7 cf)"
    and r: "\<forall>dicts c rs s qs. run (capture_dict_sovereign ex_bridge (\<lambda>_. []) True demo_platform cf (demo_engine [])) dicts client_new = (c, rs) \<longrightarrow>
              run (capture_dict ex_bridge demo_platform pc demo_py_engine) dicts py_new = (s, qs) \<longrightarrow>
              c = client_state_of s \<and> list_all2 same_dict rs qs"
    using both new by auto
  let ?d = "[ex_dict ''LLM_CALL'', Map.empty, ex_dict ''ACTION_RESULT'']"
  obtain c1 rs where 1: "run (capture_dict_sovereign ex_bridge (\<lambda>_. []) True demo_platform cf (demo_engine [])) ?d client_new = (c1, rs)"
    by fastforce
  obtain s qs where 2: "run (capture_dict ex_bridge demo_platform pc demo_py_engine) ?d py_new = (s, qs)"
    by fastforce
  from r 1 2 have "c1 = client_state_of s \<and> list_all2 same_dict rs qs" by blast
  with c 1 2 show ?thesis by blast
qed

end
