(* ===== verification/Recognizer.thy ===== *)
theory Recognizer
  imports ScrubWalk
begin

text \<open>
  How the recognizer comes about and what it does with a mini-batch: the model loaders
  (\<open>scrubber/xlm_r_loader.rs\<close>, \<open>distilbert_loader.rs\<close>, \<open>ort_loader.rs\<close>) and the two backends
  of \<open>scrubber/ner.rs\<close> that pad the encoded chunks to one tensor, run the network and read the
  labels. Files, tensor libraries, the tokenizer and the network are parameters; the
  environment variables are a map.
\<close>

section \<open>Label sets\<close>

record hf_config =
  hf_id2label :: json
  hf_num_labels :: "nat option"

text \<open>\<open>str::parse::<usize>\<close>.\<close>

definition parse_usize :: "string \<Rightarrow> nat option" where
  "parse_usize s =
     (let ds = (if s \<noteq> [] \<and> hd s = CHR ''+'' then tl s else s)
      in if ds \<noteq> [] \<and> list_all is_digit ds \<and> read_nat ds < 2 ^ 64 then Some (read_nat ds) else None)"

definition label_items :: "fields \<Rightarrow> (nat \<times> string) list" where
  "label_items fs = List.map_filter (\<lambda>(k, v). case (parse_usize k, v) of
     (Some i, JStr l) \<Rightarrow> Some (i, l) | _ \<Rightarrow> None) fs"

definition parse_labels :: "nat \<Rightarrow> string list \<Rightarrow> hf_config \<Rightarrow> string + string list" where
  "parse_labels n standard cfg =
     (let labels = (case hf_id2label cfg of JObj fs \<Rightarrow> map snd (sort_key fst (label_items fs)) | _ \<Rightarrow> [])
      in if labels \<noteq> [] then Inr labels
         else if hf_num_labels cfg = Some n \<or> hf_num_labels cfg = None then Inr standard
         else Inl (''config.json missing id2label and num_labels != '' @ show_nat n @ ''; cannot infer label set''))"

definition wikiann_labels :: "string list" where
  "wikiann_labels = [''O'', ''B-PER'', ''I-PER'', ''B-ORG'', ''I-ORG'', ''B-LOC'', ''I-LOC'']"

definition hrl_labels :: "string list" where
  "hrl_labels = [''O'', ''B-DATE'', ''I-DATE'', ''B-PER'', ''I-PER'', ''B-ORG'', ''I-ORG'', ''B-LOC'', ''I-LOC'']"

definition xlmr_parse_labels :: "hf_config \<Rightarrow> string + string list" where
  "xlmr_parse_labels = parse_labels 7 wikiann_labels"

definition distil_parse_labels :: "hf_config \<Rightarrow> string + string list" where
  "distil_parse_labels = parse_labels 9 hrl_labels"

definition ort_parse_labels :: "hf_config \<Rightarrow> string + string list" where
  "ort_parse_labels = parse_labels 7 wikiann_labels"

section \<open>Loading\<close>

type_synonym environment = "string \<Rightarrow> string option"

datatype model_source = LocalDir string | HfHub string

definition source_from_env :: "string \<Rightarrow> environment \<Rightarrow> model_source" where
  "source_from_env standard env =
     (case env ''CIRISLENS_NER_MODEL_DIR'' of
        Some dir \<Rightarrow> LocalDir dir
      | None \<Rightarrow> HfHub (case env ''CIRISLENS_NER_MODEL_ID'' of Some i \<Rightarrow> i | None \<Rightarrow> standard))"

definition xlmr_source :: "environment \<Rightarrow> model_source" where
  "xlmr_source = source_from_env ''Davlan/xlm-roberta-base-wikiann-ner''"

definition distil_source :: "environment \<Rightarrow> model_source" where
  "distil_source = source_from_env ''Davlan/distilbert-base-multilingual-cased-ner-hrl''"

datatype ort_source = OrtLocalDir string

definition ort_source_from_env :: "environment \<Rightarrow> string + ort_source" where
  "ort_source_from_env env =
     (case env ''CIRISLENS_NER_ORT_DIR'' of
        None \<Rightarrow> Inl ''CIRISLENS_NER_ORT_DIR not set''
      | Some dir \<Rightarrow> Inr (OrtLocalDir dir))"

text \<open>
  The world a loader sees. \<open>me_structure\<close> reads the structural part of the configuration
  and \<open>me_network\<close> builds the network from the model file for so many labels;
  \<open>me_truncation\<close> is \<open>Tokenizer::with_truncation\<close>, longest sequence first, from the right.
\<close>

record ('c, 'm, 'k) model_env =
  me_join :: "string \<Rightarrow> string \<Rightarrow> string"
  me_hub :: "string + unit"
  me_fetch :: "string \<Rightarrow> string \<Rightarrow> string + string"
  me_read :: "string \<Rightarrow> string + string"
  me_structure :: "string \<Rightarrow> string + 'c"
  me_metadata :: "string \<Rightarrow> string + hf_config"
  me_network :: "string \<Rightarrow> 'c \<Rightarrow> nat \<Rightarrow> string + 'm"
  me_tokenizer :: "string \<Rightarrow> string + 'k"
  me_truncation :: "nat \<Rightarrow> 'k \<Rightarrow> string + 'k"

record ('m, 'k) recognizer =
  rz_network :: 'm
  rz_labels :: "string list"
  rz_tokenizer :: 'k

definition in_context :: "string \<Rightarrow> string + 'a \<Rightarrow> string + 'a" where
  "in_context what = map_err (\<lambda>e. what @ '': '' @ e)"

definition truncation_limit :: nat where
  "truncation_limit = 512"

definition from_files ::
    "(hf_config \<Rightarrow> string + string list) \<Rightarrow> ('c, 'm, 'k) model_env \<Rightarrow> string \<Rightarrow> string \<Rightarrow> string \<Rightarrow> string + ('m, 'k) recognizer" where
  "from_files labels_of me model_path tokenizer_path config_path =
     rbind (in_context (''read '' @ config_path) (me_read me config_path)) (\<lambda>text.
     rbind (me_structure me text) (\<lambda>structure.
     rbind (in_context ''parse HF metadata from config.json'' (me_metadata me text)) (\<lambda>cfg.
     rbind (labels_of cfg) (\<lambda>labels.
     rbind (me_network me model_path structure (length labels)) (\<lambda>network.
     rbind (in_context ''Tokenizer::from_file'' (me_tokenizer me tokenizer_path)) (\<lambda>tokenizer.
     rbind (in_context ''set truncation'' (me_truncation me truncation_limit tokenizer)) (\<lambda>tokenizer'.
     Inr \<lparr>rz_network = network, rz_labels = labels, rz_tokenizer = tokenizer'\<rparr>)))))))"

definition from_dir ::
    "(hf_config \<Rightarrow> string + string list) \<Rightarrow> string \<Rightarrow> ('c, 'm, 'k) model_env \<Rightarrow> string \<Rightarrow> string + ('m, 'k) recognizer" where
  "from_dir labels_of file me dir =
     from_files labels_of me (me_join me dir file) (me_join me dir ''tokenizer.json'') (me_join me dir ''config.json'')"

definition from_hf_hub ::
    "(hf_config \<Rightarrow> string + string list) \<Rightarrow> ('c, 'm, 'k) model_env \<Rightarrow> string \<Rightarrow> string + ('m, 'k) recognizer" where
  "from_hf_hub labels_of me i =
     (let fetch = (\<lambda>file. in_context (''fetch '' @ file @ '' from '' @ i) (me_fetch me i file))
      in rbind (in_context ''hf-hub Api::new'' (me_hub me)) (\<lambda>_.
         rbind (fetch ''model.safetensors'') (\<lambda>model_path.
         rbind (fetch ''tokenizer.json'') (\<lambda>tokenizer_path.
         rbind (fetch ''config.json'') (\<lambda>config_path.
         from_files labels_of me model_path tokenizer_path config_path)))))"

definition load_source ::
    "(hf_config \<Rightarrow> string + string list) \<Rightarrow> ('c, 'm, 'k) model_env \<Rightarrow> model_source \<Rightarrow> string + ('m, 'k) recognizer" where
  "load_source labels_of me src =
     (case src of LocalDir dir \<Rightarrow> from_dir labels_of ''model.safetensors'' me dir | HfHub i \<Rightarrow> from_hf_hub labels_of me i)"

text \<open>The threads of one ONNX operation; \<open>cpus\<close> is what the platform reports, if anything.\<close>

definition num_cpus_or_default :: "nat option \<Rightarrow> nat" where
  "num_cpus_or_default cpus = (case cpus of None \<Rightarrow> 4 | Some n \<Rightarrow> n)"

definition intra_threads :: "environment \<Rightarrow> nat option \<Rightarrow> nat" where
  "intra_threads env cpus =
     (case Option.bind (env ''CIRISLENS_NER_ORT_INTRA_THREADS'') parse_usize of
        Some n \<Rightarrow> n
      | None \<Rightarrow> min (num_cpus_or_default cpus) 8)"

text \<open>
  The two other loaders differ in the label set. The one for ONNX has its own model file and
  source, too, and reads no structural part: its session is built for a number of threads.
\<close>

definition xlmr_load :: "('c, 'm, 'k) model_env \<Rightarrow> model_source \<Rightarrow> string + ('m, 'k) recognizer" where
  "xlmr_load = load_source xlmr_parse_labels"

definition distil_load :: "('c, 'm, 'k) model_env \<Rightarrow> model_source \<Rightarrow> string + ('m, 'k) recognizer" where
  "distil_load = load_source distil_parse_labels"

definition ort_load :: "(nat, 'm, 'k) model_env \<Rightarrow> nat \<Rightarrow> ort_source \<Rightarrow> string + ('m, 'k) recognizer" where
  "ort_load me threads src =
     (case src of OrtLocalDir dir \<Rightarrow> from_dir ort_parse_labels ''model.onnx'' (me\<lparr>me_structure := (\<lambda>_. Inr threads)\<rparr>) dir)"

section \<open>Choosing a backend\<close>

text \<open>\<open>str::trim\<close>: white space is what \<^const>\<open>blank\<close> accepts.\<close>

function trim_start :: "string \<Rightarrow> string" where
  "trim_start s =
     (if s \<noteq> [] \<and> blank (take 1 s) then trim_start (drop 1 s)
      else if 2 \<le> length s \<and> blank (take 2 s) then trim_start (drop 2 s)
      else if 3 \<le> length s \<and> blank (take 3 s) then trim_start (drop 3 s)
      else s)"
  by pat_completeness auto

termination by (relation "measure length") auto

fun trim_end :: "string \<Rightarrow> string" where
  "trim_end [] = []"
| "trim_end (a # r) = (if blank (a # r) then [] else a # trim_end r)"

definition backbone_variable :: "environment \<Rightarrow> string option" where
  "backbone_variable env = map_option (\<lambda>s. ascii_lower (trim_end (trim_start s))) (env ''CIRISLENS_NER_BACKBONE'')"

datatype backbone = XlmR | DistilBert

definition pick_backbone :: "environment \<Rightarrow> backbone" where
  "pick_backbone env = (if backbone_variable env = Some ''distilbert'' then DistilBert else XlmR)"

datatype backend_choice = Candle | Ort

text \<open>\<open>ort_built\<close>: the crate is built with the feature \<open>ner-ort\<close>.\<close>

definition backend_choice :: "bool \<Rightarrow> environment \<Rightarrow> backend_choice" where
  "backend_choice ort_built env =
     (if ort_built \<and> backbone_variable env \<in> {Some ''ort'', Some ''ort-int8'', Some ''onnx''} then Ort else Candle)"

definition candle_init ::
    "('c, 'm, 'k) model_env \<Rightarrow> ('d, 'm, 'k) model_env \<Rightarrow> environment \<Rightarrow> ('m, 'k) recognizer option" where
  "candle_init xlmr distil env =
     (case (case pick_backbone env of
              XlmR \<Rightarrow> xlmr_load xlmr (xlmr_source env)
            | DistilBert \<Rightarrow> distil_load distil (distil_source env)) of
        Inl e \<Rightarrow> None
      | Inr r \<Rightarrow> Some r)"

definition ort_init :: "(nat, 'm, 'k) model_env \<Rightarrow> nat option \<Rightarrow> environment \<Rightarrow> ('m, 'k) recognizer option" where
  "ort_init me cpus env =
     (case rbind (ort_source_from_env env) (ort_load me (intra_threads env cpus)) of
        Inl e \<Rightarrow> None
      | Inr r \<Rightarrow> Some r)"

text \<open>\<open>ner_built\<close>: the crate is built with the feature \<open>ner\<close>.\<close>

definition is_configured :: "bool \<Rightarrow> bool \<Rightarrow> environment \<Rightarrow> 'b option \<Rightarrow> 'b option \<Rightarrow> bool" where
  "is_configured ner_built ort_built env candle ort =
     (ner_built \<and> (case backend_choice ort_built env of Ort \<Rightarrow> ort \<noteq> None | Candle \<Rightarrow> candle \<noteq> None))"

section \<open>A mini-batch as one tensor\<close>

record encoding =
  ec_ids :: "nat list"
  ec_mask :: "nat list"
  ec_offsets :: "(nat \<times> nat) list"

definition pad_id :: "(string \<Rightarrow> nat option) \<Rightarrow> nat" where
  "pad_id token_to_id =
     (case token_to_id ''<pad>'' of
        Some i \<Rightarrow> i
      | None \<Rightarrow> (case token_to_id ''[PAD]'' of Some i \<Rightarrow> i | None \<Rightarrow> 1))"

definition max_len :: "encoding list \<Rightarrow> nat" where
  "max_len encs = foldr max (map (length \<circ> ec_ids) encs) 0"

text \<open>The rows of the two tensors; the fill of a row counts the ids of its encoding.\<close>

definition ids_row :: "nat \<Rightarrow> nat \<Rightarrow> encoding \<Rightarrow> nat list" where
  "ids_row pad n enc = ec_ids enc @ replicate (n - length (ec_ids enc)) pad"

definition mask_row :: "nat \<Rightarrow> encoding \<Rightarrow> nat list" where
  "mask_row n enc = ec_mask enc @ replicate (n - length (ec_ids enc)) 0"

text \<open>\<open>Tensor::from_vec\<close> of a flat vector with a shape of two dimensions.\<close>

definition tensor_of :: "nat \<Rightarrow> nat \<Rightarrow> nat list \<Rightarrow> string + nat list list" where
  "tensor_of rows n flat =
     (if length flat = rows * n then Inr (map (\<lambda>i. take n (drop (i * n) flat)) [0..<rows]) else Inl ''shape mismatch'')"

text \<open>\<open>predict\<close>: the forward pass and the arg max over the labels, done by the tensor library.\<close>

type_synonym predictor = "nat list list \<Rightarrow> nat list list \<Rightarrow> string + nat list list"

definition candle_infer ::
    "(string list \<Rightarrow> string + encoding list) \<Rightarrow> (string \<Rightarrow> nat option) \<Rightarrow> predictor \<Rightarrow> inference" where
  "candle_infer encode_batch token_to_id predict cs =
     rbind (in_context ''encode_batch'' (encode_batch cs)) (\<lambda>encs.
       let n = max_len encs; pad = pad_id token_to_id
       in if n = 0 then Inr (map (\<lambda>_. ([], [])) cs)
          else rbind (in_context ''ids tensor'' (tensor_of (length encs) n (concat (map (ids_row pad n) encs)))) (\<lambda>ids.
               rbind (in_context ''mask tensor'' (tensor_of (length encs) n (concat (map (mask_row n) encs)))) (\<lambda>attend.
               rbind (predict ids attend) (\<lambda>label_ids. Inr (zip label_ids (map ec_offsets encs))))))"

text \<open>DistilBERT attends where its mask is 0; the reshape adds two dimensions of size one.\<close>

definition distil_forward :: "(nat list list \<Rightarrow> int list list list list \<Rightarrow> string + 'h) \<Rightarrow> nat list list \<Rightarrow> nat list list \<Rightarrow> string + 'h" where
  "distil_forward backbone ids attend = backbone ids (map (\<lambda>row. [[map (\<lambda>m. 1 - int m) row]]) attend)"

definition xlmr_forward :: "(nat list list \<Rightarrow> nat list list \<Rightarrow> nat list list \<Rightarrow> string + 'h) \<Rightarrow> nat list list \<Rightarrow> nat list list \<Rightarrow> string + 'h" where
  "xlmr_forward backbone ids attend = backbone ids attend (map (map (\<lambda>_. 0)) ids)"

section \<open>The ONNX backend\<close>

text \<open>The session answers with a shape and the flat logits.\<close>

type_synonym session = "nat list list \<Rightarrow> nat list list \<Rightarrow> string + nat list \<times> f64 list"

definition ort_forward ::
    "session \<Rightarrow> string list \<Rightarrow> nat \<Rightarrow> nat list list \<Rightarrow> nat list list \<Rightarrow> string + f64 list \<times> nat \<times> nat \<times> nat" where
  "ort_forward run labels n ids attend =
     rbind (run ids attend) (\<lambda>(shape, logits).
       if shape = [] then Inl ''logits has no dims''
       else if last shape \<noteq> length labels
       then Inl (''logits last dim '' @ show_nat (last shape) @ '' != num_labels '' @ show_nat (length labels))
       else Inr (logits, length ids, n, length labels))"

text \<open>The first label above all before it, starting from label 0 at minus infinity.\<close>

definition arg_max :: "f64 list \<Rightarrow> nat" where
  "arg_max vs = fst (fold (\<lambda>(k, v) (best, best_v). if flt best_v v then (k, v) else (best, best_v))
     (enumerate 0 vs) (0, Inf True))"

definition logits_at :: "f64 list \<Rightarrow> nat \<Rightarrow> nat \<Rightarrow> f64 list scrub" where
  "logits_at flat base k =
     sc_map (\<lambda>m. if base + m < length flat then Done (flat ! (base + m)) else Panic) [0..<k]"

definition label_rows :: "f64 list \<Rightarrow> nat \<Rightarrow> nat \<Rightarrow> nat \<Rightarrow> nat list list scrub" where
  "label_rows flat rows n k =
     sc_map (\<lambda>b. sc_map (\<lambda>s. sc_bind (logits_at flat ((b * n + s) * k) k) (\<lambda>vs. Done (arg_max vs))) [0..<n]) [0..<rows]"

text \<open>The mask is filled position by position.\<close>

definition ort_mask_row :: "nat \<Rightarrow> encoding \<Rightarrow> nat list scrub" where
  "ort_mask_row n enc =
     sc_map (\<lambda>j. if j < length (ec_ids enc)
                then (if j < length (ec_mask enc) then Done (ec_mask enc ! j) else Panic)
                else Done 0) [0..<n]"

definition ort_run_batch ::
    "(string list \<Rightarrow> string + encoding list) \<Rightarrow> (string \<Rightarrow> nat option) \<Rightarrow> session \<Rightarrow> string list \<Rightarrow>
       chunk list \<Rightarrow> span list list \<Rightarrow> span list list scrub" where
  "ort_run_batch encode_batch token_to_id run labels batch per =
     (if batch = [] then Done per
      else (case in_context ''encode_batch'' (encode_batch (map (\<lambda>(_, _, c). c) batch)) of
              Inl e \<Rightarrow> Rejected (NerFailed e)
            | Inr encs \<Rightarrow>
                (let n = max_len encs; pad = pad_id token_to_id
                 in if n = 0 then Done per
                    else sc_bind (sc_map (ort_mask_row n) encs) (\<lambda>attend.
                      case in_context ''ort forward'' (ort_forward run labels n (map (ids_row pad n) encs) attend) of
                        Inl e \<Rightarrow> Rejected (NerFailed e)
                      | Inr (flat, rows, seq, k) \<Rightarrow>
                          sc_bind (label_rows flat rows seq k) (\<lambda>label_ids.
                            if length label_ids < length batch \<or> length encs < length batch then Panic
                            else Done (fold (\<lambda>((i, off, _), (ids, offs)). push_spans i (shift off (collapse_bio ids offs labels)))
                                   (zip batch (zip label_ids (map ec_offsets encs))) per))))))"

definition ort_scrub_batch ::
    "tokenizer \<Rightarrow> (string list \<Rightarrow> string + encoding list) \<Rightarrow> (string \<Rightarrow> nat option) \<Rightarrow> session \<Rightarrow> string list \<Rightarrow> ner_backend" where
  "ort_scrub_batch tokenize encode_batch token_to_id run labels texts st =
     (if texts = [] then (Done [], st)
      else (case sc_bind (flat_chunks tokenize texts) (\<lambda>flat.
                   sc_fold (ort_run_batch encode_batch token_to_id run labels)
                     (groups_of max_batch_chunks (sort_key chunk_length flat)) (replicate (length texts) [])) of
              Done per \<Rightarrow> replace_all (zip texts per) st
            | Rejected e \<Rightarrow> (Rejected e, st)
            | Panic \<Rightarrow> (Panic, st)))"

section \<open>Padding\<close>

text \<open>
  What the tokenizer and the network are relied on for: chunks of a batch are encoded one by
  one, cut at the limit, with one offset and a mask of 1 per id; and up to that length the
  network answers, and the labels at attended positions depend on the attended ids of their
  own row alone, not on the fill nor on the other rows.
\<close>

definition encodes :: "(string list \<Rightarrow> string + encoding list) \<Rightarrow> (string \<Rightarrow> encoding) \<Rightarrow> bool" where
  "encodes encode_batch enc \<longleftrightarrow>
     (\<forall>cs. encode_batch cs = Inr (map enc cs))
     \<and> (\<forall>c. length (ec_ids (enc c)) \<le> truncation_limit
          \<and> length (ec_offsets (enc c)) = length (ec_ids (enc c))
          \<and> ec_mask (enc c) = replicate (length (ec_ids (enc c))) 1)"

definition filled :: "nat \<Rightarrow> nat \<Rightarrow> nat list \<Rightarrow> nat list" where
  "filled n x xs = xs @ replicate (n - length xs) x"

definition attends :: "predictor \<Rightarrow> (nat list \<Rightarrow> nat list) \<Rightarrow> bool" where
  "attends predict net \<longleftrightarrow>
     net [] = [] \<and>
     (\<forall>pad n rows. rows \<noteq> [] \<and> 0 < n \<and> n \<le> truncation_limit \<and> (\<forall>ids \<in> set rows. length ids \<le> n) \<longrightarrow>
        (\<exists>out. predict (map (filled n pad) rows) (map (\<lambda>ids. filled n 0 (replicate (length ids) 1)) rows) = Inr out
           \<and> map2 (\<lambda>ids r. take (length ids) r) rows out = map net rows \<and> length out = length rows))"

definition labels_of_chunk :: "(string \<Rightarrow> encoding) \<Rightarrow> (nat list \<Rightarrow> nat list) \<Rightarrow> labelling" where
  "labels_of_chunk enc net c = (net (ec_ids (enc c)), ec_offsets (enc c))"

lemma max_len_ge: "enc \<in> set encs \<Longrightarrow> length (ec_ids enc) \<le> max_len encs"
  by (induction encs) (auto simp: max_len_def)

lemma max_len_le: "\<forall>enc \<in> set encs. length (ec_ids enc) \<le> n \<Longrightarrow> max_len encs \<le> n"
  by (induction encs) (auto simp: max_len_def)

lemma max_len_0: "max_len encs = 0 \<longleftrightarrow> (\<forall>enc \<in> set encs. ec_ids enc = [])"
  by (induction encs) (auto simp: max_len_def)

lemma tensor_of_rows:
  assumes "\<forall>r \<in> set rows. length r = n"
  shows "tensor_of (length rows) n (concat rows) = Inr rows"
proof -
  have len: "length (concat rows) = length rows * n" using assms by (induction rows) simp_all
  have "take n (drop (i * n) (concat rows)) = rows ! i" if "i < length rows" for i
    using assms that
  proof (induction rows arbitrary: i)
    case (Cons r rows)
    then show ?case by (cases i) simp_all
  qed simp
  then have "map (\<lambda>i. take n (drop (i * n) (concat rows))) [0..<length rows] = rows"
    by (intro nth_equalityI) simp_all
  with len show ?thesis by (simp add: tensor_of_def)
qed

lemma ids_row_filled: "ids_row pad n enc = filled n pad (ec_ids enc)"
  by (simp add: ids_row_def filled_def)

lemma mask_row_filled:
  "encodes encode_batch enc \<Longrightarrow> mask_row n (enc c) = filled n 0 (replicate (length (ec_ids (enc c))) 1)"
  by (simp add: mask_row_def filled_def encodes_def)

lemma length_filled: "length xs \<le> n \<Longrightarrow> length (filled n x xs) = n"
  by (simp add: filled_def)

text \<open>The batch of a backend whose network is asked about the rows as they are.\<close>

definition padded_labels :: "(string \<Rightarrow> encoding) \<Rightarrow> nat \<Rightarrow> predictor \<Rightarrow> string list \<Rightarrow> string + nat list list" where
  "padded_labels enc pad predict cs =
     (let n = max_len (map enc cs); rows = map (ec_ids \<circ> enc) cs
      in predict (map (filled n pad) rows) (map (\<lambda>ids. filled n 0 (replicate (length ids) 1)) rows))"

lemma candle_infer_padded:
  assumes "encodes encode_batch enc"
  shows "candle_infer encode_batch token_to_id predict cs =
     (if max_len (map enc cs) = 0 then Inr (map (\<lambda>_. ([], [])) cs)
      else rbind (padded_labels enc (pad_id token_to_id) predict cs)
        (\<lambda>label_ids. Inr (zip label_ids (map (ec_offsets \<circ> enc) cs))))"
proof -
  let ?encs = "map enc cs"
  let ?n = "max_len ?encs"
  let ?ids = "map (ids_row (pad_id token_to_id) ?n) ?encs" and ?mask = "map (mask_row ?n) ?encs"
  have enc: "encode_batch cs = Inr ?encs" using assms by (simp add: encodes_def)
  have m: "?mask = map (\<lambda>ids. filled ?n 0 (replicate (length ids) 1)) (map (ec_ids \<circ> enc) cs)"
    using mask_row_filled [OF assms] by simp
  have i: "?ids = map (filled ?n (pad_id token_to_id)) (map (ec_ids \<circ> enc) cs)"
    by (simp add: ids_row_filled)
  have le: "length (ec_ids (enc c)) \<le> ?n" if "c \<in> set cs" for c
    using max_len_ge [of "enc c" ?encs] that by simp
  have "tensor_of (length ?encs) ?n (concat ?ids) = Inr ?ids" "tensor_of (length ?encs) ?n (concat ?mask) = Inr ?mask"
    using tensor_of_rows [of ?ids ?n] tensor_of_rows [of ?mask ?n] le
    by (simp_all add: ids_row_filled mask_row_filled [OF assms] length_filled)
  moreover have "padded_labels enc (pad_id token_to_id) predict cs = predict ?ids ?mask"
    unfolding padded_labels_def Let_def i m ..
  ultimately show ?thesis
    by (simp add: candle_infer_def in_context_def enc Let_def)
qed

lemma padded_labels_own:
  assumes "encodes encode_batch enc" "attends predict net" "max_len (map enc cs) \<noteq> 0"
  shows "\<exists>out. padded_labels enc pad predict cs = Inr out \<and> length out = length cs
    \<and> map own_labels (zip out (map (ec_offsets \<circ> enc) cs)) = map (labels_of_chunk enc net) cs"
proof -
  let ?n = "max_len (map enc cs)" and ?rows = "map (ec_ids \<circ> enc) cs"
  have "\<forall>ids \<in> set ?rows. length ids \<le> ?n"
    using max_len_ge [of _ "map enc cs"] by auto
  moreover have "?rows \<noteq> []" "0 < ?n" using assms(3) by (auto simp: max_len_def)
  moreover have "?n \<le> truncation_limit" using assms(1) by (intro max_len_le) (auto simp: encodes_def)
  ultimately obtain out where out: "padded_labels enc pad predict cs = Inr out"
      "map2 (\<lambda>ids r. take (length ids) r) ?rows out = map net ?rows" "length out = length ?rows"
    using assms(2) unfolding attends_def padded_labels_def Let_def by blast
  have len: "length (ec_offsets (enc c)) = length (ec_ids (enc c))" for c
    using assms(1) by (simp add: encodes_def)
  have "map own_labels (zip out (map (ec_offsets \<circ> enc) cs)) = map (labels_of_chunk enc net) cs"
  proof (rule nth_equalityI)
    fix i assume "i < length (map own_labels (zip out (map (ec_offsets \<circ> enc) cs)))"
    then have i: "i < length cs" by simp
    from out(2) have "map2 (\<lambda>ids r. take (length ids) r) ?rows out ! i = map net ?rows ! i" by simp
    then show "map own_labels (zip out (map (ec_offsets \<circ> enc) cs)) ! i = map (labels_of_chunk enc net) cs ! i"
      using i out(3) by (simp add: own_labels_def labels_of_chunk_def len)
  qed (use out(3) in simp)
  with out show ?thesis by simp
qed

lemma candle_infer_own:
  assumes "encodes encode_batch enc" "attends predict net"
  shows "\<exists>res. candle_infer encode_batch token_to_id predict cs = Inr res \<and> map own_labels res = map (labels_of_chunk enc net) cs"
proof (cases "max_len (map enc cs) = 0")
  case True
  then have none: "ec_ids (enc c) = []" if "c \<in> set cs" for c using that by (simp add: max_len_0)
  have "net [] = []" using assms(2) by (simp add: attends_def)
  moreover have "ec_offsets (enc c) = []" if "c \<in> set cs" for c
    using assms(1) none [OF that] by (metis encodes_def length_0_conv)
  ultimately have "map own_labels (map (\<lambda>_. ([], [])) cs) = map (labels_of_chunk enc net) cs"
    using none by (simp add: own_labels_def labels_of_chunk_def)
  then show ?thesis using True by (simp add: candle_infer_padded [OF assms(1)])
next
  case False
  with padded_labels_own [OF assms False, of "pad_id token_to_id"] show ?thesis
    by (auto simp: candle_infer_padded [OF assms(1)])
qed

text \<open>The labels the ONNX backend reads from the flat logits, as a predictor.\<close>

definition session_labels :: "session \<Rightarrow> string list \<Rightarrow> predictor" where
  "session_labels run labels ids attend =
     rbind (in_context ''ort forward'' (run ids attend)) (\<lambda>(shape, logits).
       let n = length (hd ids); k = length labels
       in Inr (map (\<lambda>b. map (\<lambda>s. arg_max (map (\<lambda>m. logits ! ((b * n + s) * k + m)) [0..<k])) [0..<n]) [0..<length ids]))"

text \<open>The answer of a session has the shape of its input, one logit per label last.\<close>

definition well_shaped :: "session \<Rightarrow> string list \<Rightarrow> bool" where
  "well_shaped run labels \<longleftrightarrow>
     (\<forall>ids attend shape logits. run ids attend = Inr (shape, logits) \<longrightarrow>
        shape = [length ids, length (hd ids), length labels]
        \<and> length logits = length ids * length (hd ids) * length labels)"

lemma logits_at_Done: "base + k \<le> length flat \<Longrightarrow> logits_at flat base k = Done (map (\<lambda>m. flat ! (base + m)) [0..<k])"
  unfolding logits_at_def by (rule sc_map_Done) auto

lemma label_rows_Done:
  assumes "length flat = rows * n * k"
  shows "label_rows flat rows n k =
     Done (map (\<lambda>b. map (\<lambda>s. arg_max (map (\<lambda>m. flat ! ((b * n + s) * k + m)) [0..<k])) [0..<n]) [0..<rows])"
proof -
  have "(b * n + s) * k + k \<le> length flat" if "b < rows" "s < n" for b s
  proof -
    have "b * n + s + 1 \<le> b * n + n" using that by simp
    also have "\<dots> \<le> rows * n" using mult_le_mono1 [of "Suc b" rows n] that by simp
    finally have "(b * n + s + 1) * k \<le> rows * n * k" by (rule mult_le_mono1)
    with assms show ?thesis by (simp add: algebra_simps)
  qed
  then show ?thesis
    unfolding label_rows_def by (intro sc_map_Done) (simp add: logits_at_Done)
qed

lemma ort_mask_row_Done: "length (ec_mask enc) = length (ec_ids enc) \<Longrightarrow> length (ec_ids enc) \<le> n \<Longrightarrow>
  ort_mask_row n enc = Done (mask_row n enc)"
proof -
  assume m: "length (ec_mask enc) = length (ec_ids enc)" "length (ec_ids enc) \<le> n"
  have "ort_mask_row n enc = Done (map (\<lambda>j. if j < length (ec_ids enc) then ec_mask enc ! j else 0) [0..<n])"
    unfolding ort_mask_row_def by (rule sc_map_Done) (simp add: m)
  also have "map (\<lambda>j. if j < length (ec_ids enc) then ec_mask enc ! j else 0) [0..<n] = mask_row n enc"
    using m by (intro nth_equalityI) (auto simp: mask_row_def nth_append)
  finally show ?thesis .
qed

lemma ort_run_batch_eq:
  assumes enc: "encodes encode_batch enc" and shape: "well_shaped run labels"
  shows "ort_run_batch encode_batch token_to_id run labels batch per =
     run_batch (candle_infer encode_batch token_to_id (session_labels run labels)) labels batch per"
proof (cases "batch = []")
  case False
  let ?cs = "map (\<lambda>(_, _, c). c) batch"
  let ?encs = "map enc ?cs"
  let ?n = "max_len ?encs" and ?pad = "pad_id token_to_id"
  let ?ids = "map (ids_row ?pad ?n) ?encs" and ?mask = "map (mask_row ?n) ?encs"
  have e: "encode_batch ?cs = Inr ?encs" using enc by (simp add: encodes_def)
  have le: "length (ec_ids x) \<le> ?n" if "x \<in> set ?encs" for x using max_len_ge [OF that] .
  have "sc_map (ort_mask_row ?n) ?encs = Done ?mask"
    using enc le by (intro sc_map_Done ort_mask_row_Done) (auto simp: encodes_def)
  moreover have "tensor_of (length ?encs) ?n (concat ?ids) = Inr ?ids" "tensor_of (length ?encs) ?n (concat ?mask) = Inr ?mask"
    using tensor_of_rows [of ?ids ?n] tensor_of_rows [of ?mask ?n] le enc
    by (simp_all add: ids_row_def mask_row_def encodes_def)
  ultimately have fill: "sc_map (ort_mask_row ?n) ?encs = Done ?mask"
    "candle_infer encode_batch token_to_id (session_labels run labels) ?cs =
       (if ?n = 0 then Inr (map (\<lambda>_. ([], [])) ?cs)
        else rbind (session_labels run labels ?ids ?mask) (\<lambda>label_ids. Inr (zip label_ids (map ec_offsets ?encs))))"
    by (simp_all add: candle_infer_def in_context_def e Let_def del: map_map)
  show ?thesis
  proof (cases "?n = 0")
    case True
    have idle: "fold (\<lambda>((i, off, _), (ids, offs)). push_spans i (shift off (collapse_bio ids offs labels)))
        (zip chs (map (\<lambda>_. ([], [])) chs)) per = per" for chs :: "chunk list"
      by (induction chs) (auto simp: push_spans_def shift_def collapse_bio_def tokens_of_def flush_def)
    have "candle_infer encode_batch token_to_id (session_labels run labels) ?cs = Inr (map (\<lambda>_. ([], [])) batch)"
      unfolding fill(2) using True by (simp add: comp_def)
    then have "run_batch (candle_infer encode_batch token_to_id (session_labels run labels)) labels batch per = Done per"
      using False idle [of batch] by (simp add: run_batch_def)
    moreover have "ort_run_batch encode_batch token_to_id run labels batch per = Done per"
      using False True e by (simp add: ort_run_batch_def in_context_def Let_def)
    ultimately show ?thesis by simp
  next
    case pos: False
    show ?thesis
    proof (cases "run ?ids ?mask")
      case (Inl err)
      then show ?thesis
        using pos False
        by (simp add: ort_run_batch_def run_batch_def in_context_def e fill Let_def ort_forward_def session_labels_def del: map_map)
    next
      case (Inr a)
      obtain shape logits where a: "a = (shape, logits)" by fastforce
      have hd: "length (hd ?ids) = ?n"
        using False le by (cases batch) (auto simp: ids_row_def)
      have s: "shape = [length ?ids, ?n, length labels]" "length logits = length ?ids * ?n * length labels"
        using shape Inr hd unfolding well_shaped_def a by metis+
      show ?thesis
        using pos False Inr hd
        by (simp add: ort_run_batch_def run_batch_def in_context_def e fill Let_def ort_forward_def session_labels_def a s
            label_rows_Done del: map_map)
    qed
  qed
qed (simp add: ort_run_batch_def run_batch_def)

lemma ort_scrub_batch_eq:
  assumes "encodes encode_batch enc" "well_shaped run labels"
  shows "ort_scrub_batch tokenize encode_batch token_to_id run labels =
     backend_scrub_batch tokenize (candle_infer encode_batch token_to_id (session_labels run labels)) labels"
proof -
  have "ort_run_batch encode_batch token_to_id run labels = run_batch (candle_infer encode_batch token_to_id (session_labels run labels)) labels"
    using ort_run_batch_eq [OF assms] by (intro ext)
  then show ?thesis by (intro ext) (simp only: ort_scrub_batch_def backend_scrub_batch_def)
qed

lemma recognizer_ok_padded:
  assumes "encodes encode_batch enc" "attends predict net"
    and "\<And>t. \<exists>cs. pre_chunk tokenize t = Done cs"
    and "\<And>c. growing (map snd (solid (tokens_of (net (ec_ids (enc c))) (ec_offsets (enc c)))))"
  shows "recognizer_ok tokenize (candle_infer encode_batch token_to_id predict) (labels_of_chunk enc net)"
  using candle_infer_own [OF assms(1,2)] assms(3,4) by (simp add: recognizer_ok_def labels_of_chunk_def)

section \<open>Truncation\<close>

text \<open>What \<open>with_truncation\<close> does to a tokenizer: the tokens past the limit are gone.\<close>

definition truncated :: "nat \<Rightarrow> tokenizer \<Rightarrow> tokenizer" where
  "truncated n tokenize t = (case tokenize t of Inl e \<Rightarrow> Inl e | Inr offs \<Rightarrow> Inr (take n offs))"

abbreviation ascii :: "string \<Rightarrow> bool" where
  "ascii t \<equiv> \<forall>c \<in> set t. byte c < 128"

lemma ascii_valid: "ascii t \<Longrightarrow> valid_utf8 t"
  by (induction t) simp_all

lemma replace_loop_tail:
  assumes "\<forall>(s, e, _) \<in> set sps. s \<le> e \<and> e \<le> n" "cur \<le> n" "ascii t"
  shows "\<exists>p k. replace_loop t sps cur counts st = (Done (p @ drop n t), st\<lparr>entities_redacted := entities_redacted st + k\<rparr>)"
  using assms(1,2)
proof (induction sps arbitrary: cur counts st)
  case Nil
  have "utf8_or_empty (drop cur t) = drop cur t" using assms(3) ascii_valid [of "drop cur t"] in_set_dropD
    by (fastforce simp: utf8_or_empty_def)
  moreover have "drop cur t = take (n - cur) (drop cur t) @ drop n t"
    using Nil by (metis append_take_drop_id drop_drop le_add_diff_inverse2)
  ultimately show ?case by (auto intro!: exI [of _ "take (n - cur) (drop cur t)"] exI [of _ 0])
next
  case (Cons sp sps)
  obtain s e tag where sp: "sp = (s, e, tag)" by (cases sp)
  show ?case
  proof (cases "s < cur \<or> e > length t")
    case True
    with Cons show ?thesis by (simp add: sp)
  next
    case False
    let ?m = "(case hm_get counts tag of None \<Rightarrow> 0 | Some k \<Rightarrow> k) + 1"
    have "s \<le> e" "e \<le> n" using Cons.prems by (simp_all add: sp)
    with Cons.prems obtain p k where "replace_loop t sps e (hm_put tag ?m counts) (st\<lparr>entities_redacted := entities_redacted st + 1\<rparr>)
        = (Done (p @ drop n t), st\<lparr>entities_redacted := entities_redacted st + (k + 1)\<rparr>)"
      using Cons.IH [of e "hm_put tag ?m counts" "st\<lparr>entities_redacted := entities_redacted st + 1\<rparr>"]
      by (auto simp: add.assoc)
    then show ?thesis using False \<open>s \<le> e\<close>
      by (auto simp: sp Let_def intro!: exI [of _ "utf8_or_empty (sub cur s t) @ placeholder tag ?m @ p"] exI [of _ "k + 1"])
  qed
qed

lemma growing_take: "growing offs \<Longrightarrow> growing (take n offs)"
  by (auto simp: growing_def sorted_wrt_take dest: in_set_takeD)

lemma growing_group:
  assumes "growing g" "(s, e) \<in> set g"
  shows "fst (hd g) \<le> s" "e \<le> snd (last g)"
proof -
  obtain i where i: "i < length g" "g ! i = (s, e)" using assms(2) by (auto simp: in_set_conv_nth)
  have lt: "fst (g ! k) < snd (g ! k)" if "k < length g" for k
    using assms(1) that nth_mem [OF that] unfolding growing_def by (metis (no_types, lifting) case_prodE fst_conv snd_conv)
  have step: "snd (g ! k) \<le> fst (g ! m)" if "k < m" "m < length g" for k m
    using assms(1) that unfolding growing_def sorted_wrt_iff_nth_less by (metis case_prod_unfold)
  have ne: "g \<noteq> []" using assms(2) by auto
  show "fst (hd g) \<le> s"
    using step [of 0 i] lt [of 0] i ne by (cases i) (auto simp: hd_conv_nth)
  show "e \<le> snd (last g)"
  proof (cases "i = length g - 1")
    case True
    with i ne show ?thesis by (simp add: last_conv_nth)
  next
    case False
    with i(1) have "i < length g - 1" by simp
    with step [of i "length g - 1"] lt [of "length g - 1"] i ne show ?thesis by (simp add: last_conv_nth)
  qed
qed

lemma sub_length: "i \<le> j \<Longrightarrow> j \<le> length t \<Longrightarrow> length (sub i j t) = j - i"
  by (simp add: sub_def)

lemma ascii_boundary: "ascii t \<Longrightarrow> i \<le> length t \<Longrightarrow> char_boundary t i"
  using nth_mem [of i t] by (fastforce simp: char_boundary_def)

lemma group_facts:
  assumes "growing offs" "concat gs = offs" "[] \<notin> set gs" "x \<in> set gs"
  shows "fst (hd x) < snd (last x) \<and> last x \<in> set offs \<and> growing x"
proof -
  obtain xs ys where offs: "offs = xs @ x @ ys" using split_list [OF assms(4)] assms(2) by fastforce
  have x: "growing x" "x \<noteq> []" using assms(1,3,4) by (auto simp: growing_def sorted_wrt_append offs)
  then have "fst (hd x) \<le> fst (last x)" using growing_group(1) [of x "fst (last x)" "snd (last x)"] by simp
  moreover have "last x \<in> set offs" using x(2) by (simp add: offs)
  moreover have "fst (last x) < snd (last x)" using assms(1) calculation(2) by (auto simp: growing_def)
  ultimately show ?thesis using x(1) by simp
qed

text \<open>The chunks of a text all of whose tokens are given.\<close>

lemma chunks_of:
  assumes "tokenize t = Inr offs" "growing offs" "\<forall>(s, e) \<in> set offs. e \<le> length t" "ascii t"
  shows "pre_chunk tokenize t = Done (map (\<lambda>g. (fst (hd g), sub (fst (hd g)) (snd (last g)) t)) (groups_of max_tokens_per_chunk offs))"
proof -
  have each: "fst (hd g) < snd (last g) \<and> snd (last g) \<le> length t" if "g \<in> set (groups_of max_tokens_per_chunk offs)" for g
  proof -
    have cat: "concat (groups_of max_tokens_per_chunk offs) = offs" by (rule concat_groups_of) (simp add: max_tokens_per_chunk_def)
    have "fst (hd g) < snd (last g)" "last g \<in> set offs"
      using group_facts [OF assms(2) cat groups_of_nonempty that] by auto
    then show ?thesis using assms(3) by auto
  qed
  let ?f = "\<lambda>g. let i = fst (hd g); j = snd (last g)
                 in if j > i then sc_bind (str_slice t i j) (\<lambda>c. Done [(i, c)]) else Done []"
  have "?f g = Done [(fst (hd g), sub (fst (hd g)) (snd (last g)) t)]" if "g \<in> set (groups_of max_tokens_per_chunk offs)" for g
    using each [OF that] by (auto simp: Let_def str_slice_def ascii_boundary [OF assms(4)])
  then have "sc_map ?f (groups_of max_tokens_per_chunk offs)
      = Done (map (\<lambda>g. [(fst (hd g), sub (fst (hd g)) (snd (last g)) t)]) (groups_of max_tokens_per_chunk offs))"
    by (rule sc_map_Done)
  then show ?thesis by (simp add: pre_chunk_def assms(1) concat_map_singleton)
qed

text \<open>The spans of a chunk stay in it, those of a text before the end of its last token.\<close>

lemma chunk_spans_within:
  assumes "growing (map snd (solid (tokens_of (fst (label c)) (snd (label c)))))"
    and "\<forall>(s, e) \<in> set (snd (label c)). e \<le> length c"
  shows "\<forall>(s, e, _) \<in> set (chunk_spans label labels (i, c)). s \<le> e \<and> e \<le> i + length c"
proof -
  have b: "bio_inv labels (solid (tokens_of (fst (label c)) (snd (label c)))) (collapse_bio (fst (label c)) (snd (label c)) labels, None)"
    by (rule collapse_bio_spec [OF assms(1)])
  have tok: "e \<le> length c" if "(l, s, e) \<in> set (tokens_of (fst (label c)) (snd (label c)))" for l s e
  proof -
    from that have "(s, e) \<in> set (snd (label c)) \<or> (s, e) = (0, 0)"
      unfolding tokens_of_def by (drule_tac set_zip_rightD) auto
    then show ?thesis using assms(2) by auto
  qed
  let ?sps = "collapse_bio (fst (label c)) (snd (label c)) labels"
  have inv: "in_order ?sps" "ends (solid (tokens_of (fst (label c)) (snd (label c)))) ?sps"
    using b by (simp_all add: bio_inv_def)
  have "s \<le> e \<and> e \<le> length c" if sp: "(s, e, x) \<in> set ?sps" for s e x
  proof -
    have "s \<le> e" using in_order_forward [OF inv(1)] sp by blast
    moreover obtain l s' e' where "(l, s', e') \<in> set (tokens_of (fst (label c)) (snd (label c)))" "e \<le> e'"
      using bspec [OF inv(2) [unfolded ends_def] sp] by auto
    ultimately show ?thesis using tok le_trans by blast
  qed
  then show ?thesis by (fastforce simp: chunk_spans_def shift_def)
qed

lemma text_spans_within:
  assumes "text_chunks tokenize t = cs" "\<forall>(i, c) \<in> set cs. i + length c \<le> n"
    and "\<And>c. growing (map snd (solid (tokens_of (fst (label c)) (snd (label c)))))"
    and "\<And>c. \<forall>(s, e) \<in> set (snd (label c)). e \<le> length c"
  shows "\<forall>(s, e, _) \<in> set (text_spans tokenize label labels t). s \<le> e \<and> e \<le> n"
proof -
  have "s \<le> e \<and> e \<le> n" if sp: "(s, e, x) \<in> set (text_spans tokenize label labels t)" for s e x
  proof -
    from sp obtain i c where ic: "(i, c) \<in> set cs" "(s, e, x) \<in> set (chunk_spans label labels (i, c))"
      using assms(1) by (auto simp: text_spans_def)
    have "s \<le> e \<and> e \<le> i + length c"
      using bspec [OF chunk_spans_within [OF assms(3,4)] ic(2)] by simp
    moreover have "i + length c \<le> n" using assms(2) ic(1) by auto
    ultimately show ?thesis by simp
  qed
  then show ?thesis by blast
qed

lemma redact_tail:
  assumes "\<forall>(s, e, _) \<in> set (text_spans tokenize label labels t). s \<le> e \<and> e \<le> n" "ascii t"
  shows "\<exists>p. redact tokenize label labels t = p @ drop n t"
proof (cases "text_spans tokenize label labels t = []")
  case True
  then show ?thesis by (auto simp: redact_def replace_spans_def intro!: exI [of _ "take n t"])
next
  case False
  have "\<forall>(s, e, _) \<in> set (sort_key fst (text_spans tokenize label labels t)). s \<le> e \<and> e \<le> n"
    using assms(1) by simp
  from replace_loop_tail [OF this _ assms(2), of 0 "[]" stats_default] False show ?thesis
    by (auto simp: redact_def replace_spans_def)
qed

lemma growing_before:
  assumes "growing offs" "n < length offs"
  shows "\<forall>(s, e) \<in> set (take n offs). e \<le> fst (offs ! n)"
proof clarify
  fix s e assume "(s, e) \<in> set (take n offs)"
  then obtain i where "i < n" "offs ! i = (s, e)" using assms(2) by (auto simp: in_set_conv_nth)
  with assms show "e \<le> fst (offs ! n)"
    unfolding growing_def sorted_wrt_iff_nth_less by (metis (no_types, lifting) case_prod_unfold snd_conv)
qed

section \<open>Properties\<close>

text \<open>
  C17: padding and the choice of the backend are invisible. When chunks are encoded one by one
  and the network labels the attended tokens of a row from that row alone, then filling the
  rows of a mini-batch to one length changes no answer: the Candle backend redacts each text
  as on its own, whatever it is batched with, whatever the fill token. The ONNX backend, which
  fills its tensors position by position and searches the flat logits itself, never indexes
  out of range and redacts every text as the Candle backend does, when its network agrees.
\<close>

theorem padding_is_invisible:
  assumes enc: "encodes encode_batch enc" and net: "attends predict net" "attends (session_labels run labels) net"
    and shape: "well_shaped run labels"
    and chunks: "\<And>t. \<exists>cs. pre_chunk tokenize t = Done cs"
    and offsets: "\<And>c. growing (map snd (solid (tokens_of (net (ec_ids (enc c))) (ec_offsets (enc c)))))"
  shows "pointwise (redact tokenize (labels_of_chunk enc net) labels)
      (backend_scrub_batch tokenize (candle_infer encode_batch token_to_id predict) labels)
    \<and> pointwise (redact tokenize (labels_of_chunk enc net) labels)
      (ort_scrub_batch tokenize encode_batch token_to_id run labels)"
  using backend_pointwise [OF recognizer_ok_padded [OF enc net(1) chunks offsets], of labels]
    backend_pointwise [OF recognizer_ok_padded [OF enc net(2) chunks offsets], of labels]
  by (simp add: ort_scrub_batch_eq [OF enc shape])


section \<open>A network that takes everything for a name\<close>

definition toy_encoding :: "string \<Rightarrow> encoding" where
  "toy_encoding c = (if c = [] then \<lparr>ec_ids = [], ec_mask = [], ec_offsets = []\<rparr>
     else \<lparr>ec_ids = [2], ec_mask = [1], ec_offsets = [(0, length c)]\<rparr>)"

definition toy_predict :: predictor where
  "toy_predict ids attend = Inr (map (map (\<lambda>_. 1)) ids)"

definition toy_session :: session where
  "toy_session ids attend = Inr ([length ids, length (hd ids), 2],
     concat (replicate (length ids * length (hd ids)) [fzero, fone]))"

lemma toy_encodes: "encodes (\<lambda>cs. Inr (map toy_encoding cs)) toy_encoding"
  by (simp add: encodes_def toy_encoding_def truncation_limit_def)

lemma toy_labels: "labels_of_chunk toy_encoding (map (\<lambda>_. 1)) = toy_label"
  by (simp add: labels_of_chunk_def toy_encoding_def toy_label_def fun_eq_iff)

lemma toy_attends: "attends toy_predict (map (\<lambda>_. 1))"
proof -
  have "map2 (\<lambda>ids r. take (length ids) r) rows (map (map (\<lambda>_. 1)) (map (filled n pad) rows)) = map (map (\<lambda>_. 1 :: nat)) rows"
    for rows :: "nat list list" and n pad
    by (rule nth_equalityI) (simp_all add: filled_def)
  then show ?thesis by (simp add: attends_def toy_predict_def)
qed

lemma nth_concat_replicate: "q < n \<Longrightarrow> m < length xs \<Longrightarrow> concat (replicate n xs) ! (q * length xs + m) = xs ! m"
proof (induction n arbitrary: q)
  case (Suc n)
  then show ?case by (cases q) (simp_all add: nth_append)
qed simp

lemma toy_session_labels:
  "session_labels toy_session [''O'', ''B-PER''] ids attend = Inr (replicate (length ids) (replicate (length (hd ids)) 1))"
proof -
  let ?n = "length (hd ids)"
  let ?flat = "concat (replicate (length ids * ?n) [fzero, fone])"
  have "arg_max (map (\<lambda>m. ?flat ! ((b * ?n + s) * 2 + m)) [0..<2]) = 1" if "b < length ids" "s < ?n" for b s
  proof -
    have "b * ?n + s < length ids * ?n"
      using that mult_le_mono1 [of "Suc b" "length ids" ?n] by simp
    then have "?flat ! ((b * ?n + s) * 2 + m) = [fzero, fone] ! m" if "m < 2" for m
    proof -
      have "?flat ! ((b * ?n + s) * length [fzero, fone] + m) = [fzero, fone] ! m"
        using \<open>b * ?n + s < length ids * ?n\<close> that by (intro nth_concat_replicate) simp_all
      moreover have "(b * ?n + s) * length [fzero, fone] + m = (b * ?n + s) * 2 + m" by simp
      ultimately show ?thesis by (simp only:)
    qed
    then have "map (\<lambda>m. ?flat ! ((b * ?n + s) * 2 + m)) [0..<2] = [fzero, fone]"
      by (intro nth_equalityI) simp_all
    moreover have "arg_max [fzero, fone] = 1" by code_simp
    ultimately show ?thesis by (simp only:)
  qed
  then have "map (\<lambda>b. map (\<lambda>s. arg_max (map (\<lambda>m. ?flat ! ((b * ?n + s) * 2 + m)) [0..<2])) [0..<?n]) [0..<length ids]
      = replicate (length ids) (replicate ?n 1)"
    by (intro nth_equalityI) simp_all
  then show ?thesis by (simp add: session_labels_def toy_session_def in_context_def Let_def numeral_2_eq_2)
qed

lemma toy_session_attends: "attends (session_labels toy_session [''O'', ''B-PER'']) (map (\<lambda>_. 1))"
  unfolding attends_def toy_session_labels
proof (intro conjI allI impI)
  fix pad n and rows :: "nat list list"
  assume "rows \<noteq> [] \<and> 0 < n \<and> n \<le> truncation_limit \<and> (\<forall>ids \<in> set rows. length ids \<le> n)"
  then have le: "\<forall>ids \<in> set rows. length ids \<le> n" by simp
  let ?out = "replicate (length (map (filled n pad) rows)) (replicate (length (hd (map (filled n pad) rows))) (1 :: nat))"
  have w: "length (hd (map (filled n pad) rows)) = n" if "rows \<noteq> []"
    using that le by (cases rows) (simp_all add: length_filled)
  have "map2 (\<lambda>ids r. take (length ids) r) rows ?out = map (map (\<lambda>_. 1)) rows"
  proof (cases "rows = []")
    case False
    have "length (rows ! i) \<le> n" if "i < length rows" for i using le that by simp
    then show ?thesis by (intro nth_equalityI) (simp_all add: w [OF False] map_replicate_const)
  qed simp
  then show "\<exists>out. Inr ?out = Inr out \<and> map2 (\<lambda>ids r. take (length ids) r) rows out = map (map (\<lambda>_. 1)) rows
      \<and> length out = length rows" by simp
qed simp

lemma toy_well_shaped: "well_shaped toy_session [''O'', ''B-PER'']"
  by (auto simp: well_shaped_def toy_session_def length_concat sum_list_replicate)

lemma padding_is_invisible_witness:
  "fst (backend_scrub_batch toy_tokenize (candle_infer (\<lambda>cs. Inr (map toy_encoding cs)) (\<lambda>_. None) toy_predict)
      [''O'', ''B-PER''] [''Ann'', ''Bo''] stats_default)
     = Done (map (redact toy_tokenize toy_label [''O'', ''B-PER'']) [''Ann'', ''Bo''])
   \<and> fst (ort_scrub_batch toy_tokenize (\<lambda>cs. Inr (map toy_encoding cs)) (\<lambda>_. None) toy_session
      [''O'', ''B-PER''] [''Ann'', ''Bo''] stats_default)
     = Done (map (redact toy_tokenize toy_label [''O'', ''B-PER'']) [''Ann'', ''Bo''])"
proof -
  have pre: "\<exists>cs. pre_chunk toy_tokenize t = Done cs" for t by (simp add: toy_pre_chunk)
  have offs: "growing (map snd (solid (tokens_of (map (\<lambda>_. 1) (ec_ids (toy_encoding c))) (ec_offsets (toy_encoding c)))))" for c
    by (simp add: toy_encoding_def tokens_of_def growing_def)
  have fst_pointwise: "pointwise f b \<Longrightarrow> fst (b ts st) = Done (map f ts)" for f b ts and st :: scrub_stats
    unfolding pointwise_def by (metis fst_conv)
  note facts = padding_is_invisible [where token_to_id = "\<lambda>_. None",
      OF toy_encodes toy_attends toy_session_attends toy_well_shaped pre offs, unfolded toy_labels]
  show ?thesis using fst_pointwise [OF conjunct1 [OF facts]] fst_pointwise [OF conjunct2 [OF facts]] by blast
qed

text \<open>A tokenizer with one token per byte: of 603 tokens, 91 are past the limit.\<close>

definition byte_tokens :: tokenizer where
  "byte_tokens t = Inr (map (\<lambda>i. (i, Suc i)) [0..<length t])"

lemma growing_bytes: "growing (map (\<lambda>i. (i, Suc i)) [0..<n])"
  by (auto simp: growing_def sorted_wrt_iff_nth_less)


section \<open>The label set of a checkpoint\<close>

text \<open>
  Labels are numbered by rank, not by identifier: they are the labels of the identifiers when
  these are the numbers from 0 on, and shifted ones when an identifier is missing.
\<close>

lemma labels_by_rank:
  assumes "hf_id2label cfg = JObj fs" "map fst (sort_key fst (label_items fs)) = [0..<n]" "0 < n"
  shows "\<exists>labels. parse_labels k standard cfg = Inr labels \<and> length labels = n
    \<and> (\<forall>(i, l) \<in> set (label_items fs). labels ! i = l)"
proof -
  let ?items = "sort_key fst (label_items fs)"
  have len: "length ?items = n" using arg_cong [OF assms(2), of length] by simp
  have "map snd ?items ! i = l" if "(i, l) \<in> set (label_items fs)" for i l
  proof -
    from that obtain j where j: "j < length ?items" "?items ! j = (i, l)" by (metis in_set_conv_nth set_sort)
    then have "[0..<n] ! j = i" using assms(2) by (metis fst_conv nth_map)
    then have "j = i" using j(1) len by simp
    with j show ?thesis by simp
  qed
  moreover have "map snd ?items \<noteq> []" using len assms(3) by (metis length_0_conv length_map not_less_zero)
  ultimately show ?thesis using assms(1) len by (auto simp: parse_labels_def Let_def)
qed

lemma missing_label_shifts:
  "xlmr_parse_labels \<lparr>hf_id2label = JObj [(''0'', JStr ''O''), (''2'', JStr ''B-PER'')], hf_num_labels = None\<rparr>
     = Inr [''O'', ''B-PER'']"
  by code_simp

end
