(* ===== verification/Patterns.thy ===== *)
theory Patterns
  imports ScrubWalk
begin

text \<open>
  The patterns of the regex pass, \<open>scrubber/regex.rs\<close>: the eight regular expressions as
  syntax trees with the documented meaning of the syntax (leftmost start, first alternative,
  greedy repetitions, matches that do not overlap). The engine of the walk stays a parameter;
  \<open>follows_patterns\<close> says that it finds what the patterns mean. The Unicode tables behind
  \<open>\w\<close>, \<open>\d\<close>, \<open>\s\<close> and \<open>\p{L}\<close> are parameters too. A text is read as the list of its
  characters, each the string of its bytes in UTF-8.
\<close>

section \<open>Characters\<close>

type_synonym symbol = string

definition width :: "char \<Rightarrow> nat" where
  "width a = (if byte a < 128 then 1 else if byte a < 224 then 2 else if byte a < 240 then 3 else 4)"

lemma width_pos [simp]: "0 < width a"
  by (simp add: width_def)

function symbols :: "string \<Rightarrow> symbol list" where
  "symbols [] = []"
| "symbols (a # r) = take (width a) (a # r) # symbols (drop (width a) (a # r))"
  by pat_completeness auto

termination by (relation "measure length") simp_all

record unicode =
  uc_word :: "symbol \<Rightarrow> bool"
  uc_digit :: "symbol \<Rightarrow> bool"
  uc_space :: "symbol \<Rightarrow> bool"
  uc_letter :: "symbol \<Rightarrow> bool"

section \<open>Expressions and their matches\<close>

datatype item = Lit char | Span char char | Digit | Word | Space | Letter

datatype char_class = OneOf "item list" | NoneOf "item list"

datatype rx =
    Cls char_class
  | Many char_class nat "nat option"
  | Then rx rx
  | Or rx rx
  | Times nat rx
  | Boundary

fun in_item :: "unicode \<Rightarrow> symbol \<Rightarrow> item \<Rightarrow> bool" where
  "in_item u s (Lit c) = (s = [c])"
| "in_item u s (Span a b) = (case s of [c] \<Rightarrow> byte a \<le> byte c \<and> byte c \<le> byte b | _ \<Rightarrow> False)"
| "in_item u s Digit = uc_digit u s"
| "in_item u s Word = uc_word u s"
| "in_item u s Space = uc_space u s"
| "in_item u s Letter = uc_letter u s"

fun in_class :: "unicode \<Rightarrow> char_class \<Rightarrow> symbol \<Rightarrow> bool" where
  "in_class u (OneOf is) s = list_ex (in_item u s) is"
| "in_class u (NoneOf is) s = (\<not> list_ex (in_item u s) is)"

text \<open>A position: the character before, if any, and those from here on.\<close>

type_synonym position = "symbol option \<times> symbol list"

definition word_before :: "unicode \<Rightarrow> symbol option \<Rightarrow> bool" where
  "word_before u p = (case p of None \<Rightarrow> False | Some s \<Rightarrow> uc_word u s)"

definition word_after :: "unicode \<Rightarrow> symbol list \<Rightarrow> bool" where
  "word_after u xs = (case xs of [] \<Rightarrow> False | x # _ \<Rightarrow> uc_word u x)"

fun greedy :: "(symbol \<Rightarrow> bool) \<Rightarrow> nat \<Rightarrow> nat option \<Rightarrow> symbol option \<Rightarrow> symbol list \<Rightarrow> position list" where
  "greedy P lo hi p [] = (if lo = 0 then [(p, [])] else [])"
| "greedy P lo hi p (x # xs) =
     (if hi \<noteq> Some 0 \<and> P x then greedy P (lo - 1) (map_option (\<lambda>n. n - 1) hi) (Some x) xs else [])
     @ (if lo = 0 then [(p, x # xs)] else [])"

text \<open>Where a match that starts here can end, the preferred end first.\<close>

fun ends :: "unicode \<Rightarrow> rx \<Rightarrow> position \<Rightarrow> position list" where
  "ends u (Cls c) (p, xs) = (case xs of [] \<Rightarrow> [] | x # ys \<Rightarrow> if in_class u c x then [(Some x, ys)] else [])"
| "ends u (Many c lo hi) (p, xs) = greedy (in_class u c) lo hi p xs"
| "ends u (Then a b) pos = concat (map (ends u b) (ends u a pos))"
| "ends u (Or a b) pos = ends u a pos @ ends u b pos"
| "ends u (Times n r) pos = ((\<lambda>ps. concat (map (ends u r) ps)) ^^ n) [pos]"
| "ends u Boundary (p, xs) = (if word_before u p \<noteq> word_after u xs then [(p, xs)] else [])"

text \<open>
  The matches from left to right: their number and the text with \<open>rep\<close> for each of them. A
  match that takes no character is passed over; no pattern below has one.
\<close>

function rewrite :: "unicode \<Rightarrow> rx \<Rightarrow> symbol list \<Rightarrow> symbol option \<Rightarrow> symbol list \<Rightarrow> nat \<times> symbol list" where
  "rewrite u r rep p xs =
     (case (ends u r (p, xs), xs) of
        ((q, ys) # _, _ # _) \<Rightarrow>
          if length ys < length xs then (case rewrite u r rep q ys of (n, out) \<Rightarrow> (Suc n, rep @ out))
          else (case rewrite u r rep (Some (hd xs)) (tl xs) of (n, out) \<Rightarrow> (n, hd xs # out))
      | ([], x # xs') \<Rightarrow> (case rewrite u r rep (Some x) xs' of (n, out) \<Rightarrow> (n, x # out))
      | (_, []) \<Rightarrow> (0, []))"
  by pat_completeness auto

termination by (relation "measure (\<lambda>(_, _, _, _, xs). length xs)") auto

declare rewrite.simps [simp del]

section \<open>The patterns\<close>

abbreviation chr :: "char \<Rightarrow> rx" where
  "chr c \<equiv> Cls (OneOf [Lit c])"

primrec chain :: "rx \<Rightarrow> rx list \<Rightarrow> rx" where
  "chain r [] = r"
| "chain r (s # ss) = Then r (chain s ss)"

definition ascii_digits :: char_class where
  "ascii_digits = OneOf [Span (CHR ''0'') (CHR ''9'')]"

definition separators :: char_class where
  "separators = OneOf [Lit (CHR ''-''), Lit (CHR ''.''), Space]"

definition email_pattern :: rx where
  "email_pattern = chain
     (Many (OneOf [Span (CHR ''A'') (CHR ''Z''), Span (CHR ''a'') (CHR ''z''), Span (CHR ''0'') (CHR ''9''),
        Lit (CHR ''.''), Lit (CHR ''_''), Lit (CHR ''%''), Lit (CHR ''+''), Lit (CHR ''-'')]) 1 None)
     [chr (CHR ''@''),
      Many (OneOf [Span (CHR ''A'') (CHR ''Z''), Span (CHR ''a'') (CHR ''z''), Span (CHR ''0'') (CHR ''9''),
        Lit (CHR ''.''), Lit (CHR ''-'')]) 1 None,
      chr (CHR ''.''),
      Many (OneOf [Span (CHR ''A'') (CHR ''Z''), Span (CHR ''a'') (CHR ''z'')]) 2 None]"

definition phone_pattern :: rx where
  "phone_pattern =
     Or (chain (chr (CHR ''+''))
          [chr (CHR ''1''), Many separators 1 None, Many (OneOf [Lit (CHR ''('')]) 0 (Some 1),
           Many ascii_digits 3 (Some 3), Many (OneOf [Lit (CHR '')'')]) 0 (Some 1), Many separators 0 None,
           Many ascii_digits 3 (Some 3), Many separators 0 None, Many ascii_digits 4 (Some 4)])
     (Or (chain (chr (CHR ''(''))
          [Many ascii_digits 3 (Some 3), chr (CHR '')''), Many separators 0 None,
           Many ascii_digits 3 (Some 3), Many separators 0 None, Many ascii_digits 4 (Some 4)])
         (chain Boundary
          [Many ascii_digits 3 (Some 3), Many separators 1 None, Many ascii_digits 3 (Some 3),
           Many separators 1 None, Many ascii_digits 4 (Some 4), Boundary]))"

definition ipv4_pattern :: rx where
  "ipv4_pattern = chain Boundary
     [Times 3 (Then (Many (OneOf [Digit]) 1 (Some 3)) (chr (CHR ''.''))), Many (OneOf [Digit]) 1 (Some 3), Boundary]"

definition url_pattern :: rx where
  "url_pattern = chain (chr (CHR ''h''))
     [chr (CHR ''t''), chr (CHR ''t''), chr (CHR ''p''), Many (OneOf [Lit (CHR ''s'')]) 0 (Some 1),
      chr (CHR '':''), chr (CHR ''/''), chr (CHR ''/''), Many (NoneOf [Space, Lit (CHR ''<''), Lit (CHR ''>'')]) 1 None]"

definition ssn_pattern :: rx where
  "ssn_pattern = chain Boundary
     [Many (OneOf [Digit]) 3 (Some 3), chr (CHR ''-''), Many (OneOf [Digit]) 2 (Some 2), chr (CHR ''-''),
      Many (OneOf [Digit]) 4 (Some 4), Boundary]"

definition card_pattern :: rx where
  "card_pattern = chain Boundary
     [Times 3 (Then (Many (OneOf [Digit]) 4 (Some 4)) (Many (OneOf [Lit (CHR ''-''), Space]) 0 (Some 1))),
      Many (OneOf [Digit]) 4 (Some 4), Boundary]"

text \<open>The years from 1700 to 2023.\<close>

definition year_digits :: rx where
  "year_digits =
     Or (chain (chr (CHR ''1'')) [Cls (OneOf [Span (CHR ''7'') (CHR ''9'')]), Many (OneOf [Digit]) 2 (Some 2)])
     (Or (chain (chr (CHR ''2'')) [chr (CHR ''0''), Cls (OneOf [Span (CHR ''0'') (CHR ''1'')]), Cls (OneOf [Digit])])
         (chain (chr (CHR ''2'')) [chr (CHR ''0''), chr (CHR ''2''), Cls (OneOf [Span (CHR ''0'') (CHR ''3'')])]))"

definition year_pattern :: rx where
  "year_pattern = chain Boundary [year_digits, Boundary]"

definition flank :: rx where
  "flank = Many (OneOf [Word]) 0 (Some 40)"

definition identifier_pattern :: rx where
  "identifier_pattern = chain Boundary
     [Or (chain flank [Cls (OneOf [Letter, Lit (CHR ''_'')]), flank, year_digits, flank])
         (chain flank [year_digits, flank, Cls (OneOf [Letter, Lit (CHR ''_'')]), flank]),
      Boundary]"

fun pattern_of :: "pattern \<Rightarrow> rx" where
  "pattern_of YEAR_IDENTIFIER = identifier_pattern"
| "pattern_of HISTORICAL_YEAR = year_pattern"
| "pattern_of EMAIL = email_pattern"
| "pattern_of PHONE = phone_pattern"
| "pattern_of IPV4 = ipv4_pattern"
| "pattern_of URL = url_pattern"
| "pattern_of SSN = ssn_pattern"
| "pattern_of CREDIT_CARD = card_pattern"

definition pattern_engine :: "unicode \<Rightarrow> regex_engine" where
  "pattern_engine u =
     \<lparr>rx_count = (\<lambda>pat t. fst (rewrite u (pattern_of pat) [] None (symbols t))),
      rx_replace = (\<lambda>pat rep t. concat (snd (rewrite u (pattern_of pat) (symbols rep) None (symbols t))))\<rparr>"

text \<open>What the walk relies on the regex engine for, on the texts a Rust string can hold.\<close>

definition follows_patterns :: "unicode \<Rightarrow> regex_engine \<Rightarrow> bool" where
  "follows_patterns u rx \<longleftrightarrow>
     (\<forall>pat t. valid_utf8 t \<longrightarrow> rx_count rx pat t = rx_count (pattern_engine u) pat t
        \<and> (\<forall>rep. rx_replace rx pat rep t = rx_replace (pattern_engine u) pat rep t))"

section \<open>The patterns on texts of the repository's tests\<close>

text \<open>The tables restricted to ASCII.\<close>

definition ascii_tables :: unicode where
  "ascii_tables =
     (let single = (\<lambda>P s. case s of [c] \<Rightarrow> P c | _ \<Rightarrow> False);
          letter = (\<lambda>c. 65 \<le> byte c \<and> byte c \<le> 90 \<or> 97 \<le> byte c \<and> byte c \<le> 122)
      in \<lparr>uc_word = single (\<lambda>c. c = CHR ''_'' \<or> is_digit c \<or> letter c), uc_digit = single is_digit,
          uc_space = single (\<lambda>c. 9 \<le> byte c \<and> byte c \<le> 13 \<or> byte c = 32), uc_letter = single letter\<rparr>)"

abbreviation rewritten :: "string \<Rightarrow> string" where
  "rewritten t \<equiv> fst (scrub_string (pattern_engine ascii_tables) t stats_default)"

lemma rewritten_year: "rewritten ''Event in 1989'' = ''Event in [YEAR]''"
  by code_simp

lemma rewritten_current_year: "rewritten ''Today is 2026-04-25'' = ''Today is 2026-04-25''"
  by code_simp

lemma rewritten_identifier: "rewritten ''source: foo_1989_bar'' = ''source: [IDENTIFIER]''"
  by code_simp

section \<open>Texts and their characters\<close>

definition complete :: "symbol \<Rightarrow> bool" where
  "complete s \<longleftrightarrow> s \<noteq> [] \<and> length s = width (hd s) \<and> valid_utf8 s"

lemma concat_symbols [simp]: "concat (symbols t) = t"
  by (induction t rule: symbols.induct) simp_all

lemma symbols_append: "complete s \<Longrightarrow> symbols (s @ t) = s # symbols t"
proof (cases s)
  case (Cons a r)
  moreover assume "complete s"
  ultimately have "width a = length (a # r)" by (simp add: complete_def)
  then have "take (width a) (a # r @ t) = a # r" "drop (width a) (a # r @ t) = t" by simp_all
  with Cons show ?thesis by simp
qed (simp add: complete_def)

lemma symbols_concat: "list_all complete ss \<Longrightarrow> symbols (concat ss) = ss"
  by (induction ss) (simp_all add: symbols_append)

lemma symbols_complete: "valid_utf8 t \<Longrightarrow> list_all complete (symbols t)"
proof (induction t rule: symbols.induct)
  case (2 a r)
  have "complete (take (width a) (a # r)) \<and> valid_utf8 (drop (width a) (a # r))"
    using "2.prems" by (auto simp: complete_def width_def split: if_splits list.splits)
  with 2 show ?case by simp
qed simp

lemma valid_utf8_append: "valid_utf8 s \<Longrightarrow> valid_utf8 t \<Longrightarrow> valid_utf8 (s @ t)"
  by (induction s rule: valid_utf8.induct) (auto split: if_splits list.splits)

lemma valid_of_symbols: "list_all complete (symbols t) \<Longrightarrow> valid_utf8 t"
proof -
  have "list_all complete ss \<Longrightarrow> valid_utf8 (concat ss)" for ss
    by (induction ss) (auto simp: complete_def intro: valid_utf8_append)
  from this [of "symbols t"] show "list_all complete (symbols t) \<Longrightarrow> valid_utf8 t" by simp
qed

section \<open>What an expression spells\<close>

definition after :: "symbol option \<Rightarrow> symbol list \<Rightarrow> symbol option" where
  "after p w = (if w = [] then p else Some (last w))"

lemma after_simps [simp]: "after p [] = p" "after p (w @ [x]) = Some x" "after (after p v) w = after p (v @ w)"
  by (simp_all add: after_def)

lemma after_Cons: "after p (x # w) = after (Some x) w"
  by (simp add: after_def)

lemma greedy_iff:
  "(q, ys) \<in> set (greedy P lo hi p xs) \<longleftrightarrow>
     (\<exists>w. xs = w @ ys \<and> q = after p w \<and> list_all P w \<and> lo \<le> length w \<and> (\<forall>h. hi = Some h \<longrightarrow> length w \<le> h))"
proof (induction P lo hi p xs rule: greedy.induct)
  case (2 P lo hi p x xs)
  have "(\<exists>w. x # xs = w @ ys \<and> q = after p w \<and> list_all P w \<and> lo \<le> length w \<and> (\<forall>h. hi = Some h \<longrightarrow> length w \<le> h))
    \<longleftrightarrow> (lo = 0 \<and> q = p \<and> ys = x # xs) \<or> (\<exists>w. xs = w @ ys \<and> q = after (Some x) w \<and> P x \<and> list_all P w
          \<and> lo - 1 \<le> length w \<and> (\<forall>h. hi = Some h \<longrightarrow> length w < h))"
    by (auto simp: Cons_eq_append_conv after_Cons)
  also have "\<dots> \<longleftrightarrow> (q, ys) \<in> set (greedy P lo hi p (x # xs))"
    using 2 by (cases hi) (auto simp: less_Suc_eq_le le_diff_conv2 Suc_le_eq)
  finally show ?case by simp
qed auto

text \<open>Expressions without boundaries look at the characters they take only.\<close>

definition spells :: "unicode \<Rightarrow> rx \<Rightarrow> (symbol list \<Rightarrow> bool) \<Rightarrow> bool" where
  "spells u r L \<longleftrightarrow>
     (\<forall>p xs q ys. (q, ys) \<in> set (ends u r (p, xs)) \<longleftrightarrow> (\<exists>w. xs = w @ ys \<and> q = after p w \<and> L w))"

lemma spellsD: "spells u r L \<Longrightarrow> (q, ys) \<in> set (ends u r (p, xs)) \<longleftrightarrow> (\<exists>w. xs = w @ ys \<and> q = after p w \<and> L w)"
  by (simp add: spells_def)

lemma spells_Cls: "spells u (Cls c) (\<lambda>w. \<exists>x. w = [x] \<and> in_class u c x)"
proof -
  have "(q, ys) \<in> set (ends u (Cls c) (p, xs)) \<longleftrightarrow> (\<exists>w. xs = w @ ys \<and> q = after p w \<and> (\<exists>x. w = [x] \<and> in_class u c x))" for p xs q ys
    by (cases xs) (auto simp: after_Cons)
  then show ?thesis by (simp add: spells_def)
qed

lemma spells_Many: "spells u (Many c lo hi)
    (\<lambda>w. list_all (in_class u c) w \<and> lo \<le> length w \<and> (\<forall>h. hi = Some h \<longrightarrow> length w \<le> h))"
  by (auto simp: spells_def greedy_iff)

lemma spells_Or: "spells u a A \<Longrightarrow> spells u b B \<Longrightarrow> spells u (Or a b) (\<lambda>w. A w \<or> B w)"
  by (auto simp: spells_def)

lemma ends_Then: "(q, zs) \<in> set (ends u (Then a b) (p, xs)) \<longleftrightarrow>
    (\<exists>q' ys. (q', ys) \<in> set (ends u a (p, xs)) \<and> (q, zs) \<in> set (ends u b (q', ys)))"
  by auto

lemma spells_Then:
  assumes "spells u a A" "spells u b B"
  shows "spells u (Then a b) (\<lambda>w. \<exists>v v'. w = v @ v' \<and> A v \<and> B v')"
proof -
  have "(\<exists>q' ys. (\<exists>w. xs = w @ ys \<and> q' = after p w \<and> A w) \<and> (\<exists>w. ys = w @ zs \<and> q = after q' w \<and> B w))
    \<longleftrightarrow> (\<exists>w. xs = w @ zs \<and> q = after p w \<and> (\<exists>v v'. w = v @ v' \<and> A v \<and> B v'))" for p q xs zs
  proof
    assume "\<exists>q' ys. (\<exists>w. xs = w @ ys \<and> q' = after p w \<and> A w) \<and> (\<exists>w. ys = w @ zs \<and> q = after q' w \<and> B w)"
    then obtain v v' where "xs = v @ v' @ zs" "q = after (after p v) v'" "A v" "B v'" by blast
    then show "\<exists>w. xs = w @ zs \<and> q = after p w \<and> (\<exists>v v'. w = v @ v' \<and> A v \<and> B v')"
      by (intro exI [of _ "v @ v'"]) auto
  next
    assume "\<exists>w. xs = w @ zs \<and> q = after p w \<and> (\<exists>v v'. w = v @ v' \<and> A v \<and> B v')"
    then obtain v v' where v: "xs = v @ v' @ zs" "q = after p (v @ v')" "A v" "B v'" by auto
    show "\<exists>q' ys. (\<exists>w. xs = w @ ys \<and> q' = after p w \<and> A w) \<and> (\<exists>w. ys = w @ zs \<and> q = after q' w \<and> B w)"
      using v by (intro exI [of _ "after p v"] exI [of _ "v' @ zs"] conjI exI [of _ v] exI [of _ v']) simp_all
  qed
  then show ?thesis
    unfolding spells_def ends_Then spellsD [OF assms(1)] spellsD [OF assms(2)] by simp
qed

section \<open>Whole words\<close>

text \<open>The longest runs of word characters, and the other characters one by one.\<close>

function pieces :: "(symbol \<Rightarrow> bool) \<Rightarrow> symbol list \<Rightarrow> symbol list list" where
  "pieces W [] = []"
| "pieces W (x # xs) =
     (if W x then (x # takeWhile W xs) # pieces W (dropWhile W xs) else [x] # pieces W xs)"
  by pat_completeness auto

termination by (relation "measure (\<lambda>(_, xs). length xs)") (auto simp: le_imp_less_Suc length_dropWhile_le)

text \<open>An expression between boundaries that spells words only matches a whole word or nothing.\<close>

definition only_words :: "(symbol \<Rightarrow> bool) \<Rightarrow> (symbol list \<Rightarrow> bool) \<Rightarrow> bool" where
  "only_words W L \<longleftrightarrow> (\<forall>w. L w \<longrightarrow> w \<noteq> [] \<and> list_all W w)"

lemma take_while_word:
  assumes "list_all W w" "ys = [] \<or> \<not> W (hd ys)"
  shows "takeWhile W (w @ ys) = w \<and> dropWhile W (w @ ys) = ys"
  using assms by (induction w) (auto simp: takeWhile_eq_Nil_iff dropWhile_eq_self_iff)

lemma word_after_hd: "word_after u ys \<longleftrightarrow> ys \<noteq> [] \<and> uc_word u (hd ys)"
  by (cases ys) (simp_all add: word_after_def)

lemma word_before_after: "w \<noteq> [] \<Longrightarrow> list_all (uc_word u) w \<Longrightarrow> word_before u (after p w)"
  by (simp add: word_before_def after_def list_all_iff)

lemma between_boundaries:
  assumes "spells u r L" "only_words (uc_word u) L"
  shows "(q, ys) \<in> set (ends u (chain Boundary [r, Boundary]) (p, xs)) \<longleftrightarrow>
     \<not> word_before u p \<and> L (takeWhile (uc_word u) xs) \<and> ys = dropWhile (uc_word u) xs
     \<and> q = after p (takeWhile (uc_word u) xs)" (is "?l \<longleftrightarrow> ?r")
proof
  assume ?l
  then obtain w where w: "word_before u p \<noteq> word_after u xs" "xs = w @ ys" "q = after p w" "L w"
      "word_before u q \<noteq> word_after u ys"
    unfolding chain.simps ends_Then by (auto simp: spellsD [OF assms(1)] split: if_splits)
  have ne: "w \<noteq> []" "list_all (uc_word u) w" using assms(2) w(4) by (auto simp: only_words_def)
  then have "word_after u xs" using w(2) by (cases w) (simp_all add: word_after_def)
  moreover have "word_before u q" using word_before_after [OF ne] w(3) by simp
  ultimately show ?r
    using w take_while_word [OF ne(2), of ys] by (simp add: word_after_hd)
next
  assume r: ?r
  let ?w = "takeWhile (uc_word u) xs"
  have ne: "?w \<noteq> []" "list_all (uc_word u) ?w" using assms(2) r by (auto simp: only_words_def)
  have "word_after u xs" using ne(1) by (cases xs) (auto simp: word_after_def split: if_splits)
  moreover have "\<not> word_after u ys" using r hd_dropWhile [of "uc_word u" xs] by (auto simp: word_after_hd)
  moreover have "word_before u q" using word_before_after [OF ne] r by simp
  moreover have "xs = ?w @ ys" using r by simp
  moreover have "(q, ys) \<in> set (ends u r (p, xs))"
    unfolding spellsD [OF assms(1)] using r \<open>xs = ?w @ ys\<close> by (intro exI [of _ ?w]) simp
  ultimately have "(p, xs) \<in> set (ends u Boundary (p, xs))" "(q, ys) \<in> set (ends u r (p, xs))"
    "(q, ys) \<in> set (ends u Boundary (q, ys))" using r by simp_all
  then show ?l unfolding chain.simps ends_Then by blast
qed

text \<open>The search for such an expression, word by word.\<close>

lemma ends_whole_word:
  assumes "spells u r L" "only_words (uc_word u) L" "ends u (chain Boundary [r, Boundary]) (p, xs) \<noteq> []"
  shows "hd (ends u (chain Boundary [r, Boundary]) (p, xs)) = (after p (takeWhile (uc_word u) xs), dropWhile (uc_word u) xs)"
  using between_boundaries [OF assms(1,2), of "fst (hd (ends u (chain Boundary [r, Boundary]) (p, xs)))"
      "snd (hd (ends u (chain Boundary [r, Boundary]) (p, xs)))"] hd_in_set [OF assms(3)]
  by (intro prod_eqI) auto

lemma ends_none:
  assumes "spells u r L" "only_words (uc_word u) L"
  shows "ends u (chain Boundary [r, Boundary]) (p, xs) = [] \<longleftrightarrow> word_before u p \<or> \<not> L (takeWhile (uc_word u) xs)"
proof
  assume "ends u (chain Boundary [r, Boundary]) (p, xs) = []"
  then show "word_before u p \<or> \<not> L (takeWhile (uc_word u) xs)"
    using between_boundaries [OF assms, of _ _ p xs] by auto
next
  assume *: "word_before u p \<or> \<not> L (takeWhile (uc_word u) xs)"
  have "pos \<notin> set (ends u (chain Boundary [r, Boundary]) (p, xs))" for pos
    using between_boundaries [OF assms, of "fst pos" "snd pos" p xs] * by (cases pos) auto
  then show "ends u (chain Boundary [r, Boundary]) (p, xs) = []" by (metis list.set_intros(1) neq_Nil_conv)
qed

lemma takeWhile_dropWhile_word: "takeWhile W (dropWhile W xs) = []"
  by (induction xs) auto

lemma rewrite_match:
  assumes "ends u r (p, xs) = (q, ys) # ps" "length ys < length xs"
  shows "rewrite u r rep p xs = (case rewrite u r rep q ys of (n, out) \<Rightarrow> (Suc n, rep @ out))"
  using assms by (subst rewrite.simps) (cases xs; simp)

lemma rewrite_by_word:
  fixes rep :: "symbol list"
  assumes r: "spells u r L" "only_words (uc_word u) L"
  defines "W \<equiv> uc_word u" and "pat \<equiv> chain Boundary [r, Boundary]"
    and "f \<equiv> \<lambda>w. if L w then rep else w"
  shows "rewrite u pat rep p xs =
     (if word_before u p
      then (length (filter L (pieces W (dropWhile W xs))), takeWhile W xs @ concat (map f (pieces W (dropWhile W xs))))
      else (length (filter L (pieces W xs)), concat (map f (pieces W xs))))"
proof (induction "length xs" arbitrary: p xs rule: less_induct)
  case less
  have only: "\<not> L []" "\<And>x. \<not> W x \<Longrightarrow> \<not> L [x]" using r(2) by (auto simp: only_words_def W_def)
  note none = ends_none [OF r, folded W_def pat_def]
  note whole = ends_whole_word [OF r, folded W_def pat_def]
  show ?case
  proof (cases xs)
    case Nil
    then show ?thesis by (subst rewrite.simps) (simp split: list.split)
  next
    case (Cons x ys)
    note IH = less [of ys, simplified Cons, simplified]
    show ?thesis
    proof (cases "ends u pat (p, xs) = []")
      case True
      then have "rewrite u pat rep p xs = (case rewrite u pat rep (Some x) ys of (n, out) \<Rightarrow> (n, x # out))"
        by (subst rewrite.simps) (simp add: Cons)
      moreover have "word_before u (Some x) = W x" by (simp add: word_before_def W_def)
      ultimately show ?thesis
        using True none [of p xs] only by (auto simp: IH Cons f_def)
    next
      case False
      let ?w = "takeWhile W xs" and ?ys = "dropWhile W xs"
      from False none have p: "\<not> word_before u p" "L ?w" by auto
      then have x: "W x" using only(1) by (auto simp: Cons split: if_splits)
      then have lt: "length ?ys < length xs" using length_dropWhile_le [of W ys] by (simp add: Cons)
      have "ends u pat (p, xs) = (after p ?w, ?ys) # tl (ends u pat (p, xs))"
        using whole [OF False] False by (metis list.collapse)
      then have step: "rewrite u pat rep p xs = (case rewrite u pat rep (after p ?w) ?ys of (n, out) \<Rightarrow> (Suc n, rep @ out))"
        using lt by (rule rewrite_match)
      have "word_before u (after p ?w)"
        using x by (intro word_before_after) (auto simp: Cons W_def list_all_iff dest: set_takeWhileD)
      with less [OF lt] have "rewrite u pat rep (after p ?w) ?ys
          = (length (filter L (pieces W ?ys)), concat (map f (pieces W ?ys)))"
        by (simp add: takeWhile_dropWhile_word)
      then show ?thesis using p x step by (simp add: Cons f_def)
    qed
  qed
qed

section \<open>Years and the words around them\<close>

text \<open>
  What the tables are relied on for: decimal digits and letters are word characters, and
  among the ASCII characters the word characters are the letters, the digits and the
  underscore.
\<close>

definition sound_tables :: "unicode \<Rightarrow> bool" where
  "sound_tables u \<longleftrightarrow>
     (\<forall>s. uc_digit u s \<or> uc_letter u s \<longrightarrow> uc_word u s)
     \<and> (\<forall>c. byte c < 128 \<longrightarrow> (uc_word u [c] \<longleftrightarrow> c = CHR ''_'' \<or> is_digit c
          \<or> 65 \<le> byte c \<and> byte c \<le> 90 \<or> 97 \<le> byte c \<and> byte c \<le> 122))"

fun year_word :: "unicode \<Rightarrow> symbol list \<Rightarrow> bool" where
  "year_word u [a, b, c, d] \<longleftrightarrow>
     a = ''1'' \<and> b \<in> {''7'', ''8'', ''9''} \<and> uc_digit u c \<and> uc_digit u d
     \<or> a = ''2'' \<and> b = ''0'' \<and> (c \<in> {''0'', ''1''} \<and> uc_digit u d \<or> c = ''2'' \<and> d \<in> {''0'', ''1'', ''2'', ''3''})"
| "year_word u _ = False"

definition flanked :: "unicode \<Rightarrow> symbol list \<Rightarrow> bool" where
  "flanked u w \<longleftrightarrow>
     list_ex (\<lambda>i. i \<le> 40 \<and> length w \<le> i + 41 \<and> (uc_letter u (w ! i) \<or> w ! i = ''_'')) [0..<length w]"

text \<open>A word with a year in it, a letter or an underscore beside it, and no more than 40
  characters to each side of these.\<close>

definition identifier_word :: "unicode \<Rightarrow> symbol list \<Rightarrow> bool" where
  "identifier_word u w \<longleftrightarrow> list_all (uc_word u) w \<and>
     list_ex (\<lambda>i. year_word u (take 4 (drop i w)) \<and>
        (flanked u (take i w) \<and> length w \<le> i + 44 \<or> i \<le> 40 \<and> flanked u (drop (i + 4) w))) [0..<length w + 1]"

lemma list_ex_upto: "list_ex P [0..<Suc n] \<longleftrightarrow> (\<exists>i \<le> n. P i)"
  by (auto simp: list_ex_iff less_Suc_eq_le simp del: upt_Suc)

lemma flanked_index:
  "flanked u w \<longleftrightarrow> (\<exists>i < length w. i \<le> 40 \<and> length w \<le> i + 41 \<and> (uc_letter u (w ! i) \<or> w ! i = ''_''))"
  unfolding flanked_def list_ex_iff by auto

lemma identifier_index:
  "identifier_word u w \<longleftrightarrow> list_all (uc_word u) w \<and>
     (\<exists>i \<le> length w. year_word u (take 4 (drop i w)) \<and>
        (flanked u (take i w) \<and> length w \<le> i + 44 \<or> i \<le> 40 \<and> flanked u (drop (i + 4) w)))"
  unfolding identifier_word_def Suc_eq_plus1 [symmetric] list_ex_upto ..

lemma byte_eq_char: "byte c = byte d \<longleftrightarrow> c = d"
  using inj_byte_char by (auto dest: injD)

lemma span_chars:
  "in_item u s (Span (CHR ''7'') (CHR ''9'')) \<longleftrightarrow> s \<in> {''7'', ''8'', ''9''}"
  "in_item u s (Span (CHR ''0'') (CHR ''1'')) \<longleftrightarrow> s \<in> {''0'', ''1''}"
  "in_item u s (Span (CHR ''0'') (CHR ''3'')) \<longleftrightarrow> s \<in> {''0'', ''1'', ''2'', ''3''}"
proof -
  have n: "byte (CHR ''0'') = 48" "byte (CHR ''1'') = 49" "byte (CHR ''2'') = 50" "byte (CHR ''3'') = 51"
      "byte (CHR ''7'') = 55" "byte (CHR ''8'') = 56" "byte (CHR ''9'') = 57" by code_simp+
  have b: "byte c = 48 \<longleftrightarrow> c = CHR ''0''" "byte c = 49 \<longleftrightarrow> c = CHR ''1''" "byte c = 50 \<longleftrightarrow> c = CHR ''2''"
      "byte c = 51 \<longleftrightarrow> c = CHR ''3''" "byte c = 55 \<longleftrightarrow> c = CHR ''7''" "byte c = 56 \<longleftrightarrow> c = CHR ''8''"
      "byte c = 57 \<longleftrightarrow> c = CHR ''9''" for c
    unfolding n [symmetric] byte_eq_char by (rule refl)+
  have r: "55 \<le> n \<and> n \<le> 57 \<longleftrightarrow> n = 55 \<or> n = 56 \<or> n = 57" "48 \<le> n \<and> n \<le> 49 \<longleftrightarrow> n = 48 \<or> n = 49"
      "48 \<le> n \<and> n \<le> 51 \<longleftrightarrow> n = 48 \<or> n = 49 \<or> n = 50 \<or> n = 51" for n :: nat by auto
  show "in_item u s (Span (CHR ''7'') (CHR ''9'')) \<longleftrightarrow> s \<in> {''7'', ''8'', ''9''}"
    "in_item u s (Span (CHR ''0'') (CHR ''1'')) \<longleftrightarrow> s \<in> {''0'', ''1''}"
    "in_item u s (Span (CHR ''0'') (CHR ''3'')) \<longleftrightarrow> s \<in> {''0'', ''1'', ''2'', ''3''}"
    by (auto simp: n r b split: list.splits)
qed

lemma spells_cong: "spells u r L \<Longrightarrow> (\<And>w. L' w \<longleftrightarrow> L w) \<Longrightarrow> spells u r L'"
  by (simp add: spells_def)

lemma spells_first:
  assumes "spells u b B"
  shows "spells u (Then (Cls c) b) (\<lambda>w. case w of [] \<Rightarrow> False | x # v \<Rightarrow> in_class u c x \<and> B v)"
proof (rule spells_cong [OF spells_Then [OF spells_Cls assms]])
  fix w
  have "(\<exists>v v'. w = v @ v' \<and> (\<exists>x. v = [x] \<and> in_class u c x) \<and> B v')
    \<longleftrightarrow> (\<exists>x v'. w = [x] @ v' \<and> in_class u c x \<and> B v')" by blast
  then show "(case w of [] \<Rightarrow> False | x # v \<Rightarrow> in_class u c x \<and> B v)
    \<longleftrightarrow> (\<exists>v v'. w = v @ v' \<and> (\<exists>x. v = [x] \<and> in_class u c x) \<and> B v')" by (cases w) simp_all
qed

lemma spells_one: "spells u (Cls c) (\<lambda>w. case w of [x] \<Rightarrow> in_class u c x | _ \<Rightarrow> False)"
  by (rule spells_cong [OF spells_Cls]) (auto split: list.splits)

lemma spells_year: "spells u year_digits (year_word u)"
  unfolding year_digits_def chain.simps
  by (rule spells_cong, (rule spells_Or spells_first spells_Many spells_one)+)
    (case_tac "(u, w)" rule: year_word.cases; auto simp: span_chars simp del: in_item.simps(2))

lemma ascii_word: "sound_tables u \<Longrightarrow> c \<in> set ''_0123456789'' \<Longrightarrow> uc_word u [c]"
proof -
  assume u: "sound_tables u" and c: "c \<in> set ''_0123456789''"
  have "\<forall>c \<in> set ''_0123456789''. byte c < 128 \<and> (c = CHR ''_'' \<or> is_digit c)" by code_simp
  with c u show "uc_word u [c]" unfolding sound_tables_def by blast
qed

lemma year_word_length: "year_word u w \<Longrightarrow> length w = 4"
  by (cases "(u, w)" rule: year_word.cases) simp_all

lemma year_only_words: "sound_tables u \<Longrightarrow> only_words (uc_word u) (year_word u)"
  unfolding only_words_def
proof (intro allI impI)
  fix w assume u: "sound_tables u" and w: "year_word u w"
  note lit = ascii_word [OF u]
  have digit: "uc_digit u s \<Longrightarrow> uc_word u s" for s using u by (simp add: sound_tables_def)
  show "w \<noteq> [] \<and> list_all (uc_word u) w"
    using w by (cases "(u, w)" rule: year_word.cases) (auto simp: lit digit)
qed

text \<open>The two shapes of a word with a year.\<close>

lemma spells_flank: "spells u flank (\<lambda>w. list_all (uc_word u) w \<and> length w \<le> 40)"
  unfolding flank_def by (rule spells_cong [OF spells_Many]) (simp add: list_all_iff)

definition letter_or_underscore :: "unicode \<Rightarrow> symbol \<Rightarrow> bool" where
  "letter_or_underscore u x \<longleftrightarrow> uc_letter u x \<or> x = ''_''"

lemma flanked_iff:
  "flanked u w \<longleftrightarrow> (\<exists>a x b. w = a @ x # b \<and> letter_or_underscore u x \<and> length a \<le> 40 \<and> length b \<le> 40)"
proof
  assume "flanked u w"
  then obtain i where i: "i < length w" "i \<le> 40" "length w \<le> i + 41" "letter_or_underscore u (w ! i)"
    by (auto simp: flanked_index letter_or_underscore_def)
  then show "\<exists>a x b. w = a @ x # b \<and> letter_or_underscore u x \<and> length a \<le> 40 \<and> length b \<le> 40"
    by (intro exI [of _ "take i w"] exI [of _ "w ! i"] exI [of _ "drop (Suc i) w"]) (simp add: id_take_nth_drop [symmetric])
next
  assume "\<exists>a x b. w = a @ x # b \<and> letter_or_underscore u x \<and> length a \<le> 40 \<and> length b \<le> 40"
  then obtain a x b where "w = a @ x # b" "letter_or_underscore u x" "length a \<le> 40" "length b \<le> 40" by blast
  then show "flanked u w"
    unfolding flanked_index letter_or_underscore_def by (intro exI [of _ "length a"]) simp
qed

lemma identifier_iff:
  "identifier_word u w \<longleftrightarrow> list_all (uc_word u) w \<and>
     (\<exists>a y b. w = a @ y @ b \<and> year_word u y \<and> (flanked u a \<and> length b \<le> 40 \<or> length a \<le> 40 \<and> flanked u b))"
  unfolding identifier_index
proof (intro conj_cong refl iffI)
  assume "\<exists>i \<le> length w. year_word u (take 4 (drop i w)) \<and>
        (flanked u (take i w) \<and> length w \<le> i + 44 \<or> i \<le> 40 \<and> flanked u (drop (i + 4) w))"
    and "list_all (uc_word u) w"
  then obtain i where i: "i \<le> length w" "year_word u (take 4 (drop i w))"
    "flanked u (take i w) \<and> length w \<le> i + 44 \<or> i \<le> 40 \<and> flanked u (drop (i + 4) w)" by blast
  moreover have "w = take i w @ take 4 (drop i w) @ drop (i + 4) w"
    by (metis add.commute append_take_drop_id drop_drop)
  moreover have "length (drop (i + 4) w) \<le> 40" if "length w \<le> i + 44" using that by simp
  moreover have "length (take i w) \<le> 40" if "i \<le> 40" using that by simp
  ultimately show "\<exists>a y b. w = a @ y @ b \<and> year_word u y \<and> (flanked u a \<and> length b \<le> 40 \<or> length a \<le> 40 \<and> flanked u b)"
    by blast
next
  assume "\<exists>a y b. w = a @ y @ b \<and> year_word u y \<and> (flanked u a \<and> length b \<le> 40 \<or> length a \<le> 40 \<and> flanked u b)"
  then obtain a y b where w: "w = a @ y @ b" "year_word u y"
    "flanked u a \<and> length b \<le> 40 \<or> length a \<le> 40 \<and> flanked u b" by blast
  with year_word_length [OF w(2)] show "\<exists>i \<le> length w. year_word u (take 4 (drop i w)) \<and>
        (flanked u (take i w) \<and> length w \<le> i + 44 \<or> i \<le> 40 \<and> flanked u (drop (i + 4) w))"
    by (intro exI [of _ "length a"]) simp
qed

definition identifier_body :: rx where
  "identifier_body =
     Or (chain flank [Cls (OneOf [Letter, Lit (CHR ''_'')]), flank, year_digits, flank])
        (chain flank [year_digits, flank, Cls (OneOf [Letter, Lit (CHR ''_'')]), flank])"

lemma identifier_pattern_body: "identifier_pattern = chain Boundary [identifier_body, Boundary]"
  by (simp add: identifier_pattern_def identifier_body_def)

lemma word_parts:
  assumes "sound_tables u"
  shows "letter_or_underscore u x \<Longrightarrow> uc_word u x" "year_word u y \<Longrightarrow> list_all (uc_word u) y"
  using assms ascii_word [OF assms, of "CHR ''_''"] year_only_words [OF assms]
  by (auto simp: letter_or_underscore_def sound_tables_def only_words_def)

lemma spells_identifier:
  assumes u: "sound_tables u"
  shows "spells u identifier_body (identifier_word u)"
proof -
  let ?F = "\<lambda>w. list_all (uc_word u) w \<and> length w \<le> 40"
  let ?C = "\<lambda>L w. case w of [] \<Rightarrow> False | x # v \<Rightarrow> in_class u (OneOf [Letter, Lit (CHR ''_'')]) x \<and> L v"
  let ?T = "\<lambda>A B w. \<exists>v v'. w = v @ v' \<and> A v \<and> B v'"
  have body: "spells u identifier_body (\<lambda>w. ?T ?F (?C (?T ?F (?T (year_word u) ?F))) w
      \<or> ?T ?F (?T (year_word u) (?T ?F (?C ?F))) w)"
    unfolding identifier_body_def chain.simps
    by (intro spells_Or spells_Then spells_flank spells_first spells_year)
  have C: "?C L w \<longleftrightarrow> (\<exists>x v. w = x # v \<and> letter_or_underscore u x \<and> L v)" for L w
    by (auto simp: letter_or_underscore_def split: list.splits)
  have L: "?T ?F (?C (?T ?F (?T (year_word u) ?F))) w
      \<longleftrightarrow> list_all (uc_word u) w \<and> (\<exists>a y b. w = a @ y @ b \<and> year_word u y \<and> flanked u a \<and> length b \<le> 40)" for w
  proof
    assume "?T ?F (?C (?T ?F (?T (year_word u) ?F))) w"
    then obtain a x v y b where w: "w = a @ x # v @ y @ b" "?F a" "letter_or_underscore u x" "?F v" "year_word u y" "?F b"
      unfolding C by blast
    then have "w = (a @ x # v) @ y @ b" "flanked u (a @ x # v)" "list_all (uc_word u) w"
      using word_parts [OF u] by (auto simp: flanked_iff)
    with w show "list_all (uc_word u) w \<and> (\<exists>a y b. w = a @ y @ b \<and> year_word u y \<and> flanked u a \<and> length b \<le> 40)"
      by blast
  next
    assume "list_all (uc_word u) w \<and> (\<exists>a y b. w = a @ y @ b \<and> year_word u y \<and> flanked u a \<and> length b \<le> 40)"
    then obtain a x v y b where w: "w = a @ x # v @ y @ b" "list_all (uc_word u) w" "letter_or_underscore u x"
        "length a \<le> 40" "length v \<le> 40" "year_word u y" "length b \<le> 40"
      by (auto simp: flanked_iff)
    then have "?F a" "?F v" "?F b" by simp_all
    with w show "?T ?F (?C (?T ?F (?T (year_word u) ?F))) w"
      unfolding C by blast
  qed
  have R: "?T ?F (?T (year_word u) (?T ?F (?C ?F))) w
      \<longleftrightarrow> list_all (uc_word u) w \<and> (\<exists>a y b. w = a @ y @ b \<and> year_word u y \<and> length a \<le> 40 \<and> flanked u b)" for w
  proof
    assume "?T ?F (?T (year_word u) (?T ?F (?C ?F))) w"
    then obtain a y v x b where w: "w = a @ y @ v @ x # b" "?F a" "letter_or_underscore u x" "?F v" "year_word u y" "?F b"
      unfolding C by blast
    then have "flanked u (v @ x # b)" "list_all (uc_word u) w"
      using word_parts [OF u] by (auto simp: flanked_iff)
    with w show "list_all (uc_word u) w \<and> (\<exists>a y b. w = a @ y @ b \<and> year_word u y \<and> length a \<le> 40 \<and> flanked u b)"
      by blast
  next
    assume "list_all (uc_word u) w \<and> (\<exists>a y b. w = a @ y @ b \<and> year_word u y \<and> length a \<le> 40 \<and> flanked u b)"
    then obtain a y v x b where w: "w = a @ y @ v @ x # b" "list_all (uc_word u) w" "letter_or_underscore u x"
        "length a \<le> 40" "length v \<le> 40" "year_word u y" "length b \<le> 40"
      by (auto simp: flanked_iff)
    then have "?F a" "?F v" "?F b" by simp_all
    with w show "?T ?F (?T (year_word u) (?T ?F (?C ?F))) w"
      unfolding C by blast
  qed
  show ?thesis
    by (rule spells_cong [OF body]) (unfold L R identifier_iff, blast)
qed

section \<open>Replacing words\<close>

lemma concat_pieces [simp]: "concat (pieces W xs) = xs"
  by (induction W xs rule: pieces.induct) simp_all

lemma pieces_word:
  "w \<noteq> [] \<Longrightarrow> list_all W w \<Longrightarrow> ys = [] \<or> \<not> W (hd ys) \<Longrightarrow> pieces W (w @ ys) = w # pieces W ys"
  using take_while_word [of W "tl w" ys] by (cases w) simp_all

lemma pieces_before: "\<not> W x \<Longrightarrow> pieces W (v @ x # zs) = pieces W v @ [x] # pieces W zs"
proof (induction W v rule: pieces.induct)
  case (2 W y v)
  show ?case
  proof (cases "W y")
    case True
    have "takeWhile W (v @ x # zs) = takeWhile W v" "dropWhile W (v @ x # zs) = dropWhile W v @ x # zs"
      using 2(3) by (simp_all add: takeWhile_tail dropWhile_append)
    with 2 True show ?thesis by simp
  qed (use 2 in simp)
qed simp

lemma pieces_wordwise: "w \<in> set (pieces W xs) \<Longrightarrow> w \<noteq> [] \<and> (list_all W w \<or> (\<exists>x. w = [x] \<and> \<not> W x))"
  by (induction W xs rule: pieces.induct) (auto simp: list_all_iff dest: set_takeWhileD split: if_splits)

text \<open>A text in brackets in place of some words leaves the other words as they are.\<close>

lemma pieces_replaced:
  assumes "only_words W L" "rep = l # v @ [r]" "\<not> W l" "\<not> W r"
  shows "pieces W (concat (map (\<lambda>w. if L w then rep else w) (pieces W xs)))
     = concat (map (\<lambda>w. if L w then pieces W rep else [w]) (pieces W xs))"
proof (induction "length xs" arbitrary: xs rule: less_induct)
  case less
  let ?f = "\<lambda>w. if L w then rep else w"
  show ?case
  proof (cases xs)
    case (Cons x ys)
    show ?thesis
    proof (cases "W x")
      case False
      then have "\<not> L [x]" using assms(1) by (auto simp: only_words_def)
      then show ?thesis using less [of ys] False by (simp add: Cons)
    next
      case True
      let ?w = "takeWhile W xs" and ?ys = "dropWhile W xs"
      let ?out = "concat (map ?f (pieces W ?ys))"
      have lt: "length ?ys < length xs" using True length_dropWhile_le [of W ys] by (simp add: Cons)
      have p: "pieces W xs = ?w # pieces W ?ys" using True by (simp add: Cons)
      have first: "?out = [] \<or> \<not> W (hd ?out)"
      proof (cases ?ys)
        case (Cons y zs)
        then have "\<not> W y" using hd_dropWhile [of W xs] by simp
        then have "\<not> L [y]" using assms(1) by (auto simp: only_words_def)
        then show ?thesis using Cons \<open>\<not> W y\<close> by simp
      next
        case Nil
        then show ?thesis by (simp only: pieces.simps) simp
      qed
      have "pieces W (?f ?w @ ?out) = (if L ?w then pieces W rep else [?w]) @ pieces W ?out"
      proof (cases "L ?w")
        case True
        then show ?thesis
          using pieces_before [where W = W and x = r and v = "l # v" and zs = ?out]
            pieces_before [where W = W and x = r and v = "l # v" and zs = "[]"] assms(4)
          by (simp add: assms(2))
      next
        case False
        have "?w \<noteq> []" "list_all W ?w" using True by (auto simp: Cons list_all_iff dest: set_takeWhileD)
        with False first show ?thesis by (simp add: pieces_word)
      qed
      then show ?thesis using less [OF lt] by (simp add: p)
    qed
  qed simp
qed

text \<open>One step of the regex pass with such an expression.\<close>

lemma step_by_word:
  assumes eng: "follows_patterns u rx"
    and r: "spells u r L" "only_words (uc_word u) L" "pattern_of pat = chain Boundary [r, Boundary]"
    and t: "list_all complete (symbols t)" and rep: "list_all complete (symbols rep)"
  shows "symbols (fst (regex_step rx (pat, rep) (t, st)))
      = concat (map (\<lambda>w. if L w then symbols rep else w) (pieces (uc_word u) (symbols t)))"
    and "rx_count rx pat t = length (filter L (pieces (uc_word u) (symbols t)))"
    and "list_all complete (symbols (fst (regex_step rx (pat, rep) (t, st))))"
proof -
  let ?ps = "pieces (uc_word u) (symbols t)"
  have same: "rx_count rx pat t = rx_count (pattern_engine u) pat t"
      "rx_replace rx pat rep t = rx_replace (pattern_engine u) pat rep t"
    using eng valid_of_symbols [OF t] by (simp_all add: follows_patterns_def)
  have rw: "rewrite u (pattern_of pat) s None (symbols t)
      = (length (filter L ?ps), concat (map (\<lambda>w. if L w then s else w) ?ps))" for s
    using rewrite_by_word [OF r(1,2), of s None "symbols t"] by (simp add: r(3) word_before_def)
  show n: "rx_count rx pat t = length (filter L ?ps)"
    using same by (simp add: pattern_engine_def rw)
  let ?out = "concat (map (\<lambda>w. if L w then symbols rep else w) ?ps)"
  have whole: "list_all complete ?out"
  proof -
    have "list_all complete w" if "w \<in> set ?ps" for w
    proof -
      from that have "set w \<subseteq> set (concat ?ps)" by (auto simp del: concat_pieces)
      then have "set w \<subseteq> set (symbols t)" by (simp only: concat_pieces)
      with t show ?thesis by (auto simp: list_all_iff)
    qed
    then show ?thesis using rep by (auto simp: list_all_iff)
  qed
  show *: "symbols (fst (regex_step rx (pat, rep) (t, st))) = ?out"
  proof (cases "filter L ?ps = []")
    case True
    then have "map (\<lambda>w. if L w then symbols rep else w) ?ps = ?ps"
      by (intro map_idI) (auto simp: filter_empty_conv)
    then have "?out = symbols t" by (simp only: concat_pieces)
    then show ?thesis using True by (simp only: regex_step_apply n) simp
  next
    case False
    have "rx_replace rx pat rep t = concat ?out" using same by (simp add: pattern_engine_def rw)
    with whole False show ?thesis by (simp only: regex_step_apply n) (simp add: symbols_concat)
  qed
  show "list_all complete (symbols (fst (regex_step rx (pat, rep) (t, st))))"
    unfolding * by (rule whole)
qed

lemma identifier_only_words: "only_words (uc_word u) (identifier_word u)"
  by (auto simp: only_words_def identifier_word_def)

lemma placeholder_symbols:
  "symbols ''[YEAR]'' = [''['', ''Y'', ''E'', ''A'', ''R'', '']'']"
  "symbols ''[IDENTIFIER]'' = [''['', ''I'', ''D'', ''E'', ''N'', ''T'', ''I'', ''F'', ''I'', ''E'', ''R'', '']'']"
  by code_simp+

lemma bracket_no_word: "sound_tables u \<Longrightarrow> c \<in> {CHR ''['', CHR '']''} \<Longrightarrow> \<not> uc_word u [c]"
proof -
  assume u: "sound_tables u" and c: "c \<in> {CHR ''['', CHR '']''}"
  have "\<forall>c \<in> set ''[]''. byte c < 128 \<and> \<not> (c = CHR ''_'' \<or> is_digit c \<or> 65 \<le> byte c \<and> byte c \<le> 90 \<or> 97 \<le> byte c \<and> byte c \<le> 122)"
    by code_simp
  then have "byte c < 128 \<and> \<not> (c = CHR ''_'' \<or> is_digit c \<or> 65 \<le> byte c \<and> byte c \<le> 90 \<or> 97 \<le> byte c \<and> byte c \<le> 122)"
    using c by auto
  with u show "\<not> uc_word u [c]" unfolding sound_tables_def by blast
qed

lemma capital_word: "sound_tables u \<Longrightarrow> c \<in> set ''YEARIDNTF'' \<Longrightarrow> uc_word u [c]"
proof -
  assume u: "sound_tables u" and c: "c \<in> set ''YEARIDNTF''"
  have "\<forall>c \<in> set ''YEARIDNTF''. byte c < 128 \<and> 65 \<le> byte c \<and> byte c \<le> 90" by code_simp
  with c u show "uc_word u [c]" unfolding sound_tables_def by blast
qed

lemma placeholder_pieces:
  assumes "sound_tables u"
  shows "pieces (uc_word u) (symbols ''[YEAR]'') = [[''[''], [''Y'', ''E'', ''A'', ''R''], ['']'']]"
    "pieces (uc_word u) (symbols ''[IDENTIFIER]'')
       = [[''[''], [''I'', ''D'', ''E'', ''N'', ''T'', ''I'', ''F'', ''I'', ''E'', ''R''], ['']'']]"
  unfolding placeholder_symbols using bracket_no_word [OF assms] capital_word [OF assms] by simp_all

lemma placeholder_no_year:
  assumes "sound_tables u" "rep \<in> {''[YEAR]'', ''[IDENTIFIER]''}"
  shows "filter (year_word u) (pieces (uc_word u) (symbols rep)) = []"
  using assms(2) placeholder_pieces [OF assms(1)] by (elim insertE) simp_all

lemma pieces_placeholder:
  assumes "sound_tables u" "only_words (uc_word u) L" "rep \<in> {''[YEAR]'', ''[IDENTIFIER]''}"
  shows "pieces (uc_word u) (concat (map (\<lambda>w. if L w then symbols rep else w) (pieces (uc_word u) xs)))
     = concat (map (\<lambda>w. if L w then pieces (uc_word u) (symbols rep) else [w]) (pieces (uc_word u) xs))"
proof -
  have "\<exists>v. symbols rep = ''['' # v @ ['']'']"
    using assms(3) by (elim insertE) (simp_all only: placeholder_symbols, auto)
  then obtain v where "symbols rep = ''['' # v @ ['']'']" ..
  from pieces_replaced [OF assms(2) this] show ?thesis using bracket_no_word [OF assms(1)] by blast
qed

lemma concat_unless: "filter P ws = [] \<Longrightarrow> concat (map (\<lambda>w. if P w then s else w) ws) = concat ws"
  by (induction ws) (auto split: if_splits)

lemma concat_map_two:
  "concat (map g (concat (map (\<lambda>w. if P w then xs else [w]) ws)))
     = concat (map (\<lambda>w. if P w then concat (map g xs) else g w) ws)"
  by (induction ws) simp_all

lemma filter_replaced:
  "filter P xs = [] \<Longrightarrow> filter P (concat (map (\<lambda>w. if P w then xs else [w]) ws)) = []"
  by (induction ws) auto

section \<open>Properties of the patterns\<close>

text \<open>
  C14: years are replaced word by word. After the first two steps of the regex pass a text is
  the old one with every whole word that has a year and a letter or underscore in it (and no
  more than 40 characters to each side of these) replaced by the identifier placeholder,
  every word that is a year by the year placeholder, and all other words and the characters
  between them as they were. No year stands alone in it, and the residue check counts exactly
  the words that are years, in every text.
\<close>

theorem year_words_are_replaced_whole:
  assumes u: "sound_tables u" and eng: "follows_patterns u rx" and t: "valid_utf8 t"
    and out: "out = fst (fold (regex_step rx) (take 2 replacements) (t, st))"
  shows "symbols out = concat (map (\<lambda>w. if identifier_word u w then symbols ''[IDENTIFIER]''
        else if year_word u w then symbols ''[YEAR]'' else w) (pieces (uc_word u) (symbols t)))
    \<and> rx_count rx HISTORICAL_YEAR out = 0
    \<and> (valid_utf8 s \<longrightarrow> rx_count rx HISTORICAL_YEAR s
          = length (filter (year_word u) (pieces (uc_word u) (symbols s))))"
proof -
  let ?W = "uc_word u"
  let ?ps = "pieces ?W (symbols t)"
  have year: "spells u year_digits (year_word u)" "only_words ?W (year_word u)"
      "pattern_of HISTORICAL_YEAR = chain Boundary [year_digits, Boundary]"
    using spells_year year_only_words [OF u] by (simp_all add: year_pattern_def)
  have ident: "spells u identifier_body (identifier_word u)" "only_words ?W (identifier_word u)"
      "pattern_of YEAR_IDENTIFIER = chain Boundary [identifier_body, Boundary]"
    using spells_identifier [OF u] identifier_only_words by (simp_all add: identifier_pattern_body)
  have rep: "list_all complete (symbols ''[IDENTIFIER]'')" "list_all complete (symbols ''[YEAR]'')"
    by code_simp+
  obtain t1 st1 where t1: "regex_step rx (YEAR_IDENTIFIER, ''[IDENTIFIER]'') (t, st) = (t1, st1)" by fastforce
  have out1: "out = fst (regex_step rx (HISTORICAL_YEAR, ''[YEAR]'') (t1, st1))"
    by (simp add: out replacements_def numeral_2_eq_2 t1)
  note step1 = step_by_word(1) [OF eng ident symbols_complete [OF t] rep(1), of st, unfolded t1 fst_conv]
  have t1_ok: "list_all complete (symbols t1)"
    using step_by_word(3) [OF eng ident symbols_complete [OF t] rep(1), of st] by (simp add: t1)
  note step2 = step_by_word(1,3) [OF eng year t1_ok rep(2), of st1, folded out1]
  have p1: "pieces ?W (symbols t1)
      = concat (map (\<lambda>w. if identifier_word u w then pieces ?W (symbols ''[IDENTIFIER]'') else [w]) ?ps)"
    unfolding step1 by (rule pieces_placeholder [OF u ident(2)]) simp
  have "symbols out = concat (map (\<lambda>w. if identifier_word u w then symbols ''[IDENTIFIER]''
        else if year_word u w then symbols ''[YEAR]'' else w) ?ps)"
    unfolding step2(1) p1 concat_map_two concat_unless [OF placeholder_no_year [OF u insertI2 [OF insertI1]]] concat_pieces ..
  moreover have "rx_count rx HISTORICAL_YEAR out = 0"
    unfolding step_by_word(2) [OF eng year step2(2) rep(2)]
    unfolding step2(1) pieces_placeholder [OF u year(2) insertI1] filter_replaced [OF placeholder_no_year [OF u insertI1]]
    by simp
  moreover have "valid_utf8 s \<longrightarrow> rx_count rx HISTORICAL_YEAR s = length (filter (year_word u) (pieces ?W (symbols s)))"
    using step_by_word(2) [OF eng year symbols_complete rep(2)] by blast
  ultimately show ?thesis by blast
qed

lemma pattern_engine_follows: "follows_patterns u (pattern_engine u)"
  by (simp add: follows_patterns_def)

lemma ascii_tables_sound: "sound_tables ascii_tables"
  by (auto simp: sound_tables_def ascii_tables_def Let_def split: list.splits)

lemma year_words_are_replaced_whole_witness:
  "fst (fold (regex_step (pattern_engine ascii_tables)) (take 2 replacements) (''the 1989 of log_1989_a'', stats_default))
     = ''the [YEAR] of [IDENTIFIER]''"
proof -
  let ?out = "fst (fold (regex_step (pattern_engine ascii_tables)) (take 2 replacements) (''the 1989 of log_1989_a'', stats_default))"
  have "symbols ?out = concat (map (\<lambda>w. if identifier_word ascii_tables w then symbols ''[IDENTIFIER]''
        else if year_word ascii_tables w then symbols ''[YEAR]'' else w)
      (pieces (uc_word ascii_tables) (symbols ''the 1989 of log_1989_a'')))"
    using year_words_are_replaced_whole [OF ascii_tables_sound pattern_engine_follows _ refl, of "''the 1989 of log_1989_a''" stats_default] by simp
  also have "\<dots> = symbols ''the [YEAR] of [IDENTIFIER]''" by code_simp
  finally have "concat (symbols ?out) = concat (symbols ''the [YEAR] of [IDENTIFIER]'')" by (rule arg_cong)
  then show ?thesis by (simp only: concat_symbols)
qed

text \<open>The residue check with these patterns: a value passes when no string has a year for a word.\<close>

lemma no_residue_iff:
  assumes "sound_tables u" "follows_patterns u rx" "\<forall>s \<in> set (strings_of v). valid_utf8 s"
  shows "count_year_residue rx v = 0 \<longleftrightarrow>
     (\<forall>s \<in> set (strings_of v). \<forall>w \<in> set (pieces (uc_word u) (symbols s)). \<not> year_word u w)"
proof -
  have "rx_count rx HISTORICAL_YEAR s = length (filter (year_word u) (pieces (uc_word u) (symbols s)))"
    if "s \<in> set (strings_of v)" for s
    using that assms(3) step_by_word(2) [where pat = HISTORICAL_YEAR and rep = "[]",
      OF assms(2) spells_year year_only_words [OF assms(1)] _ symbols_complete]
    by (simp add: year_pattern_def)
  then show ?thesis by (auto simp: count_year_residue_def filter_empty_conv)
qed

text \<open>
  What the later steps undo. The first two shapes of a phone number need no boundary at their
  end, so digits that followed the number stand alone once it is replaced.
\<close>

lemma phone_uncovers_year:
  "rewritten ''+1 555 123 45671989'' = ''[PHONE]1989''
   \<and> count_year_residue (pattern_engine ascii_tables) (JStr ''[PHONE]1989'') = 1"
  by (rule conjI) code_simp+

lemma phone_uncovers_phone:
  "rewritten ''+1 555 123 4567123-456-7890'' = ''[PHONE]123-456-7890''
   \<and> rewritten ''[PHONE]123-456-7890'' = ''[PHONE][PHONE]''"
  by (rule conjI) code_simp+

text \<open>The bound of the flanks: a year behind a long enough word stays in it.\<close>

lemma long_identifier_keeps_year:
  "\<not> identifier_word ascii_tables (symbols (replicate 82 (CHR ''a'') @ ''1989''))"
  by code_simp

end
