(* ===== verification/Relay.thy ===== *)
theory Relay
  imports PySurface
begin

text \<open>
  Relay modes: \<open>LensCore::relay\<close> over HTTP (\<open>src/src/role/relay.rs\<close>), \<open>LensCore::ret_relay\<close>
  over Reticulum (\<open>role/ret_relay.rs\<close>), the node that starts the former
  (\<open>role/node.rs\<close>), their handles, and the Python entry points of \<open>ffi/pyo3.rs\<close>. The edge
  runtime, its transports, the keyring and the spawned task belong to other crates: the
  fields of \<open>edge_env\<close> and the parameters \<open>http\<close>, \<open>ret\<close> and \<open>join\<close>, all of which may fail.
  An edge is the value that its construction and the registration of handlers return.
\<close>

section \<open>Relay over HTTP\<close>

type_synonym socket_addr = "string \<times> 16 word"

datatype relay_error =
    NotSqliteBacked
  | RelaySigner string
  | RelayTransport string
  | RelayEdge string
  | RelayJoin string

record ('n, 'b, 's, 't, 'g) edge_env =
  eg_sqlite_backend :: "'n \<Rightarrow> 'b option"
  eg_load_signer :: "string \<Rightarrow> string \<Rightarrow> string + 's"
  eg_build :: "'b \<Rightarrow> 's \<Rightarrow> 't \<Rightarrow> string + 'g"
  eg_register :: "'n \<Rightarrow> 'g \<Rightarrow> string + 'g"

record http_config =
  hc_listen_addr :: socket_addr
  hc_peer_urls :: "(string, string) hmap"
  hc_request_timeout_secs :: nat

definition default_request_timeout :: nat where
  "default_request_timeout = 30"

record 'g relay_runtime =
  rl_edge :: 'g
  rl_listen_addr :: socket_addr

definition attach_handler :: "('n, 'b, 's, 't, 'g) edge_env \<Rightarrow> 'g \<Rightarrow> 'n \<Rightarrow> string + 'g" where
  "attach_handler env edge engine = eg_register env engine edge"

text \<open>The steps both relays share, around the construction of their transport.\<close>

definition start_edge ::
    "('n, 'b, 's, 't, 'g) edge_env \<Rightarrow> 'n \<Rightarrow> string \<Rightarrow> string \<Rightarrow> ('s \<Rightarrow> string + 't) \<Rightarrow> relay_error + 't \<times> 'g" where
  "start_edge env engine key_id seed_dir transport =
     (case eg_sqlite_backend env engine of
        None \<Rightarrow> Inl NotSqliteBacked
      | Some backend \<Rightarrow>
          rbind (map_err RelaySigner (eg_load_signer env key_id seed_dir)) (\<lambda>signer.
          rbind (map_err RelayTransport (transport signer)) (\<lambda>t.
          rbind (map_err RelayEdge (eg_build env backend signer t)) (\<lambda>g.
          rbind (map_err RelayEdge (eg_register env engine g)) (\<lambda>g'. Inr (t, g'))))))"

definition relay ::
    "('n, 'b, 's, 't, 'g) edge_env \<Rightarrow> (http_config \<Rightarrow> string + 't) \<Rightarrow> 'n \<Rightarrow> string \<Rightarrow> string \<Rightarrow> socket_addr \<Rightarrow>
       (string, string) hmap \<Rightarrow> relay_error + 'g relay_runtime" where
  "relay env http engine key_id seed_dir listen_addr peer_urls =
     rbind (start_edge env engine key_id seed_dir
              (\<lambda>_. http \<lparr>hc_listen_addr = listen_addr, hc_peer_urls = peer_urls,
                        hc_request_timeout_secs = default_request_timeout\<rparr>))
       (\<lambda>(_, g). Inr \<lparr>rl_edge = g, rl_listen_addr = listen_addr\<rparr>)"

text \<open>The task is told to stop and joined; what it returns, or that it panicked, is \<open>join\<close>.\<close>

definition relay_shutdown ::
    "('g \<Rightarrow> string + (string + unit)) \<Rightarrow> 'g relay_runtime \<Rightarrow> relay_error + unit" where
  "relay_shutdown join h =
     (case join (rl_edge h) of
        Inr run_result \<Rightarrow> map_err RelayEdge run_result
      | Inl e \<Rightarrow> Inl (RelayJoin e))"

section \<open>Relay over Reticulum\<close>

definition default_announce_interval :: nat where
  "default_announce_interval = 300"

record ret_config =
  rc_listen_addr :: socket_addr
  rc_bootstrap_peers :: "socket_addr list"
  rc_identity_path :: string
  rc_announce_interval_secs :: nat
  rc_local_key_id :: string
  rc_local_epoch :: nat

record 'g ret_runtime =
  rr_edge :: 'g
  rr_listen_addr :: socket_addr
  rr_transport_pubkey :: bytes
  rr_local_dest_hash :: "bytes option"

definition ret_relay ::
    "('n, 'b, 's, 't, 'g) edge_env \<Rightarrow> (ret_config \<Rightarrow> 's \<Rightarrow> string + 't) \<Rightarrow> ('t \<Rightarrow> bytes) \<Rightarrow> ('g \<Rightarrow> bytes option) \<Rightarrow>
       'n \<Rightarrow> string \<Rightarrow> string \<Rightarrow> string \<Rightarrow> socket_addr \<Rightarrow> socket_addr list \<Rightarrow> relay_error + 'g ret_runtime" where
  "ret_relay env ret pubkey dest_hash engine key_id seed_dir identity_path listen_addr bootstrap_peers =
     rbind (start_edge env engine key_id seed_dir
              (\<lambda>signer. ret \<lparr>rc_listen_addr = listen_addr, rc_bootstrap_peers = bootstrap_peers,
                  rc_identity_path = identity_path, rc_announce_interval_secs = default_announce_interval,
                  rc_local_key_id = key_id, rc_local_epoch = 0\<rparr> signer))
       (\<lambda>(t, g). Inr \<lparr>rr_edge = g, rr_listen_addr = listen_addr, rr_transport_pubkey = pubkey t,
                     rr_local_dest_hash = dest_hash g\<rparr>)"

definition transport_x25519_pubkey :: "'g ret_runtime \<Rightarrow> bytes" where
  "transport_x25519_pubkey h = take 32 (rr_transport_pubkey h)"

definition transport_ed25519_pubkey :: "'g ret_runtime \<Rightarrow> bytes" where
  "transport_ed25519_pubkey h = drop 32 (rr_transport_pubkey h)"

definition reticulum_dest_hash_hex :: "(bytes \<Rightarrow> string) \<Rightarrow> 'g ret_runtime \<Rightarrow> string option" where
  "reticulum_dest_hash_hex hex h = map_option hex (rr_local_dest_hash h)"

definition ret_shutdown ::
    "('g \<Rightarrow> string + (string + unit)) \<Rightarrow> 'g ret_runtime \<Rightarrow> relay_error + unit" where
  "ret_shutdown join h =
     (case join (rr_edge h) of
        Inr run_result \<Rightarrow> map_err RelayEdge run_result
      | Inl e \<Rightarrow> Inl (RelayJoin e))"

section \<open>The node on its relay\<close>

text \<open>The relay of a node listens on the next port; the listener's host part is the node's.\<close>

definition node_on_relay ::
    "(event_store, 'b, 's, 't, 'g) edge_env \<Rightarrow> (http_config \<Rightarrow> string + 't) \<Rightarrow> event_store \<Rightarrow> socket_addr \<Rightarrow> string \<Rightarrow>
       string \<Rightarrow> event_store peer_acl \<Rightarrow> upstream_lens list \<Rightarrow> 'retention \<Rightarrow> scoring_config \<Rightarrow> ux_config \<Rightarrow>
       relay_error + 'g relay_runtime node_handle" where
  "node_on_relay env http engine addr key_id seed_dir acl upstream retention scoring ux =
     node (\<lambda>seed key port urls. relay env http engine key seed (fst addr, port) urls)
       engine (snd addr) key_id seed_dir acl upstream retention scoring ux"

text \<open>The HTTP task is stopped and joined first, whatever it returns.\<close>

definition node_shutdown ::
    "('g \<Rightarrow> string + (string + unit)) \<Rightarrow> 'g relay_runtime node_handle \<Rightarrow> relay_error + unit" where
  "node_shutdown join h = relay_shutdown join (nh_relay h)"

datatype endpoint =
    GetScores
  | GetScoreByTrace
  | GetDetectionEvents
  | GetDetectionEventById
  | GetConformityAggregate
  | GetCalibrationBundles
  | GetCalibrationBundleByVersion

text \<open>The routing table of the read API; which path a template matches is the router's.\<close>

definition build_read_router :: "node_state \<Rightarrow> (string \<times> endpoint) list" where
  "build_read_router st = map (\<lambda>(path, e). (ns_api_root st @ path, e))
     [(''/scores'', GetScores), (''/scores/{trace_id}'', GetScoreByTrace),
      (''/detection_events'', GetDetectionEvents), (''/detection_events/{detection_id}'', GetDetectionEventById),
      (''/manifold_conformity_aggregate'', GetConformityAggregate),
      (''/calibration_bundles'', GetCalibrationBundles),
      (''/calibration_bundles/{version}'', GetCalibrationBundleByVersion)]"

section \<open>Python entry points\<close>

definition process_host :: "'n option \<Rightarrow> bool \<Rightarrow> surface_error + 'n" where
  "process_host process_engine runtime =
     (case process_engine of
        None \<Rightarrow> Inl (RuntimeError ''persist Engine not initialized'')
      | Some engine \<Rightarrow> if runtime then Inr engine else Inl (RuntimeError ''persist runtime handle not available''))"

definition install_relay ::
    "('n, 'b, 's, 't, 'g) edge_env \<Rightarrow> 'n option \<Rightarrow> bool \<Rightarrow> 'g \<Rightarrow> surface_error + 'g" where
  "install_relay env process_engine runtime edge =
     rbind (process_host process_engine runtime) (\<lambda>engine.
       map_err (\<lambda>e. RuntimeError (''attach lens-core relay handler: '' @ e)) (attach_handler env edge engine))"

text \<open>The first peer that does not parse is the error.\<close>

primrec parse_peers ::
    "(string \<Rightarrow> string + socket_addr) \<Rightarrow> (string \<Rightarrow> string) \<Rightarrow> string list \<Rightarrow> surface_error + socket_addr list" where
  "parse_peers parse_addr debug [] = Inr []"
| "parse_peers parse_addr debug (p # ps) =
     rbind (map_err (\<lambda>e. ValueError (''invalid bootstrap peer '' @ debug p @ '': '' @ e)) (parse_addr p)) (\<lambda>a.
     rbind (parse_peers parse_addr debug ps) (\<lambda>as. Inr (a # as)))"

record 'g py_ret_relay =
  pr_inner :: "'g ret_runtime option"
  pr_x25519_b64 :: string
  pr_ed25519_b64 :: string
  pr_listen_addr :: string
  pr_dest_hash_hex :: "string option"

record address_text =
  ad_parse :: "string \<Rightarrow> string + socket_addr"
  ad_show :: "socket_addr \<Rightarrow> string"
  ad_debug :: "string \<Rightarrow> string"

definition install_ret_relay ::
    "('n \<Rightarrow> string \<Rightarrow> string \<Rightarrow> string \<Rightarrow> socket_addr \<Rightarrow> socket_addr list \<Rightarrow> relay_error + 'g ret_runtime) \<Rightarrow>
     (relay_error \<Rightarrow> string) \<Rightarrow> address_text \<Rightarrow> (bytes \<Rightarrow> string) \<Rightarrow> (bytes \<Rightarrow> string) \<Rightarrow> 'n option \<Rightarrow> bool \<Rightarrow>
     string \<Rightarrow> string \<Rightarrow> string \<Rightarrow> string \<Rightarrow> string list \<Rightarrow> surface_error + 'g py_ret_relay" where
  "install_ret_relay start show_error addr b64 hex process_engine runtime key_id seed_dir identity_path listen peers =
     rbind (process_host process_engine runtime) (\<lambda>engine.
     rbind (map_err (\<lambda>e. ValueError (''invalid ret_listen_addr '' @ ad_debug addr listen @ '': '' @ e))
              (ad_parse addr listen)) (\<lambda>sock.
     rbind (parse_peers (ad_parse addr) (ad_debug addr) peers) (\<lambda>socks.
     rbind (map_err (\<lambda>e. RuntimeError (''ret_relay: '' @ show_error e))
              (start engine key_id seed_dir identity_path sock socks)) (\<lambda>h.
     Inr \<lparr>pr_inner = Some h, pr_x25519_b64 = b64 (transport_x25519_pubkey h),
          pr_ed25519_b64 = b64 (transport_ed25519_pubkey h), pr_listen_addr = ad_show addr (rr_listen_addr h),
          pr_dest_hash_hex = reticulum_dest_hash_hex hex h\<rparr>))))"

definition transport_identity_pubkeys :: "'g py_ret_relay \<Rightarrow> (string \<times> string) list" where
  "transport_identity_pubkeys p =
     [(''x25519_pub_base64'', pr_x25519_b64 p), (''ed25519_pub_base64'', pr_ed25519_b64 p)]"

definition py_ret_relay_shutdown ::
    "('g \<Rightarrow> string + (string + unit)) \<Rightarrow> (relay_error \<Rightarrow> string) \<Rightarrow> bool \<Rightarrow> 'g py_ret_relay \<Rightarrow>
       (surface_error + unit) \<times> 'g py_ret_relay" where
  "py_ret_relay_shutdown join show_error runtime p =
     (if \<not> runtime then (Inl (RuntimeError ''persist runtime handle not available''), p)
      else (case pr_inner p of
          None \<Rightarrow> (Inr (), p)
        | Some h \<Rightarrow> (map_err (\<lambda>e. RuntimeError (''ret_relay shutdown: '' @ show_error e)) (ret_shutdown join h),
                    p\<lparr>pr_inner := None\<rparr>)))"

section \<open>Facts\<close>

lemma start_edge_Inr:
  "start_edge env engine key_id seed_dir transport = Inr (t, g) \<longleftrightarrow>
     (\<exists>backend signer g0. eg_sqlite_backend env engine = Some backend \<and> eg_load_signer env key_id seed_dir = Inr signer
        \<and> transport signer = Inr t \<and> eg_build env backend signer t = Inr g0 \<and> eg_register env engine g0 = Inr g)"
  by (auto simp: start_edge_def rbind_eq_Inr_iff split: option.split)

text \<open>An engine without SQLite is refused before the keyring or a transport is touched.\<close>

lemma not_sqlite_backed:
  "eg_sqlite_backend env engine = None \<Longrightarrow> relay env http engine key_id seed_dir addr urls = Inl NotSqliteBacked"
  "eg_sqlite_backend env engine = None \<Longrightarrow>
     ret_relay env ret pubkey dest engine key_id seed_dir identity addr peers = Inl NotSqliteBacked"
  by (simp_all add: relay_def ret_relay_def start_edge_def)

text \<open>
  A node runs exactly when its relay does. The relay answers on the node's host, one port
  up, but on the node's own port when that is the last one.
\<close>

lemma node_runs_with_relay:
  "node_on_relay env http engine addr key_id seed_dir acl upstream retention scoring ux = Inr h \<longleftrightarrow>
     (\<exists>r. relay env http engine key_id seed_dir (fst addr, saturating_succ_u16 (snd addr)) (node_peer_urls upstream) = Inr r
        \<and> h = \<lparr>nh_relay = r, nh_state = \<lparr>ns_engine = Some engine, ns_peer_acl = acl,
                  ns_ratchet_version = sc_ratchet_calibration_version scoring, ns_api_root = api_root ux\<rparr>,
               nh_listen_port = snd addr\<rparr>)"
  by (auto simp: node_on_relay_def node_def rbind_eq_Inr_iff)

lemma relay_listen_addr: "relay env http engine key_id seed_dir a urls = Inr r \<Longrightarrow> rl_listen_addr r = a"
  by (auto simp: relay_def rbind_eq_Inr_iff)

lemma node_ports:
  assumes "node_on_relay env http engine addr key_id seed_dir acl upstream retention scoring ux = Inr h"
  shows "snd (rl_listen_addr (nh_relay h)) = nh_listen_port h \<longleftrightarrow> snd addr = - 1"
proof -
  obtain r where "relay env http engine key_id seed_dir (fst addr, saturating_succ_u16 (snd addr)) (node_peer_urls upstream) = Inr r"
    and h: "nh_relay h = r" "nh_listen_port h = snd addr"
    using assms unfolding node_runs_with_relay by auto
  then have "rl_listen_addr r = (fst addr, saturating_succ_u16 (snd addr))"
    by (simp add: relay_listen_addr)
  with h show ?thesis by (auto simp: saturating_succ_u16_def)
qed

text \<open>Every route of the read API leads to one handler, whatever the root.\<close>

lemma router_distinct: "distinct (map fst (build_read_router st))"
  by (simp add: build_read_router_def)

text \<open>
  The exported identity: the two halves of the transport key, in base64, unaffected by the
  shutdown, which stops the relay once.
\<close>

lemma install_ret_relay_identity:
  assumes "install_ret_relay start show_error addr b64 hex pe runtime key_id seed_dir identity_path listen peers = Inr p"
    and "\<And>engine sock socks h. start engine key_id seed_dir identity_path sock socks = Inr h \<Longrightarrow>
           length (rr_transport_pubkey h) = 64"
  obtains engine h sock where "pe = Some engine" "pr_inner p = Some h" "ad_parse addr listen = Inr sock"
    "transport_identity_pubkeys p = [(''x25519_pub_base64'', b64 (transport_x25519_pubkey h)),
       (''ed25519_pub_base64'', b64 (transport_ed25519_pubkey h))]"
    "length (transport_x25519_pubkey h) = 32" "length (transport_ed25519_pubkey h) = 32"
    "transport_x25519_pubkey h @ transport_ed25519_pubkey h = rr_transport_pubkey h"
  using assms
  by (fastforce simp: install_ret_relay_def process_host_def rbind_eq_Inr_iff transport_identity_pubkeys_def
      transport_x25519_pubkey_def transport_ed25519_pubkey_def split: option.splits if_splits)

lemma ret_shutdown_once:
  assumes "py_ret_relay_shutdown join show_error True p = (r, p')"
  shows "py_ret_relay_shutdown join' show_error True p' = (Inr (), p')"
    "transport_identity_pubkeys p' = transport_identity_pubkeys p"
  using assms by (auto simp: py_ret_relay_shutdown_def transport_identity_pubkeys_def split: option.splits)

lemma parse_peers_Inr: "parse_peers parse_addr debug ps = Inr as \<longleftrightarrow> list_all2 (\<lambda>p a. parse_addr p = Inr a) ps as"
  by (induction ps arbitrary: as) (auto simp: rbind_eq_Inr_iff list_all2_Cons1)

text \<open>
  The node a Python host installs loads its relay's key from a directory without keys, so
  with a keyring that needs them it never starts.
\<close>

lemma install_node_never_starts:
  assumes "\<And>key. \<exists>e. eg_load_signer env key ''/tmp/ciris-node-v0.4-seed'' = Inl e"
  shows "\<exists>why. install_node parse_addr debug show_error
           (\<lambda>seed key port urls. relay env http engine key seed (ip, port) urls)
           pe runtime listen_addr acl upstream scoring ux = Inl why"
proof -
  have "\<exists>e. relay env http engine key ''/tmp/ciris-node-v0.4-seed'' a urls = Inl e" for key a urls
    using assms [of key] by (auto simp: relay_def start_edge_def split: option.split)
  then show ?thesis
    by (auto simp: install_node_def node_def rbind_def map_err_def split: option.splits sum.splits)
      (metis Inl_Inr_False)
qed

end
