(* ===== verification/PyViews.thy ===== *)
theory PyViews
  imports Relay
begin

text \<open>
  What Python reads of the objects it holds: the getters and the \<open>__repr__\<close> of the
  configuration classes, of the node and of the relay handle (\<open>src/src/ffi/pyo3.rs\<close>). The
  text of \<open>{:?}\<close> on strings that the caller chose is the parameter \<open>debug\<close>; on the fixed
  words of the source it is the word in quotes.
\<close>

section \<open>Formatting\<close>

definition quoted :: "string \<Rightarrow> string" where
  "quoted s = CHR 0x22 # s @ [CHR 0x22]"

definition show_bool :: "bool \<Rightarrow> string" where
  "show_bool b = (if b then ''true'' else ''false'')"

definition debug_option :: "(string \<Rightarrow> string) \<Rightarrow> string option \<Rightarrow> string" where
  "debug_option debug x = (case x of None \<Rightarrow> ''None'' | Some s \<Rightarrow> ''Some('' @ debug s @ '')'')"

section \<open>Egress filter\<close>

definition py_egress_trace_level :: "egress_filter \<Rightarrow> string" where
  "py_egress_trace_level f =
     (case ef_trace_level f of Generic \<Rightarrow> ''generic'' | Detailed \<Rightarrow> ''detailed'' | FullTraces \<Rightarrow> ''full_traces'')"

definition severity_word :: "severity \<Rightarrow> string" where
  "severity_word s = (case s of SevInfo \<Rightarrow> ''info'' | SevWarning \<Rightarrow> ''warning'' | SevCritical \<Rightarrow> ''critical'')"

definition py_egress_min_severity :: "egress_filter \<Rightarrow> string option" where
  "py_egress_min_severity f = map_option severity_word (min_severity f)"

definition py_egress_switches :: "egress_filter \<Rightarrow> bool \<times> bool \<times> bool \<times> bool" where
  "py_egress_switches f =
     (include_detection_events f, include_scores f, redact_user_prompts f, redact_completions f)"

definition py_egress_repr :: "egress_filter \<Rightarrow> string" where
  "py_egress_repr f =
     ''EgressFilter(trace_level='' @ quoted (py_egress_trace_level f)
     @ '', min_severity='' @ debug_option quoted (map_option severity_word (min_severity f))
     @ '', include_detection_events='' @ show_bool (include_detection_events f)
     @ '', include_scores='' @ show_bool (include_scores f)
     @ '', redact_user_prompts='' @ show_bool (redact_user_prompts f)
     @ '', redact_completions='' @ show_bool (redact_completions f) @ '')''"

section \<open>Access list, scoring and interface\<close>

fun py_peer_acl_repr :: "'e peer_acl \<Rightarrow> string" where
  "py_peer_acl_repr AllowAll = ''PeerAcl(AllowAll)''"
| "py_peer_acl_repr (AllowList _) = ''PeerAcl(AllowList(...))''"
| "py_peer_acl_repr (FromDirectory _) = ''PeerAcl(FromDirectory(...))''"

definition scoring_config_new :: "u32 \<Rightarrow> i32 \<Rightarrow> scoring_config" where
  "scoring_config_new gate version = \<lparr>sc_sample_size_gate = gate, sc_ratchet_calibration_version = version\<rparr>"

definition py_scoring_config_new :: "u32 option \<Rightarrow> i32 option \<Rightarrow> scoring_config" where
  "py_scoring_config_new gate version =
     scoring_config_new (case gate of None \<Rightarrow> 500 | Some g \<Rightarrow> g) (case version of None \<Rightarrow> 0 | Some v \<Rightarrow> v)"

definition py_scoring_getters :: "scoring_config \<Rightarrow> u32 \<times> i32" where
  "py_scoring_getters c = (sc_sample_size_gate c, sc_ratchet_calibration_version c)"

definition py_scoring_repr :: "scoring_config \<Rightarrow> string" where
  "py_scoring_repr c =
     ''ScoringConfig(sample_size_gate='' @ show_nat (unat (sc_sample_size_gate c))
     @ '', ratchet_calibration_version='' @ show_int (sint (sc_ratchet_calibration_version c)) @ '')''"

definition py_ux_config_new :: "string option \<Rightarrow> string option \<Rightarrow> ux_config" where
  "py_ux_config_new api web =
     \<lparr>api_root = (case api of None \<Rightarrow> ''/lens/api/v1'' | Some a \<Rightarrow> a), web_root = web\<rparr>"

definition py_ux_getters :: "ux_config \<Rightarrow> string \<times> string option" where
  "py_ux_getters c = (api_root c, web_root c)"

definition py_ux_repr :: "(string \<Rightarrow> string) \<Rightarrow> ux_config \<Rightarrow> string" where
  "py_ux_repr debug c =
     ''UxConfig(api_root='' @ debug (api_root c) @ '', web_root='' @ debug_option debug (web_root c) @ '')''"

section \<open>Handles\<close>

definition py_lens_node_repr :: string where
  "py_lens_node_repr = ''LensNode(<running>)''"

definition py_ret_relay_getters :: "'g py_ret_relay \<Rightarrow> string \<times> string \<times> string option \<times> string" where
  "py_ret_relay_getters p = (pr_x25519_b64 p, pr_ed25519_b64 p, pr_dest_hash_hex p, pr_listen_addr p)"

definition py_ret_relay_repr :: "'g py_ret_relay \<Rightarrow> string" where
  "py_ret_relay_repr p = ''RetRelay(listen='' @ pr_listen_addr p @ '', <running>)''"

section \<open>Reading and building again\<close>

lemma severity_word_parses: "parse_severity debug (severity_word s) = Inr s"
  by (cases s) (simp_all add: severity_word_def parse_severity_def)

text \<open>A filter built from what the getters of another show is that filter.\<close>

lemma egress_filter_from_getters:
  "case py_egress_switches f of (events, scores, prompts, completions) \<Rightarrow>
     py_egress_filter_new debug (py_egress_trace_level f) (py_egress_min_severity f) events scores prompts completions = Inr f"
proof -
  have "parse_level debug (py_egress_trace_level f) = Inr (ef_trace_level f)"
    by (cases "ef_trace_level f") (simp_all add: parse_level_def py_egress_trace_level_def)
  then show ?thesis
    by (simp add: py_egress_switches_def py_egress_filter_new_def py_egress_min_severity_def severity_word_parses
        egress_with_all_def split: option.split)
qed

lemma scoring_config_from_getters:
  "case py_scoring_getters c of (gate, version) \<Rightarrow> py_scoring_config_new (Some gate) (Some version) = c"
  by (simp add: py_scoring_getters_def py_scoring_config_new_def scoring_config_new_def)

lemma scoring_config_standard: "py_scoring_config_new None None = scoring_config_default"
  by (simp add: py_scoring_config_new_def scoring_config_new_def scoring_config_default_def)

text \<open>The handle shows the same keys before and after it was shut down.\<close>

lemma ret_relay_getters_survive_shutdown:
  "py_ret_relay_getters (snd (py_ret_relay_shutdown shutdown show_error runtime p)) = py_ret_relay_getters p
   \<and> py_ret_relay_repr (snd (py_ret_relay_shutdown shutdown show_error runtime p)) = py_ret_relay_repr p"
  by (auto simp: py_ret_relay_shutdown_def py_ret_relay_getters_def py_ret_relay_repr_def split: option.splits)

end
