(* ===== verification/Spec2Isabelle.thy ===== *)
theory Spec2Isabelle
  imports Pipeline AxisDetectors Scrubber AuditLog Federation MetadataExtraction Delivery Interleaving
    PyMethods Recognizer Patterns PyViews
begin

text \<open>
  A verification development of CIRISLensCore, the lens of the CIRIS federation: it captures the
  reasoning traces of an agent, seals and signs them under consent, scores them against a
  calibration, keeps and evicts them, forwards them under a policy, and scrubs personal data.

  \<^bold>\<open>The program.\<close> Two halves meet in a trace. The client half (\<open>src/src/capture\<close>) takes one
  reasoning event after the other: \<open>PartialTraceStore\<close> assembles the events of a thought, the
  event that ends the thought seals the trace, the consent gate decides, the canonical envelope is
  signed, wrapped into a batch, copied to a local directory, and handed to the persistence engine.
  The lens half takes a trace (\<open>src/src/pipeline\<close>): cohort and features are extracted, the
  manifold scorer computes a distance or says why it cannot, the sample gate decides whether a
  number may be said at all, and the outcome becomes a signed detection row. Around them: the read
  API and node mode (\<open>src/src/role\<close>, \<open>src/src/config\<close>), retention, the window aggregates, the
  population detectors, the audit log, the Python boundary (\<open>src/src/ffi/pyo3.rs\<close>), and the
  scrubber and extraction under \<open>src/patterns_from_cirislens_core\<close>.

  \<^bold>\<open>Shared theories.\<close>
  \<^item> LensPrelude: words, results as sums (\<open>rbind\<close>, \<open>map_err\<close>), the string functions of the Rust
    library, RFC 3339 instants, and the locale \<open>wire_enum\<close> of a closed vocabulary, interpreted for the
    events, the components and the two dimensions of the population detectors.
  \<^item> F64: \<open>f64\<close> as signed exact values with one rounding per operation, NaN and infinities. KeyMaps:
    \<open>HashMap\<close> and \<open>BTreeMap\<close> under the locales \<open>key_map\<close> and \<open>canonical_map\<close>. Json: the value tree.
  \<^item> Machines: the locales \<open>reactive\<close> (an invariant and a guarantee on every output) and
    \<open>keyed_machine\<close> (independent parts of a keyed store), with their consequences for whole runs.

  \<^bold>\<open>Capture.\<close> Events (\<open>event.rs\<close>), PartialTrace (\<open>partial.rs\<close>), Seal (\<open>seal.rs\<close>), Consent
  (\<open>consent.rs\<close>), Correlation (\<open>correlation.rs\<close>), Batch (\<open>batch.rs\<close>), CaptureClient (\<open>client.rs\<close>),
  PyCapture (\<open>py_engine.rs\<close> and the capture path of \<open>pyo3.rs\<close>). The state of the client is the store,
  the copy counter and the list of calls it made (copies and batches). Its lemmas show what leaves
  the client: lawful batches under consent only, nothing after a withdrawal; that a stream seals
  complete traces and treats thoughts as if alone; that the canonical bytes determine the signed
  content; and that the Python path is a refinement of the Rust one. Delivery adds progress: on a
  healthy host every completed thought is handed out. Interleaving splits a call at every point where
  another task can run, with dropped futures, and shows that every execution is one of the
  sequential client and that batches are lawful at every moment of it.

  \<^bold>\<open>Scoring.\<close> Scoring (\<open>scoring/result.rs\<close>, \<open>assembly.rs\<close>, \<open>n_eff.rs\<close>, \<open>capacity.rs\<close>,
  \<open>capacity/score.rs\<close>), Features (\<open>cohort/declared.rs\<close>, \<open>extract/projection.rs\<close>), Calibration
  (\<open>scoring/calibration.rs\<close>), Manifold (\<open>detector/manifold.rs\<close>), Signing (\<open>signing/event.rs\<close>), Pipeline
  (\<open>pipeline/lifecycle.rs\<close> and the batch entry of \<open>pyo3.rs\<close>), AxisMetrics (\<open>axis_calibration.rs\<close>,
  \<open>axis_metrics.rs\<close>), AxisDetectors (the two population detectors), Scores (\<open>scores\<close>). Indexing out of
  range is a value of its own, so that the absence of panics is a theorem: on a validated bundle
  nothing panics, a number is said for supported cohorts only, and a signature binds the row.

  \<^bold>\<open>Node.\<close> Retention (\<open>retention\<close>, \<open>config/retention.rs\<close>): plan, deletion loop and its end. Egress
  (\<open>config/egress.rs\<close>): the forwarding policy as edits that settle, one interpretation of
  \<open>settling_edit\<close> per level of a batch. NodeApi (\<open>role/node.rs\<close>, \<open>config/node.rs\<close>): every route.
  Relay (\<open>role/relay.rs\<close>, \<open>ret_relay.rs\<close>, the start of \<open>node.rs\<close>). Federation (\<open>wire\<close>, \<open>canonical\<close>,
  \<open>capacity/attestation.rs\<close>, \<open>role/handler.rs\<close>). AuditLog (\<open>audit\<close>). PySurface, PyMethods and PyViews
  (\<open>ffi/pyo3.rs\<close>): arguments, methods, getters.

  \<^bold>\<open>Scrubber and extraction.\<close> Ner and NerBatch (\<open>scrubber/ner.rs\<close>): spans, replacement on bytes,
  chunks, mini-batches, cache. Recognizer (the three loaders and the two backends of \<open>ner.rs\<close>): label
  sets, sources, padding, the ONNX path. Patterns (\<open>regex.rs\<close>): the eight expressions and what they
  mean. ScrubWalk (\<open>walker.rs\<close>, \<open>fields.rs\<close>) and Scrubber (\<open>mod.rs\<close>): the two-phase walk and the
  entry points. The lemmas show that tagged text is hidden, that batching, caching and padding
  change no answer, that the walk rewrites every string by itself, that years are replaced as whole
  words, and that whatever goes wrong returns no trace. MetadataExtraction
  (\<open>extraction/json_path.rs\<close>, \<open>metadata.rs\<close>): columns of a trace.

  \<^bold>\<open>Parameters.\<close> Code of other crates is an argument of the definitions that use it: the persistence
  engine and federation directory, canonicalizer, base64, hex, SHA-256, Ed25519 and the hybrid
  signer, chrono, serde readers and printers, the tokenizer and the networks, the regex engine, the
  Unicode tables, the edge runtime. Hypotheses on them are definitions or locale assumptions with a
  name (\<open>recognizer_ok\<close>, \<open>encodes\<close>, \<open>attends\<close>, \<open>follows_patterns\<close>, \<open>sound_tables\<close>, and so on); each
  property that has one is followed by an instance on concrete functions.

  \<^bold>\<open>Bounds and fuel.\<close> Counters, versions and ports have their width, with wrap-around or
  saturation where the code has it; \<open>usize\<close> counters of the scrubber are natural numbers, since they
  count elements in memory. There is no fuel: recursion is structural or has a measure, and the
  deletion loop of Retention, which need not end, is a partial function that returns \<open>None\<close> when it
  does not; \<open>eviction_drains\<close> shows that it ends over an engine that deletes by batches. Nesting of JSON is
  bounded by the limit of the walker, as in the code.

  \<^bold>\<open>Not modelled.\<close> The tensor, tokenizer and ONNX libraries, the hub and the files behind the loaders;
  the regex engine itself; the HTTP listener, timers and log output; the getters that only hand out
  a reference; derived serializers; the registration of the Python module. The resourcing
  classifier (\<open>cohort/resourcing.rs\<close>) is a \<open>todo!\<close> in the source. \<open>lib.rs\<close>, \<open>observability\<close> and the
  module files only declare and re-export; tests and benchmarks are not part of the program. The edge,
  persistence and verification crates are not in the repository.
\<close>

section \<open>Across components\<close>

text \<open>
  A trace that the scrubber returns, with an engine that follows the patterns, has no year for a
  whole word in any of its strings: the walk, the residue check and the patterns together.
\<close>

lemma returned_traces_have_no_year_words:
  assumes "ne_configured (se_ner env) \<longrightarrow> ner_ok one (se_ner env) cache"
    and "sound_tables u" "follows_patterns u (se_regex env)"
    and t: "fst (scrub_trace env v level cache) = Done t" "level \<noteq> LGeneric"
    and "\<forall>s \<in> set (strings_of (sct_value t)). valid_utf8 s"
  shows "\<forall>s \<in> set (strings_of (sct_value t)). \<forall>w \<in> set (pieces (uc_word u) (symbols s)). \<not> year_word u w"
proof -
  have "verdict env one level v = Done (sct_value t)"
    using trace_verdict [OF assms(1), of v level] t(1) by (simp add: scrubbed_value_def)
  then have "count_year_residue (se_regex env) (sct_value t) = 0"
    using verdict_above_generic [OF _ t(2)] by blast
  then show ?thesis using no_residue_iff [OF assms(2,3,6)] by simp
qed

end
